(* ===== verification/Prelude.thy ===== *)
theory Prelude
  imports Main "HOL-Library.Word"
begin

unbundle bit_operations_syntax

text \<open>
  What every component of the model shares: the machine integers of the C code, its byte
  and character buffers with the accesses that leave them made visible, the string routines
  of the C library that the code calls, and the parser's error monad with its
  Hoare triples.

  Conventions. A \<open>uint8_t\<close> is a \<open>u8\<close>, a \<open>uint16_t\<close> a \<open>u16\<close>, a \<open>uint32_t\<close> a \<open>u32\<close> and a
  \<open>uint64_t\<close> a \<open>u64\<close>, all words of HOL-Library.Word, so their arithmetic wraps as in C.
  A \<open>char\<close> buffer is a list of characters of the buffer's length, the zero byte included.
  An access outside a buffer has no meaning in C: it is \<open>None\<close> here, never a made-up value.
\<close>

section \<open>Machine integers\<close>

type_synonym u8 = "8 word"
type_synonym u16 = "16 word"
type_synonym u32 = "32 word"
type_synonym u64 = "64 word"

text \<open>Facts about word arithmetic that turn a word into the number it stands for.\<close>

named_theorems to_nat \<open>rules that move a word comparison or sum to natural numbers\<close>

lemma unat_Suc_if [to_nat]:
  fixes w :: "'a::len word"
  assumes "unat w + 1 < 2 ^ LENGTH('a)"
  shows "unat (w + 1) = unat w + 1"
  using assms by (simp add: unat_word_ariths unat_1)

lemma unat_add_noovf [to_nat]:
  fixes v w :: "'a::len word"
  assumes "unat v + unat w < 2 ^ LENGTH('a)"
  shows "unat (v + w) = unat v + unat w"
  using assms by (simp add: unat_word_ariths)

lemma unat_dec [to_nat]:
  fixes w :: "'a::len word"
  assumes "0 < unat w"
  shows "unat (w - 1) = unat w - 1"
  using assms by (metis unat_0_iff unat_minus_one gr_implies_not0)

lemma unat_of_nat_eq:
  "n < 2 ^ LENGTH('a) \<Longrightarrow> unat (of_nat n :: 'a::len word) = n"
  by (simp add: unsigned_of_nat take_bit_nat_eq_self)

lemma unat_eqI: "unat (v :: 'a::len word) = unat w \<Longrightarrow> v = w"
  by (simp add: word_unat_eq_iff)

lemma of_nat_unat_cast: "(of_nat (unat (w :: 'a::len word)) :: 'b::len word) = ucast w"
  by simp

lemma unat_u8_less [simp]: "unat (w :: u8) < 256"
  using unsigned_less [of w] by simp

lemma unat_u16_less [simp]: "unat (w :: u16) < 65536"
  using unsigned_less [of w] by simp

lemma unat_u32_less [simp]: "unat (w :: u32) < 4294967296"
  using unsigned_less [of w] by simp

lemma unat_u8_of_u16 [simp]: "unat (ucast (w :: u8) :: u16) = unat w"
  by (simp add: unsigned_ucast_eq take_bit_nat_eq_self unat_u8_less [THEN less_trans])

lemma unat_u8_of_u32 [simp]: "unat (ucast (w :: u8) :: u32) = unat w"
  by (simp add: unsigned_ucast_eq take_bit_nat_eq_self unat_u8_less [THEN less_trans])

lemma unat_u16_of_u32 [simp]: "unat (ucast (w :: u16) :: u32) = unat w"
  by (simp add: unsigned_ucast_eq take_bit_nat_eq_self unat_u16_less [THEN less_trans])

section \<open>Memory\<close>

text \<open>
  A read or write of \<open>n\<close> consecutive elements from index \<open>i\<close> of a buffer. \<open>None\<close> marks
  an access that leaves the buffer.
\<close>

definition peek :: "'a list \<Rightarrow> nat \<Rightarrow> nat \<Rightarrow> 'a list option" where
  "peek buf i n = (if i + n \<le> length buf then Some (take n (drop i buf)) else None)"

definition poke :: "'a list \<Rightarrow> nat \<Rightarrow> 'a list \<Rightarrow> 'a list option" where
  "poke buf i xs =
     (if i + length xs \<le> length buf
      then Some (take i buf @ xs @ drop (i + length xs) buf) else None)"

lemma peek_eq_Some [simp]:
  "peek buf i n = Some xs \<longleftrightarrow> i + n \<le> length buf \<and> xs = take n (drop i buf)"
  by (auto simp: peek_def)

lemma poke_eq_Some:
  "poke buf i xs = Some buf' \<longleftrightarrow>
     i + length xs \<le> length buf \<and> buf' = take i buf @ xs @ drop (i + length xs) buf"
  by (auto simp: poke_def)

lemma length_poke: "poke buf i xs = Some buf' \<Longrightarrow> length buf' = length buf"
  by (auto simp: poke_eq_Some)

lemma peek_poke_same: "poke buf i xs = Some buf' \<Longrightarrow> peek buf' i (length xs) = Some xs"
  by (auto simp: poke_eq_Some)

text \<open>Consecutive writes are one write.\<close>

lemma poke_merge:
  "j = i + length xs \<Longrightarrow>
   Option.bind (poke buf i xs) (\<lambda>b. Option.bind (poke b j ys) f) = Option.bind (poke buf i (xs @ ys)) f"
  by (auto simp: poke_def add.commute add.left_commute)

section \<open>Error-and-state computations\<close>

text \<open>
  A C function of the parser returns an error code and works on a context it mutates; on an
  error the mutations made so far stay. \<open>CHECK m k\<close> is the code's \<open>CHECK(x)\<close> macro: run
  \<open>m\<close>, return its error if it has one, go on with \<open>k\<close> otherwise.
\<close>

type_synonym ('e, 's, 'a) comp = "'s \<Rightarrow> ('e + 'a) \<times> 's"

definition CHECK ::
  "('e, 's, 'a) comp \<Rightarrow> ('a \<Rightarrow> ('e, 's, 'b) comp) \<Rightarrow> ('e, 's, 'b) comp" where
  "CHECK m k = (\<lambda>s. case m s of (Inl e, s') \<Rightarrow> (Inl e, s') | (Inr x, s') \<Rightarrow> k x s')"

definition return :: "'a \<Rightarrow> ('e, 's, 'a) comp" where
  "return x = (\<lambda>s. (Inr x, s))"

definition throw :: "'e \<Rightarrow> ('e, 's, 'a) comp" where
  "throw e = (\<lambda>s. (Inl e, s))"

definition gets :: "('s \<Rightarrow> 'a) \<Rightarrow> ('e, 's, 'a) comp" where
  "gets f = (\<lambda>s. (Inr (f s), s))"

definition modify :: "('s \<Rightarrow> 's) \<Rightarrow> ('e, 's, unit) comp" where
  "modify f = (\<lambda>s. (Inr (), f s))"

text \<open>
  \<open>wp m Q E s\<close>: running \<open>m\<close> from \<open>s\<close> ends in a result and state that satisfy \<open>Q\<close>, or in an
  error and state that satisfy \<open>E\<close>. The rules compute it along the computation; a component
  proves one \<open>wp\<close> fact per operation and uses it in its callers through \<open>wp_mono\<close>.
\<close>

definition wp ::
  "('e, 's, 'a) comp \<Rightarrow> ('a \<Rightarrow> 's \<Rightarrow> bool) \<Rightarrow> ('e \<Rightarrow> 's \<Rightarrow> bool) \<Rightarrow> 's \<Rightarrow> bool" where
  "wp m Q E s = (case m s of (Inl e, s') \<Rightarrow> E e s' | (Inr x, s') \<Rightarrow> Q x s')"

named_theorems wp_rules \<open>equations that compute a weakest precondition\<close>

lemma wp_CHECK [wp_rules]: "wp (CHECK m k) Q E = wp m (\<lambda>x. wp (k x) Q E) E"
  by (rule ext) (simp add: wp_def CHECK_def split: prod.splits sum.splits)

lemma wp_return [wp_rules]: "wp (return x) Q E = Q x"
  by (rule ext) (simp add: wp_def return_def)

lemma wp_throw [wp_rules]: "wp (throw e) Q E = E e"
  by (rule ext) (simp add: wp_def throw_def)

lemma wp_gets [wp_rules]: "wp (gets f) Q E = (\<lambda>s. Q (f s) s)"
  by (rule ext) (simp add: wp_def gets_def)

lemma wp_modify [wp_rules]: "wp (modify f) Q E = (\<lambda>s. Q () (f s))"
  by (rule ext) (simp add: wp_def modify_def)

lemma wp_if [wp_rules]:
  "wp (if b then m else m') Q E s = (if b then wp m Q E s else wp m' Q E s)"
  by simp

lemma wp_mono:
  assumes "wp m Q E s"
    and "\<And>x s'. Q x s' \<Longrightarrow> Q' x s'"
    and "\<And>e s'. E e s' \<Longrightarrow> E' e s'"
  shows "wp m Q' E' s"
  using assms by (auto simp: wp_def split: prod.splits sum.splits)

lemma wp_conj:
  assumes "wp m Q E s" and "wp m Q' E' s"
  shows "wp m (\<lambda>x s'. Q x s' \<and> Q' x s') (\<lambda>e s'. E e s' \<and> E' e s') s"
  using assms by (auto simp: wp_def split: prod.splits sum.splits)

lemma wp_Inr: "wp m Q E s \<Longrightarrow> m s = (Inr x, s') \<Longrightarrow> Q x s'"
  by (simp add: wp_def)

lemma wp_Inl: "wp m Q E s \<Longrightarrow> m s = (Inl e, s') \<Longrightarrow> E e s'"
  by (simp add: wp_def)

lemma CHECK_eq_Inr:
  "CHECK m k s = (Inr y, t) \<longleftrightarrow> (\<exists>x s'. m s = (Inr x, s') \<and> k x s' = (Inr y, t))"
  by (auto simp: CHECK_def split: prod.splits sum.splits)

lemma CHECK_Inr: "m s = (Inr x, s') \<Longrightarrow> CHECK m k s = k x s'"
  by (simp add: CHECK_def)

lemma CHECK_Inl: "m s = (Inl e, s') \<Longrightarrow> CHECK m k s = (Inl e, s')"
  by (simp add: CHECK_def)

end
