(* ===== verification/Field_Types.thy ===== *)
theory Field_Types
  imports Prelude
begin

text \<open>
  The data model of a parsed transaction: \<open>src/src/xrp/fields.h\<close> (types, field codes, the
  \<open>field_t\<close> record), \<open>src/src/limitations.h\<close> and \<open>src/src/xrp/transaction_types.h\<close>.

  A field's type is a byte of the transaction or one of the app's own codes; the parser stores
  bytes that are no member of the enum too (and rejects them later), so the enum
  \<open>field_type_t\<close> is its \<open>u8\<close> codes. Only the codes the program uses are named.
\<close>

section \<open>Limits\<close>

abbreviation (input) MAX_BIP32_PATH :: nat where "MAX_BIP32_PATH \<equiv> 10"
abbreviation (input) MAX_ENC_INPUT_SIZE :: nat where "MAX_ENC_INPUT_SIZE \<equiv> 26"
abbreviation (input) MAX_FIELDNAME_LEN :: nat where "MAX_FIELDNAME_LEN \<equiv> 50"
abbreviation (input) MAX_ARRAY_LEN :: u8 where "MAX_ARRAY_LEN \<equiv> 8"
abbreviation (input) MAX_PATH_COUNT :: u8 where "MAX_PATH_COUNT \<equiv> 6"
abbreviation (input) MAX_STEP_COUNT :: u8 where "MAX_STEP_COUNT \<equiv> 8"
abbreviation (input) MAX_FIELD_COUNT :: nat where "MAX_FIELD_COUNT \<equiv> 60"
abbreviation (input) MAX_RAW_TX :: nat where "MAX_RAW_TX \<equiv> 10000"

text \<open>
  The length of a formatted value and the address layout depend on the device the app is built
  for; the model takes the target as an argument.
\<close>

datatype target = TARGET_NANOS | TARGET_OTHER

definition MAX_FIELD_LEN :: "target \<Rightarrow> nat" where
  "MAX_FIELD_LEN t = (case t of TARGET_NANOS \<Rightarrow> 128 | TARGET_OTHER \<Rightarrow> 1024)"

definition DISPLAY_SEGMENTED_ADDR :: "target \<Rightarrow> bool" where
  "DISPLAY_SEGMENTED_ADDR t = (case t of TARGET_NANOS \<Rightarrow> True | TARGET_OTHER \<Rightarrow> False)"

section \<open>Field and transaction codes\<close>

text \<open>The type codes (\<open>field_type_t\<close>), the last one the app's own.\<close>

abbreviation (input) STI_UINT16 :: u8 where "STI_UINT16 \<equiv> 0x01"
abbreviation (input) STI_UINT32 :: u8 where "STI_UINT32 \<equiv> 0x02"
abbreviation (input) STI_HASH128 :: u8 where "STI_HASH128 \<equiv> 0x04"
abbreviation (input) STI_HASH256 :: u8 where "STI_HASH256 \<equiv> 0x05"
abbreviation (input) STI_AMOUNT :: u8 where "STI_AMOUNT \<equiv> 0x06"
abbreviation (input) STI_VL :: u8 where "STI_VL \<equiv> 0x07"
abbreviation (input) STI_ACCOUNT :: u8 where "STI_ACCOUNT \<equiv> 0x08"
abbreviation (input) STI_OBJECT :: u8 where "STI_OBJECT \<equiv> 0x0E"
abbreviation (input) STI_ARRAY :: u8 where "STI_ARRAY \<equiv> 0x0F"
abbreviation (input) STI_UINT8 :: u8 where "STI_UINT8 \<equiv> 0x10"
abbreviation (input) STI_PATHSET :: u8 where "STI_PATHSET \<equiv> 0x12"
abbreviation (input) STI_VECTOR256 :: u8 where "STI_VECTOR256 \<equiv> 0x13"
abbreviation (input) STI_ISSUE :: u8 where "STI_ISSUE \<equiv> 0x18"
abbreviation (input) STI_CURRENCY :: u8 where "STI_CURRENCY \<equiv> 0xF0"

text \<open>The field ids the code names.\<close>

abbreviation (input) XRP_UINT16_TRANSACTION_TYPE :: u8 where "XRP_UINT16_TRANSACTION_TYPE \<equiv> 0x02"
abbreviation (input) XRP_UINT32_FLAGS :: u8 where "XRP_UINT32_FLAGS \<equiv> 0x02"
abbreviation (input) XRP_UINT32_SEQUENCE :: u8 where "XRP_UINT32_SEQUENCE \<equiv> 0x04"
abbreviation (input) XRP_UINT32_EXPIRATION :: u8 where "XRP_UINT32_EXPIRATION \<equiv> 0x0A"
abbreviation (input) XRP_UINT32_TRANSFER_RATE :: u8 where "XRP_UINT32_TRANSFER_RATE \<equiv> 0x0B"
abbreviation (input) XRP_UINT32_QUALITY_IN :: u8 where "XRP_UINT32_QUALITY_IN \<equiv> 0x14"
abbreviation (input) XRP_UINT32_QUALITY_OUT :: u8 where "XRP_UINT32_QUALITY_OUT \<equiv> 0x15"
abbreviation (input) XRP_UINT32_LAST_LEDGER_SEQUENCE :: u8 where "XRP_UINT32_LAST_LEDGER_SEQUENCE \<equiv> 0x1B"
abbreviation (input) XRP_UINT32_SET_FLAG :: u8 where "XRP_UINT32_SET_FLAG \<equiv> 0x21"
abbreviation (input) XRP_UINT32_CLEAR_FLAG :: u8 where "XRP_UINT32_CLEAR_FLAG \<equiv> 0x22"
abbreviation (input) XRP_UINT32_CANCEL_AFTER :: u8 where "XRP_UINT32_CANCEL_AFTER \<equiv> 0x24"
abbreviation (input) XRP_UINT32_FINISH_AFTER :: u8 where "XRP_UINT32_FINISH_AFTER \<equiv> 0x25"
abbreviation (input) XRP_UINT32_SETTLE_DELAY :: u8 where "XRP_UINT32_SETTLE_DELAY \<equiv> 0x27"
abbreviation (input) XRP_HASH256_NFTOKEN_OFFER :: u8 where "XRP_HASH256_NFTOKEN_OFFER \<equiv> 0xFE"
abbreviation (input) XRP_UINT64_AMOUNT :: u8 where "XRP_UINT64_AMOUNT \<equiv> 0x01"
abbreviation (input) XRP_UINT64_FEE :: u8 where "XRP_UINT64_FEE \<equiv> 0x08"
abbreviation (input) XRP_VL_SIGNING_PUB_KEY :: u8 where "XRP_VL_SIGNING_PUB_KEY \<equiv> 0x03"
abbreviation (input) XRP_VL_URI :: u8 where "XRP_VL_URI \<equiv> 0x05"
abbreviation (input) XRP_VL_DOMAIN :: u8 where "XRP_VL_DOMAIN \<equiv> 0x07"
abbreviation (input) XRP_VL_MEMO_TYPE :: u8 where "XRP_VL_MEMO_TYPE \<equiv> 0x0C"
abbreviation (input) XRP_VL_MEMO_DATA :: u8 where "XRP_VL_MEMO_DATA \<equiv> 0x0D"
abbreviation (input) XRP_VL_MEMO_FORMAT :: u8 where "XRP_VL_MEMO_FORMAT \<equiv> 0x0E"
abbreviation (input) XRP_ACCOUNT_ACCOUNT :: u8 where "XRP_ACCOUNT_ACCOUNT \<equiv> 0x01"
abbreviation (input) XRP_ACCOUNT_DESTINATION :: u8 where "XRP_ACCOUNT_DESTINATION \<equiv> 0x03"
abbreviation (input) XRP_ACCOUNT_ISSUER :: u8 where "XRP_ACCOUNT_ISSUER \<equiv> 0x04"
abbreviation (input) XRP_ACCOUNT_REGULAR_KEY :: u8 where "XRP_ACCOUNT_REGULAR_KEY \<equiv> 0x08"
abbreviation (input) XRP_CURRENCY_CURRENCY :: u8 where "XRP_CURRENCY_CURRENCY \<equiv> 0x01"
abbreviation (input) ARRAY_PATHSET :: u8 where "ARRAY_PATHSET \<equiv> 0x01"
abbreviation (input) ARRAY_NONE :: u8 where "ARRAY_NONE \<equiv> 0x00"
abbreviation (input) PATHSET_NEXT :: u8 where "PATHSET_NEXT \<equiv> 0xFF"
abbreviation (input) PATHSET_END :: u8 where "PATHSET_END \<equiv> 0x00"

abbreviation (input) XRP_ACCOUNT_SIZE :: nat where "XRP_ACCOUNT_SIZE \<equiv> 20"
abbreviation (input) XRP_CURRENCY_SIZE :: nat where "XRP_CURRENCY_SIZE \<equiv> 20"
abbreviation (input) XRP_VECTOR256_SIZE :: nat where "XRP_VECTOR256_SIZE \<equiv> 32"
abbreviation (input) XRP_ISSUE_SIZE :: nat where "XRP_ISSUE_SIZE \<equiv> 40"

text \<open>End markers of arrays and objects (\<open>array.h\<close>).\<close>

abbreviation (input) ARR_END :: u8 where "ARR_END \<equiv> 1"
abbreviation (input) OBJ_END :: u8 where "OBJ_END \<equiv> 1"

text \<open>Transaction types.\<close>

abbreviation (input) TRANSACTION_INVALID :: u16 where "TRANSACTION_INVALID \<equiv> 0xFFFF"
abbreviation (input) TRANSACTION_PAYMENT :: u16 where "TRANSACTION_PAYMENT \<equiv> 0"
abbreviation (input) TRANSACTION_ESCROW_CREATE :: u16 where "TRANSACTION_ESCROW_CREATE \<equiv> 1"
abbreviation (input) TRANSACTION_ESCROW_FINISH :: u16 where "TRANSACTION_ESCROW_FINISH \<equiv> 2"
abbreviation (input) TRANSACTION_ACCOUNT_SET :: u16 where "TRANSACTION_ACCOUNT_SET \<equiv> 3"
abbreviation (input) TRANSACTION_ESCROW_CANCEL :: u16 where "TRANSACTION_ESCROW_CANCEL \<equiv> 4"
abbreviation (input) TRANSACTION_SET_REGULAR_KEY :: u16 where "TRANSACTION_SET_REGULAR_KEY \<equiv> 5"
abbreviation (input) TRANSACTION_OFFER_CREATE :: u16 where "TRANSACTION_OFFER_CREATE \<equiv> 7"
abbreviation (input) TRANSACTION_OFFER_CANCEL :: u16 where "TRANSACTION_OFFER_CANCEL \<equiv> 8"
abbreviation (input) TRANSACTION_TICKET_CREATE :: u16 where "TRANSACTION_TICKET_CREATE \<equiv> 10"
abbreviation (input) TRANSACTION_TICKET_CANCEL :: u16 where "TRANSACTION_TICKET_CANCEL \<equiv> 11"
abbreviation (input) TRANSACTION_SIGNER_LIST_SET :: u16 where "TRANSACTION_SIGNER_LIST_SET \<equiv> 12"
abbreviation (input) TRANSACTION_PAYMENT_CHANNEL_CREATE :: u16 where "TRANSACTION_PAYMENT_CHANNEL_CREATE \<equiv> 13"
abbreviation (input) TRANSACTION_PAYMENT_CHANNEL_FUND :: u16 where "TRANSACTION_PAYMENT_CHANNEL_FUND \<equiv> 14"
abbreviation (input) TRANSACTION_PAYMENT_CHANNEL_CLAIM :: u16 where "TRANSACTION_PAYMENT_CHANNEL_CLAIM \<equiv> 15"
abbreviation (input) TRANSACTION_CHECK_CREATE :: u16 where "TRANSACTION_CHECK_CREATE \<equiv> 16"
abbreviation (input) TRANSACTION_CHECK_CASH :: u16 where "TRANSACTION_CHECK_CASH \<equiv> 17"
abbreviation (input) TRANSACTION_CHECK_CANCEL :: u16 where "TRANSACTION_CHECK_CANCEL \<equiv> 18"
abbreviation (input) TRANSACTION_DEPOSIT_PREAUTH :: u16 where "TRANSACTION_DEPOSIT_PREAUTH \<equiv> 19"
abbreviation (input) TRANSACTION_TRUST_SET :: u16 where "TRANSACTION_TRUST_SET \<equiv> 20"
abbreviation (input) TRANSACTION_ACCOUNT_DELETE :: u16 where "TRANSACTION_ACCOUNT_DELETE \<equiv> 21"
abbreviation (input) TRANSACTION_NFTOKEN_MINT :: u16 where "TRANSACTION_NFTOKEN_MINT \<equiv> 25"
abbreviation (input) TRANSACTION_NFTOKEN_BURN :: u16 where "TRANSACTION_NFTOKEN_BURN \<equiv> 26"
abbreviation (input) TRANSACTION_NFTOKEN_CREATE_OFFER :: u16 where "TRANSACTION_NFTOKEN_CREATE_OFFER \<equiv> 27"
abbreviation (input) TRANSACTION_NFTOKEN_CANCEL_OFFER :: u16 where "TRANSACTION_NFTOKEN_CANCEL_OFFER \<equiv> 28"
abbreviation (input) TRANSACTION_NFTOKEN_ACCEPT_OFFER :: u16 where "TRANSACTION_NFTOKEN_ACCEPT_OFFER \<equiv> 29"
abbreviation (input) TRANSACTION_CLAWBACK :: u16 where "TRANSACTION_CLAWBACK \<equiv> 30"
abbreviation (input) TRANSACTION_AMM_CREATE :: u16 where "TRANSACTION_AMM_CREATE \<equiv> 35"
abbreviation (input) TRANSACTION_AMM_DEPOSIT :: u16 where "TRANSACTION_AMM_DEPOSIT \<equiv> 36"
abbreviation (input) TRANSACTION_AMM_WITHDRAW :: u16 where "TRANSACTION_AMM_WITHDRAW \<equiv> 37"
abbreviation (input) TRANSACTION_AMM_VOTE :: u16 where "TRANSACTION_AMM_VOTE \<equiv> 38"
abbreviation (input) TRANSACTION_AMM_BID :: u16 where "TRANSACTION_AMM_BID \<equiv> 39"
abbreviation (input) TRANSACTION_AMM_DELETE :: u16 where "TRANSACTION_AMM_DELETE \<equiv> 40"

section \<open>Fields\<close>

record array_info_t =
  ai_type :: u8
  index1 :: u8
  index2 :: u8

text \<open>
  The union \<open>data\<close> of \<open>field_t\<close>. A pointer into the transaction is its index in the
  transaction's bytes. \<open>DZero\<close> is the all-zero union of a cleared slot: read as a pointer it is
  NULL, the special value the app gives an empty regular key.
\<close>

datatype field_data = DZero | DU8 u8 | DU16 u16 | DU32 u32 | DPtr nat

record field_t =
  fld_id :: u8
  data_type :: u8
  fld_length :: u16
  fdata :: field_data
  array_info :: array_info_t
  object_depth :: u8

definition zero_field :: field_t where
  "zero_field =
     \<lparr>fld_id = 0, data_type = 0, fld_length = 0, fdata = DZero,
      array_info = \<lparr>ai_type = 0, index1 = 0, index2 = 0\<rparr>, object_depth = 0\<rparr>"

text \<open>
  The members of the union. Reading a member other than the one last written has no meaning
  here, except on the all-zero union, where every member is zero.
\<close>

fun data_u8 :: "field_data \<Rightarrow> u8 option" where
  "data_u8 (DU8 v) = Some v"
| "data_u8 DZero = Some 0"
| "data_u8 _ = None"

fun data_u16 :: "field_data \<Rightarrow> u16 option" where
  "data_u16 (DU16 v) = Some v"
| "data_u16 DZero = Some 0"
| "data_u16 _ = None"

fun data_u32 :: "field_data \<Rightarrow> u32 option" where
  "data_u32 (DU32 v) = Some v"
| "data_u32 DZero = Some 0"
| "data_u32 _ = None"

fun data_ptr :: "field_data \<Rightarrow> nat option" where
  "data_ptr (DPtr p) = Some p"
| "data_ptr _ = None"

record parseResult_t =
  num_fields :: u8
  res_fields :: "field_t list"

text \<open>The fields in use: the first \<open>num_fields\<close> slots of the array.\<close>

definition used_fields :: "parseResult_t \<Rightarrow> field_t list" where
  "used_fields r = take (unat (num_fields r)) (res_fields r)"

definition is_transaction_type_field :: "field_t \<Rightarrow> bool" where
  "is_transaction_type_field field \<longleftrightarrow>
     data_type field = STI_UINT16 \<and> fld_id field = XRP_UINT16_TRANSACTION_TYPE"

lemma data_ptr_Some [simp]: "data_ptr d = Some p \<longleftrightarrow> d = DPtr p"
  by (cases d) auto

lemma set_used_fields: "set (used_fields r) \<subseteq> set (res_fields r)"
  by (simp add: used_fields_def set_take_subset)

lemma length_used_fields:
  "unat (num_fields r) \<le> length (res_fields r) \<Longrightarrow> length (used_fields r) = unat (num_fields r)"
  by (simp add: used_fields_def)

lemma used_fields_nth:
  "i < unat (num_fields r) \<Longrightarrow> unat (num_fields r) \<le> length (res_fields r) \<Longrightarrow>
   used_fields r ! i = res_fields r ! i"
  by (simp add: used_fields_def)

lemma in_used_fields:
  assumes "unat (num_fields r) \<le> length (res_fields r)"
  shows "f \<in> set (used_fields r) \<longleftrightarrow> (\<exists>i < unat (num_fields r). f = res_fields r ! i)"
  using assms by (auto simp: used_fields_def in_set_conv_nth)

end
