(* ===== verification/C_Strings.thy ===== *)
theory C_Strings
  imports Prelude
begin

text \<open>
  Character buffers and the routines of the C library the code calls on them: \<open>strlen\<close>,
  \<open>strncpy\<close>, \<open>memset\<close>, \<open>memcpy\<close>, \<open>memmove\<close> and \<open>snprintf\<close> with \<open>%u\<close> or \<open>%d\<close> of an
  unsigned value. A buffer is the list of all its characters; what a reader of the buffer
  sees is the string before its first zero byte, \<open>cstr\<close>.
\<close>

abbreviation (input) NUL :: char where "NUL \<equiv> CHR 0x00"

definition cstr :: "string \<Rightarrow> string" where
  "cstr buf = takeWhile (\<lambda>c. c \<noteq> NUL) buf"

definition strlen :: "string \<Rightarrow> nat option" where
  "strlen buf = (if NUL \<in> set buf then Some (length (cstr buf)) else None)"

text \<open>\<open>strncpy(dst + i, src, n)\<close>: at most \<open>n\<close> characters of \<open>src\<close>, padded with zeros to \<open>n\<close>.\<close>

definition strncpy :: "string \<Rightarrow> nat \<Rightarrow> string \<Rightarrow> nat \<Rightarrow> string option" where
  "strncpy buf i src n = poke buf i (take n src @ replicate (n - length src) NUL)"

definition memset :: "string \<Rightarrow> nat \<Rightarrow> char \<Rightarrow> nat \<Rightarrow> string option" where
  "memset buf i c n = poke buf i (replicate n c)"

text \<open>\<open>memmove(dst + i, dst + j, n)\<close> inside one buffer: the regions may overlap.\<close>

definition memmove :: "string \<Rightarrow> nat \<Rightarrow> nat \<Rightarrow> nat \<Rightarrow> string option" where
  "memmove buf i j n = Option.bind (peek buf j n) (poke buf i)"

text \<open>\<open>snprintf(dst + i, n, ...)\<close> with formatted text \<open>s\<close>: truncated to \<open>n - 1\<close> characters and
  terminated; nothing is written for \<open>n = 0\<close>.\<close>

definition snprintf :: "string \<Rightarrow> nat \<Rightarrow> nat \<Rightarrow> string \<Rightarrow> string option" where
  "snprintf buf i n s = (if n = 0 then Some buf else poke buf i (take (n - 1) s @ [NUL]))"

section \<open>Decimal text\<close>

definition digit_char :: "nat \<Rightarrow> char" where
  "digit_char d = char_of (48 + d)"

fun print_dec :: "nat \<Rightarrow> string" where
  "print_dec n = (if n < 10 then [digit_char n] else print_dec (n div 10) @ [digit_char (n mod 10)])"

declare print_dec.simps [simp del]

text \<open>\<open>%0wu\<close>: padded with zeros on the left to at least \<open>w\<close> digits.\<close>

definition print_dec_pad :: "nat \<Rightarrow> nat \<Rightarrow> string" where
  "print_dec_pad w n = replicate (w - length (print_dec n)) CHR ''0'' @ print_dec n"

text \<open>Reading a decimal text back: the specification side of the printers.\<close>

definition digit_val :: "char \<Rightarrow> nat" where
  "digit_val c = of_char c - 48"

definition dec_val :: "string \<Rightarrow> nat" where
  "dec_val s = foldl (\<lambda>n c. 10 * n + digit_val c) 0 s"

definition is_digit :: "char \<Rightarrow> bool" where
  "is_digit c \<longleftrightarrow> 48 \<le> (of_char c :: nat) \<and> (of_char c :: nat) \<le> 57"

lemma digit_chars:
  "digit_char 0 = CHR ''0''" "digit_char 1 = CHR ''1''" "digit_char (Suc 0) = CHR ''1''"
  "digit_char 2 = CHR ''2''" "digit_char 3 = CHR ''3''" "digit_char 4 = CHR ''4''"
  "digit_char 5 = CHR ''5''" "digit_char 6 = CHR ''6''" "digit_char 7 = CHR ''7''"
  "digit_char 8 = CHR ''8''" "digit_char 9 = CHR ''9''"
  by code_simp+

lemma of_char_digit_char: "d < 10 \<Longrightarrow> (of_char (digit_char d) :: nat) = 48 + d"
  by (simp add: digit_char_def)

lemma digit_val_char [simp]: "d < 10 \<Longrightarrow> digit_val (digit_char d) = d"
  by (simp add: digit_val_def of_char_digit_char)

lemma is_digit_char [simp]: "d < 10 \<Longrightarrow> is_digit (digit_char d)"
  by (simp add: is_digit_def of_char_digit_char)

lemma NUL_not_digit [simp]: "\<not> is_digit NUL"
  by (simp add: is_digit_def)

lemma foldl_dec_val:
  "foldl (\<lambda>n c. 10 * n + digit_val c) a s = a * 10 ^ length s + dec_val s"
proof (induction s arbitrary: a)
  case Nil
  show ?case by (simp add: dec_val_def)
next
  case (Cons c s)
  have "dec_val (c # s) = digit_val c * 10 ^ length s + dec_val s"
    using Cons.IH [of "digit_val c"] by (simp add: dec_val_def)
  then show ?case
    using Cons.IH [of "10 * a + digit_val c"] by (simp add: algebra_simps)
qed

lemma dec_val_Nil [simp]: "dec_val [] = 0"
  by (simp add: dec_val_def)

lemma dec_val_append: "dec_val (s @ t) = dec_val s * 10 ^ length t + dec_val t"
  using foldl_dec_val [of "dec_val s" t] by (simp add: dec_val_def)

lemma dec_val_Cons [simp]: "dec_val (c # s) = digit_val c * 10 ^ length s + dec_val s"
  using dec_val_append [of "[c]" s] by (simp add: dec_val_def)

lemma dec_val_zeros [simp]: "dec_val (replicate n CHR ''0'') = 0"
  by (induction n) (simp_all add: digit_val_def)

lemma dec_val_print_dec [simp]: "dec_val (print_dec n) = n"
proof (induction n rule: print_dec.induct)
  case (1 n)
  show ?case
  proof (cases "n < 10")
    case True
    then show ?thesis by (simp add: print_dec.simps [of n])
  next
    case False
    with 1 show ?thesis
      by (simp add: print_dec.simps [of n] dec_val_append)
  qed
qed

lemma print_dec_digits: "c \<in> set (print_dec n) \<Longrightarrow> is_digit c"
proof (induction n rule: print_dec.induct)
  case (1 n)
  then show ?case
    by (cases "n < 10") (auto simp: print_dec.simps [of n])
qed

lemma NUL_notin_print_dec [simp]: "NUL \<notin> set (print_dec n)"
  using print_dec_digits by fastforce

lemma print_dec_nonempty [simp]: "print_dec n \<noteq> []"
  by (subst print_dec.simps) simp

lemma length_print_dec: "n < 10 ^ k \<Longrightarrow> 0 < k \<Longrightarrow> length (print_dec n) \<le> k"
proof (induction n arbitrary: k rule: print_dec.induct)
  case (1 n)
  show ?case
  proof (cases "n < 10")
    case True
    with "1.prems" show ?thesis by (simp add: print_dec.simps [of n])
  next
    case False
    with "1.prems" have "k \<noteq> 1" by auto
    with "1.prems"(2) obtain k' where k: "k = Suc k'" and "0 < k'"
      by (cases k) simp_all
    with "1.prems" have "n div 10 < 10 ^ k'" by (simp add: div_less_iff_less_mult mult.commute)
    with "1.IH" False \<open>0 < k'\<close> have "length (print_dec (n div 10)) \<le> k'" by simp
    with False k show ?thesis by (simp add: print_dec.simps [of n])
  qed
qed

section \<open>Strings in buffers\<close>

text \<open>A buffer of length \<open>n\<close> that holds \<open>s\<close> and is zero after it, the state every formatter
  starts from (with \<open>s\<close> empty) and most leave.\<close>

definition padded :: "nat \<Rightarrow> string \<Rightarrow> string" where
  "padded n s = s @ replicate (n - length s) NUL"

lemma length_padded [simp]: "length s \<le> n \<Longrightarrow> length (padded n s) = n"
  by (simp add: padded_def)

lemma cstr_append_NUL [simp]: "NUL \<notin> set s \<Longrightarrow> cstr (s @ NUL # t) = s"
  by (induction s) (auto simp: cstr_def)

lemma cstr_no_NUL: "NUL \<notin> set s \<Longrightarrow> cstr s = s"
  unfolding cstr_def takeWhile_eq_all_conv by blast

lemma cstr_padded [simp]: "NUL \<notin> set s \<Longrightarrow> cstr (padded n s) = s"
proof (cases "n - length s")
  case 0
  then show "NUL \<notin> set s \<Longrightarrow> ?thesis" by (simp add: padded_def cstr_no_NUL)
next
  case (Suc k)
  then show "NUL \<notin> set s \<Longrightarrow> ?thesis" by (simp add: padded_def)
qed

lemma NUL_notin_cstr [simp]: "NUL \<notin> set (cstr buf)"
  by (auto simp: cstr_def dest: set_takeWhileD)

lemma strlen_padded [simp]:
  "NUL \<notin> set s \<Longrightarrow> length s < n \<Longrightarrow> strlen (padded n s) = Some (length s)"
  by (simp add: strlen_def) (simp add: padded_def)

lemma strncpy_padded:
  assumes "length s + length t \<le> n"
  shows "strncpy (padded n s) (length s) t (n - length s) = Some (padded n (s @ t))"
  using assms by (simp add: strncpy_def poke_def padded_def)

lemma strncpy_whole:
  assumes "length buf = n"
  shows "strncpy buf 0 t n = Some (take n (padded n t))"
  using assms by (simp add: strncpy_def poke_def padded_def)

lemma strncpy_whole_fits:
  assumes "length buf = n" and "length t \<le> n"
  shows "strncpy buf 0 t n = Some (padded n t)"
  using assms by (simp add: strncpy_def poke_def padded_def)

lemma snprintf_padded:
  assumes "length s + length t < n"
  shows "snprintf (padded n s) (length s) (n - length s) t = Some (padded n (s @ t))"
proof -
  from assms obtain m where n: "n = length s + length t + Suc m"
    by (metis add_Suc_right less_iff_Suc_add)
  show ?thesis
    unfolding n by (simp add: snprintf_def poke_def padded_def replicate_add)
qed

end
