(* ===== verification/Flags.thy ===== *)
theory Flags
  imports Field_Types C_Strings
begin

text \<open>
  \<open>src/src/xrp/flags.c\<close>: how the flag bits of a transaction are shown, and which bits force
  blind signing because no formatter knows them. The straight-line formatters, one
  \<open>if (HAS_FLAG(...)) append_item(...)\<close> per bit, are tables of (bit, label) that
  \<open>append_flags\<close> walks in the order of the code. The locale \<open>flag_table\<close> states what makes
  such a table and its \<open>KNOWN_FLAGS\<close> mask agree; every formatter is an interpretation of it.
\<close>

section \<open>Appending labels\<close>

text \<open>The transaction flag bits, in the order of the file.\<close>

abbreviation (input) TF_FULLY_CANONICAL_SIG :: u32 where "TF_FULLY_CANONICAL_SIG \<equiv> 0x80000000"
abbreviation (input) TF_REQUIRE_DEST_TAG :: u32 where "TF_REQUIRE_DEST_TAG \<equiv> 0x00010000"
abbreviation (input) TF_OPTIONAL_DEST_TAG :: u32 where "TF_OPTIONAL_DEST_TAG \<equiv> 0x00020000"
abbreviation (input) TF_REQUIRE_AUTH :: u32 where "TF_REQUIRE_AUTH \<equiv> 0x00040000"
abbreviation (input) TF_OPTIONAL_AUTH :: u32 where "TF_OPTIONAL_AUTH \<equiv> 0x00080000"
abbreviation (input) TF_DISALLOW_XRP :: u32 where "TF_DISALLOW_XRP \<equiv> 0x00100000"
abbreviation (input) TF_ALLOW_XRP :: u32 where "TF_ALLOW_XRP \<equiv> 0x00200000"
abbreviation (input) TF_PASSIVE :: u32 where "TF_PASSIVE \<equiv> 0x00010000"
abbreviation (input) TF_IMMEDIATE_OR_CANCEL :: u32 where "TF_IMMEDIATE_OR_CANCEL \<equiv> 0x00020000"
abbreviation (input) TF_FILL_OR_KILL :: u32 where "TF_FILL_OR_KILL \<equiv> 0x00040000"
abbreviation (input) TF_SELL :: u32 where "TF_SELL \<equiv> 0x00080000"
abbreviation (input) TF_NO_RIPPLE_DIRECT :: u32 where "TF_NO_RIPPLE_DIRECT \<equiv> 0x00010000"
abbreviation (input) TF_PARTIAL_PAYMENT :: u32 where "TF_PARTIAL_PAYMENT \<equiv> 0x00020000"
abbreviation (input) TF_LIMIT_QUALITY :: u32 where "TF_LIMIT_QUALITY \<equiv> 0x00040000"
abbreviation (input) TF_SETF_AUTH :: u32 where "TF_SETF_AUTH \<equiv> 0x00010000"
abbreviation (input) TF_SET_NO_RIPPLE :: u32 where "TF_SET_NO_RIPPLE \<equiv> 0x00020000"
abbreviation (input) TF_CLEAR_NO_RIPPLE :: u32 where "TF_CLEAR_NO_RIPPLE \<equiv> 0x00040000"
abbreviation (input) TF_SET_FREEZE :: u32 where "TF_SET_FREEZE \<equiv> 0x00100000"
abbreviation (input) TF_CLEAR_FREEZE :: u32 where "TF_CLEAR_FREEZE \<equiv> 0x00200000"
abbreviation (input) TF_RENEW :: u32 where "TF_RENEW \<equiv> 0x00010000"
abbreviation (input) TF_CLOSE :: u32 where "TF_CLOSE \<equiv> 0x00020000"
abbreviation (input) TF_BURNABLE :: u32 where "TF_BURNABLE \<equiv> 0x00000001"
abbreviation (input) TF_ONLY_XRP :: u32 where "TF_ONLY_XRP \<equiv> 0x00000002"
abbreviation (input) TF_TRANSFERABLE :: u32 where "TF_TRANSFERABLE \<equiv> 0x00000008"
abbreviation (input) TF_MUTABLE :: u32 where "TF_MUTABLE \<equiv> 0x00000010"
abbreviation (input) TF_SELL_NFTOKEN :: u32 where "TF_SELL_NFTOKEN \<equiv> 0x00000001"
abbreviation (input) TF_LP_TOKEN :: u32 where "TF_LP_TOKEN \<equiv> 0x00010000"
abbreviation (input) TF_WITHDRAW_ALL :: u32 where "TF_WITHDRAW_ALL \<equiv> 0x00020000"
abbreviation (input) TF_ONE_ASSET_WITHDRAW_ALL :: u32 where "TF_ONE_ASSET_WITHDRAW_ALL \<equiv> 0x00040000"
abbreviation (input) TF_SINGLE_ASSET :: u32 where "TF_SINGLE_ASSET \<equiv> 0x00080000"
abbreviation (input) TF_TWO_ASSET :: u32 where "TF_TWO_ASSET \<equiv> 0x00100000"
abbreviation (input) TF_ONE_ASSET_LP_TOKEN :: u32 where "TF_ONE_ASSET_LP_TOKEN \<equiv> 0x00200000"
abbreviation (input) TF_LIMIT_LP_TOKEN :: u32 where "TF_LIMIT_LP_TOKEN \<equiv> 0x00400000"
abbreviation (input) TF_TWO_ASSET_IF_EMPTY :: u32 where "TF_TWO_ASSET_IF_EMPTY \<equiv> 0x00800000"

definition HAS_FLAG :: "u32 \<Rightarrow> u32 \<Rightarrow> bool" where
  "HAS_FLAG value flag \<longleftrightarrow> value AND flag = flag"

definition is_flag :: "field_t \<Rightarrow> bool" where
  "is_flag field \<longleftrightarrow>
     data_type field = STI_UINT32 \<and>
     (fld_id field = XRP_UINT32_FLAGS \<or> fld_id field = XRP_UINT32_SET_FLAG \<or>
      fld_id field = XRP_UINT32_CLEAR_FLAG)"

definition is_flag_hidden :: "field_t \<Rightarrow> bool" where
  "is_flag_hidden field \<longleftrightarrow>
     is_flag field \<and>
     (data_u32 (fdata field) = Some 0 \<or> data_u32 (fdata field) = Some TF_FULLY_CANONICAL_SIG)"

definition set_error_value :: "string \<Rightarrow> (nat \<times> string) option" where
  "set_error_value out =
     map_option (\<lambda>out'. (length out', out'))
       (strncpy out 0 ''[ERROR: FAILED TO APPEND ITEM]'' (length out))"

text \<open>\<open>sizeof(out->buf)\<close> is the length of the buffer.\<close>

definition append_item :: "string \<Rightarrow> nat \<Rightarrow> string \<Rightarrow> (nat \<times> string) option" where
  "append_item out offset item =
     (if offset \<noteq> 0 \<and> length out - offset < 3 then set_error_value out
      else Option.bind
        (if offset \<noteq> 0 then poke out offset ('', '' @ [NUL]) else Some out)
        (\<lambda>out'. let offset' = (if offset \<noteq> 0 then offset + 2 else offset) in
           if length item \<ge> length out' - offset' then set_error_value out'
           else map_option (\<lambda>out''. (offset' + length item, out''))
                  (strncpy out' offset' item (length out' - offset'))))"

fun append_flags ::
  "u32 \<Rightarrow> (u32 \<times> string) list \<Rightarrow> nat \<Rightarrow> string \<Rightarrow> (nat \<times> string) option" where
  "append_flags value [] offset dst = Some (offset, dst)"
| "append_flags value ((flag, item) # items) offset dst =
     (if HAS_FLAG value flag
      then Option.bind (append_item dst offset item)
             (\<lambda>(offset', dst'). append_flags value items offset' dst')
      else append_flags value items offset dst)"

section \<open>The formatters\<close>

definition account_set_transaction_flags_items :: "(u32 \<times> string) list" where
  "account_set_transaction_flags_items =
    [(TF_REQUIRE_DEST_TAG, ''Require Dest Tag''),
     (TF_OPTIONAL_DEST_TAG, ''Optional Dest Tag''),
     (TF_REQUIRE_AUTH, ''Require Auth''),
     (TF_OPTIONAL_AUTH, ''Optional Auth''),
     (TF_DISALLOW_XRP, ''Disallow XRP''),
     (TF_ALLOW_XRP, ''Allow XRP'')]"

definition format_account_set_transaction_flags :: "u32 \<Rightarrow> string \<Rightarrow> string option" where
  "format_account_set_transaction_flags value dst =
     map_option snd (append_flags value account_set_transaction_flags_items 0 dst)"

definition offer_create_flags_items :: "(u32 \<times> string) list" where
  "offer_create_flags_items =
    [(TF_PASSIVE, ''Passive''),
     (TF_IMMEDIATE_OR_CANCEL, ''Immediate or Cancel''),
     (TF_FILL_OR_KILL, ''Fill or Kill''),
     (TF_SELL, ''Sell'')]"

definition format_offer_create_flags :: "u32 \<Rightarrow> string \<Rightarrow> string option" where
  "format_offer_create_flags value dst =
     map_option snd (append_flags value offer_create_flags_items 0 dst)"

definition payment_flags_items :: "(u32 \<times> string) list" where
  "payment_flags_items =
    [(TF_NO_RIPPLE_DIRECT, ''No Direct Ripple''),
     (TF_PARTIAL_PAYMENT, ''Partial Payment''),
     (TF_LIMIT_QUALITY, ''Limit Quality'')]"

definition format_payment_flags :: "u32 \<Rightarrow> string \<Rightarrow> string option" where
  "format_payment_flags value dst =
     map_option snd (append_flags value payment_flags_items 0 dst)"

definition trust_set_flags_items :: "(u32 \<times> string) list" where
  "trust_set_flags_items =
    [(TF_SETF_AUTH, ''Set Auth''),
     (TF_SET_NO_RIPPLE, ''Set No Ripple''),
     (TF_CLEAR_NO_RIPPLE, ''Clear No Ripple''),
     (TF_SET_FREEZE, ''Set Freeze''),
     (TF_CLEAR_FREEZE, ''Clear Freeze'')]"

definition format_trust_set_flags :: "u32 \<Rightarrow> string \<Rightarrow> string option" where
  "format_trust_set_flags value dst =
     map_option snd (append_flags value trust_set_flags_items 0 dst)"

definition payment_channel_claim_flags_items :: "(u32 \<times> string) list" where
  "payment_channel_claim_flags_items =
    [(TF_RENEW, ''Renew''),
     (TF_CLOSE, ''Close'')]"

definition format_payment_channel_claim_flags :: "u32 \<Rightarrow> string \<Rightarrow> string option" where
  "format_payment_channel_claim_flags value dst =
     map_option snd (append_flags value payment_channel_claim_flags_items 0 dst)"

definition nftoken_mint_flags_items :: "(u32 \<times> string) list" where
  "nftoken_mint_flags_items =
    [(TF_BURNABLE, ''Burnable''),
     (TF_ONLY_XRP, ''Only XRP''),
     (TF_TRANSFERABLE, ''Transferable''),
     (TF_MUTABLE, ''Mutable'')]"

definition format_nftoken_mint_flags :: "u32 \<Rightarrow> string \<Rightarrow> string option" where
  "format_nftoken_mint_flags value dst =
     map_option snd (append_flags value nftoken_mint_flags_items 0 dst)"

definition nftoken_create_offer_flags_items :: "(u32 \<times> string) list" where
  "nftoken_create_offer_flags_items =
    [(TF_SELL_NFTOKEN, ''Sell'')]"

definition format_nftoken_create_offer_flags :: "u32 \<Rightarrow> string \<Rightarrow> string option" where
  "format_nftoken_create_offer_flags value dst =
     map_option snd (append_flags value nftoken_create_offer_flags_items 0 dst)"

definition amm_deposit_flags_items :: "(u32 \<times> string) list" where
  "amm_deposit_flags_items =
    [(TF_LP_TOKEN, ''LP Token''),
     (TF_SINGLE_ASSET, ''Single Asset''),
     (TF_TWO_ASSET, ''Two Asset''),
     (TF_ONE_ASSET_LP_TOKEN, ''One Asset LP Token''),
     (TF_LIMIT_LP_TOKEN, ''Limit LP Token''),
     (TF_TWO_ASSET_IF_EMPTY, ''Two Asset If Empty'')]"

definition format_amm_deposit_flags :: "u32 \<Rightarrow> string \<Rightarrow> string option" where
  "format_amm_deposit_flags value dst =
     map_option snd (append_flags value amm_deposit_flags_items 0 dst)"

definition amm_withdraw_flags_items :: "(u32 \<times> string) list" where
  "amm_withdraw_flags_items =
    [(TF_LP_TOKEN, ''LP Token''),
     (TF_SINGLE_ASSET, ''Single Asset''),
     (TF_TWO_ASSET, ''Two Asset''),
     (TF_ONE_ASSET_LP_TOKEN, ''One Asset LP Token''),
     (TF_LIMIT_LP_TOKEN, ''Limit LP Token''),
     (TF_WITHDRAW_ALL, ''Withdraw All''),
     (TF_ONE_ASSET_WITHDRAW_ALL, ''One Asset Withdraw All'')]"

definition format_amm_withdraw_flags :: "u32 \<Rightarrow> string \<Rightarrow> string option" where
  "format_amm_withdraw_flags value dst =
     map_option snd (append_flags value amm_withdraw_flags_items 0 dst)"

definition account_set_field_flag_names :: "(u32 \<times> string) list" where
  "account_set_field_flag_names =
    [(1, ''Require Dest''),
     (2, ''Require Auth''),
     (3, ''Disallow XRP''),
     (4, ''Disable Master''),
     (5, ''Track Txn ID''),
     (6, ''No Freeze''),
     (7, ''Global Freeze''),
     (8, ''Default Ripple''),
     (9, ''Deposit Auth''),
     (10, ''Auth NFToken Minter''),
     (12, ''Disallow NFToken Offer''),
     (13, ''Disallow Check''),
     (14, ''Disallow PayChan''),
     (15, ''Disallow Trustline''),
     (16, ''Allow Clawback'')]"

definition format_account_set_field_flags :: "u32 \<Rightarrow> string option" where
  "format_account_set_field_flags value = map_of account_set_field_flag_names value"

definition format_account_set_flags :: "field_t \<Rightarrow> u32 \<Rightarrow> string \<Rightarrow> string option" where
  "format_account_set_flags field value dst =
     (if fld_id field = XRP_UINT32_FLAGS then format_account_set_transaction_flags value dst
      else (case format_account_set_field_flags value of
              Some flag \<Rightarrow> strncpy dst 0 flag (length dst)
            | None \<Rightarrow> snprintf dst 0 (length dst) (''Unknown flag: '' @ print_dec (unat value))))"

text \<open>
  \<open>format_flags\<close> reads the transaction type of the global parse context, here an argument.
  The flags field's value is \<open>None\<close> if the union does not hold a \<open>uint32_t\<close>.
\<close>

definition format_flags :: "u16 \<Rightarrow> field_t \<Rightarrow> string \<Rightarrow> string option" where
  "format_flags tx field dst =
     Option.bind (data_u32 (fdata field)) (\<lambda>value.
       if tx \<notin> {TRANSACTION_ACCOUNT_SET, TRANSACTION_OFFER_CREATE, TRANSACTION_PAYMENT,
                 TRANSACTION_TRUST_SET, TRANSACTION_PAYMENT_CHANNEL_CLAIM,
                 TRANSACTION_NFTOKEN_MINT, TRANSACTION_NFTOKEN_CREATE_OFFER,
                 TRANSACTION_AMM_DEPOSIT, TRANSACTION_AMM_WITHDRAW}
       then snprintf dst 0 (length dst) (''No flags for transaction type '' @ print_dec (unat tx))
       else Option.bind
         (if tx = TRANSACTION_ACCOUNT_SET then format_account_set_flags field value dst
          else if tx = TRANSACTION_OFFER_CREATE then format_offer_create_flags value dst
          else if tx = TRANSACTION_PAYMENT then format_payment_flags value dst
          else if tx = TRANSACTION_TRUST_SET then format_trust_set_flags value dst
          else if tx = TRANSACTION_PAYMENT_CHANNEL_CLAIM
               then format_payment_channel_claim_flags value dst
          else if tx = TRANSACTION_NFTOKEN_MINT then format_nftoken_mint_flags value dst
          else if tx = TRANSACTION_NFTOKEN_CREATE_OFFER
               then format_nftoken_create_offer_flags value dst
          else if tx = TRANSACTION_AMM_DEPOSIT then format_amm_deposit_flags value dst
          else format_amm_withdraw_flags value dst)
         (\<lambda>dst'. Option.bind (peek dst' 0 1) (\<lambda>c.
            if c = [NUL] then strncpy dst' 0 ''Unsupported value'' (length dst')
            else Some dst')))"

section \<open>The known bits\<close>

definition ACCOUNT_SET_KNOWN_FLAGS :: u32 where
  "ACCOUNT_SET_KNOWN_FLAGS = TF_REQUIRE_DEST_TAG OR TF_OPTIONAL_DEST_TAG OR TF_REQUIRE_AUTH OR
     TF_OPTIONAL_AUTH OR TF_DISALLOW_XRP OR TF_ALLOW_XRP"

definition OFFER_CREATE_KNOWN_FLAGS :: u32 where
  "OFFER_CREATE_KNOWN_FLAGS = TF_PASSIVE OR TF_IMMEDIATE_OR_CANCEL OR TF_FILL_OR_KILL OR TF_SELL"

definition PAYMENT_KNOWN_FLAGS :: u32 where
  "PAYMENT_KNOWN_FLAGS = TF_NO_RIPPLE_DIRECT OR TF_PARTIAL_PAYMENT OR TF_LIMIT_QUALITY"

definition TRUST_SET_KNOWN_FLAGS :: u32 where
  "TRUST_SET_KNOWN_FLAGS = TF_SETF_AUTH OR TF_SET_NO_RIPPLE OR TF_CLEAR_NO_RIPPLE OR
     TF_SET_FREEZE OR TF_CLEAR_FREEZE"

definition PAYMENT_CHANNEL_CLAIM_KNOWN_FLAGS :: u32 where
  "PAYMENT_CHANNEL_CLAIM_KNOWN_FLAGS = TF_RENEW OR TF_CLOSE"

definition NFTOKEN_MINT_KNOWN_FLAGS :: u32 where
  "NFTOKEN_MINT_KNOWN_FLAGS = TF_BURNABLE OR TF_ONLY_XRP OR TF_TRANSFERABLE OR TF_MUTABLE"

definition NFTOKEN_CREATE_OFFER_KNOWN_FLAGS :: u32 where
  "NFTOKEN_CREATE_OFFER_KNOWN_FLAGS = TF_SELL_NFTOKEN"

definition AMM_DEPOSIT_KNOWN_FLAGS :: u32 where
  "AMM_DEPOSIT_KNOWN_FLAGS = TF_LP_TOKEN OR TF_SINGLE_ASSET OR TF_TWO_ASSET OR
     TF_ONE_ASSET_LP_TOKEN OR TF_LIMIT_LP_TOKEN OR TF_TWO_ASSET_IF_EMPTY"

definition AMM_WITHDRAW_KNOWN_FLAGS :: u32 where
  "AMM_WITHDRAW_KNOWN_FLAGS = TF_LP_TOKEN OR TF_SINGLE_ASSET OR TF_TWO_ASSET OR
     TF_ONE_ASSET_LP_TOKEN OR TF_LIMIT_LP_TOKEN OR TF_WITHDRAW_ALL OR TF_ONE_ASSET_WITHDRAW_ALL"

definition has_unknown_flags :: "u16 \<Rightarrow> u32 \<Rightarrow> bool" where
  "has_unknown_flags tx value =
     (let unknown = (\<lambda>mask. value AND NOT (TF_FULLY_CANONICAL_SIG OR mask) \<noteq> 0) in
      if tx = TRANSACTION_ACCOUNT_SET then unknown ACCOUNT_SET_KNOWN_FLAGS
      else if tx = TRANSACTION_OFFER_CREATE then unknown OFFER_CREATE_KNOWN_FLAGS
      else if tx = TRANSACTION_PAYMENT then unknown PAYMENT_KNOWN_FLAGS
      else if tx = TRANSACTION_TRUST_SET then unknown TRUST_SET_KNOWN_FLAGS
      else if tx = TRANSACTION_PAYMENT_CHANNEL_CLAIM then unknown PAYMENT_CHANNEL_CLAIM_KNOWN_FLAGS
      else if tx = TRANSACTION_NFTOKEN_MINT then unknown NFTOKEN_MINT_KNOWN_FLAGS
      else if tx = TRANSACTION_NFTOKEN_CREATE_OFFER then unknown NFTOKEN_CREATE_OFFER_KNOWN_FLAGS
      else if tx = TRANSACTION_AMM_DEPOSIT then unknown AMM_DEPOSIT_KNOWN_FLAGS
      else if tx = TRANSACTION_AMM_WITHDRAW then unknown AMM_WITHDRAW_KNOWN_FLAGS
      else False)"

section \<open>What a table of bits and labels shows\<close>

text \<open>The labels of the bits that are set, in the table's order, separated by commas.\<close>

definition set_labels :: "u32 \<Rightarrow> (u32 \<times> string) list \<Rightarrow> string list" where
  "set_labels v items = map snd (filter (\<lambda>(flag, _). HAS_FLAG v flag) items)"

definition sep_label :: "string \<Rightarrow> string" where
  "sep_label l = '', '' @ l"

fun join_labels :: "string list \<Rightarrow> string" where
  "join_labels [] = []"
| "join_labels (l # ls) = l @ concat (map sep_label ls)"

definition add_label :: "string \<Rightarrow> string \<Rightarrow> string" where
  "add_label s l = (if s = [] then l else s @ sep_label l)"

definition single_bit :: "u32 \<Rightarrow> bool" where
  "single_bit m \<longleftrightarrow> list_ex (\<lambda>k. m = 2 ^ k) [0..<32]"

lemma poke_padded:
  assumes "length s + length t \<le> n"
  shows "poke (padded n s) (length s) t = Some (padded n (s @ t))"
  using assms by (simp add: poke_def padded_def)

lemma padded_snoc_NUL: "length s < n \<Longrightarrow> padded n (s @ [NUL]) = padded n s"
  by (simp add: padded_def flip: replicate_Suc)

lemma append_item_padded:
  assumes "length s + length item + 2 < n"
  shows "append_item (padded n s) (length s) item =
           Some (length (add_label s item), padded n (add_label s item))"
proof (cases "s = []")
  case True
  with assms strncpy_padded [of "[]" item n] show ?thesis
    by (simp add: append_item_def add_label_def)
next
  case False
  have "poke (padded n s) (length s) ('', '' @ [NUL]) = Some (padded n ((s @ '', '') @ [NUL]))"
    using assms poke_padded [of s "'', '' @ [NUL]" n] by simp
  also have "padded n ((s @ '', '') @ [NUL]) = padded n (s @ '', '')"
    using assms by (intro padded_snoc_NUL) simp
  finally have p: "poke (padded n s) (length s) ('', '' @ [NUL]) = Some (padded n (s @ '', ''))" .
  have "\<not> n - length s < 3" and "\<not> n - (length s + 2) \<le> length item"
    using assms by linarith+
  moreover have "strncpy (padded n (s @ '', '')) (length s + 2) item (n - (length s + 2)) =
      Some (padded n (s @ '', '' @ item))"
    using strncpy_padded [of "s @ '', ''" item n] assms by simp
  ultimately show ?thesis
    using assms False p by (simp add: append_item_def add_label_def sep_label_def Let_def)
qed

lemma length_add_label: "length (add_label s l) \<le> length s + length l + 2"
  by (simp add: add_label_def sep_label_def)

lemma append_flags_padded:
  assumes "length s + sum_list (map (\<lambda>(_, l). length l + 2) items) < n"
  shows "append_flags v items (length s) (padded n s) =
     Some (length (foldl add_label s (set_labels v items)),
           padded n (foldl add_label s (set_labels v items)))"
  using assms
proof (induction items arbitrary: s)
  case Nil
  then show ?case by (simp add: set_labels_def)
next
  case (Cons i items)
  obtain m l where i: "i = (m, l)" by (cases i)
  from Cons.prems i have b: "length s + length l + 2 < n" by simp
  show ?case
  proof (cases "HAS_FLAG v m")
    case True
    have "length (add_label s l) + sum_list (map (\<lambda>(_, l). length l + 2) items) < n"
      using Cons.prems i length_add_label [of s l] by simp
    with Cons.IH True i b show ?thesis
      by (simp add: append_item_padded set_labels_def)
  next
    case False
    with Cons i show ?thesis by (simp add: set_labels_def)
  qed
qed

lemma foldl_add_label_nonempty:
  "s \<noteq> [] \<Longrightarrow> foldl add_label s ls = s @ concat (map sep_label ls)"
  by (induction ls arbitrary: s) (simp_all add: add_label_def)

lemma foldl_add_label:
  "\<forall>l \<in> set ls. l \<noteq> [] \<Longrightarrow> foldl add_label [] ls = join_labels ls"
  by (cases ls) (simp_all add: add_label_def foldl_add_label_nonempty)

lemma NUL_notin_join_labels: "\<forall>l \<in> set ls. NUL \<notin> set l \<Longrightarrow> NUL \<notin> set (join_labels ls)"
  by (cases ls) (auto simp: sep_label_def)

lemma bit_power2_u32 [simp]: "j < 32 \<Longrightarrow> bit (2 ^ j :: u32) k \<longleftrightarrow> k = j"
  by (auto simp: bit_exp_iff)

lemma HAS_FLAG_power2:
  assumes "k < 32"
  shows "HAS_FLAG v (2 ^ k) \<longleftrightarrow> bit v k"
proof
  assume "HAS_FLAG v (2 ^ k)"
  then have "bit (v AND 2 ^ k) k" using assms by (simp only: HAS_FLAG_def bit_power2_u32)
  then show "bit v k" by (simp only: bit_and_iff)
next
  assume "bit v k"
  then have "bit (v AND 2 ^ k) n \<longleftrightarrow> bit (2 ^ k :: u32) n" for n
    using assms by (auto simp only: bit_and_iff bit_power2_u32)
  then show "HAS_FLAG v (2 ^ k)" unfolding HAS_FLAG_def by (rule bit_eqI)
qed

lemma bit_canonical [simp]: "bit TF_FULLY_CANONICAL_SIG k \<longleftrightarrow> k = 31"
  using bit_power2_u32 [of 31 k] by simp

lemma single_bitE:
  assumes "single_bit m"
  obtains k where "k < 32" and "m = 2 ^ k"
  using assms by (auto simp: single_bit_def list_ex_iff)

lemma bit_fold_OR:
  "bit (fold (OR) ms (a :: u32)) k \<longleftrightarrow> bit a k \<or> (\<exists>m \<in> set ms. bit m k)"
  by (induction ms arbitrary: a) (auto simp: bit_or_iff)

text \<open>
  The contract of a formatter's table and its mask of known bits: one bit per entry, labels
  that are text, the mask is the union of the entries, and all labels together fit the
  smallest buffer, with room for a separator after each.
\<close>

locale flag_table =
  fixes items :: "(u32 \<times> string) list"
    and known :: u32
  assumes single: "list_all (\<lambda>(m, _). single_bit m) items"
    and labels: "list_all (\<lambda>(_, l). l \<noteq> [] \<and> NUL \<notin> set l) items"
    and known: "known = fold (OR) (map fst items) 0"
    and fits: "sum_list (map (\<lambda>(_, l). length l + 2) items) < 128"
begin

lemma set_labels_text: "l \<in> set (set_labels v items) \<Longrightarrow> l \<noteq> [] \<and> NUL \<notin> set l"
  using labels by (auto simp: set_labels_def list_all_iff)

lemma shows_labels:
  assumes "128 \<le> n"
  shows "map_option snd (append_flags v items 0 (padded n [])) =
     Some (padded n (join_labels (set_labels v items)))"
  using append_flags_padded [of "[]" items n v] fits assms
    foldl_add_label [of "set_labels v items"] set_labels_text
  by simp

lemma NUL_notin_join: "NUL \<notin> set (join_labels (set_labels v items))"
  using set_labels_text by (blast intro!: NUL_notin_join_labels)

lemma join_empty_iff: "join_labels (set_labels v items) = [] \<longleftrightarrow> set_labels v items = []"
  using set_labels_text [of _ v] by (cases "set_labels v items") auto

lemma length_join: "length (join_labels (set_labels v items)) < 128"
proof -
  have "length (join_labels ls) \<le> sum_list (map (\<lambda>l. length l + 2) ls)" for ls
  proof (cases ls)
    case (Cons l ls')
    have "length (concat (map sep_label ls')) = sum_list (map (\<lambda>l. length l + 2) ls')"
      by (induction ls') (simp_all add: sep_label_def)
    with Cons show ?thesis by simp
  qed simp
  also have "sum_list (map (\<lambda>l. length l + 2) (set_labels v items)) \<le>
      sum_list (map (\<lambda>(_, l). length l + 2) items)"
    unfolding set_labels_def by (induction items) auto
  finally show ?thesis using fits by (rule le_less_trans)
qed

lemma bit_known: "bit known k \<longleftrightarrow> (\<exists>(m, l) \<in> set items. bit m k)"
  by (force simp: known bit_fold_OR)

lemma label_iff_bit:
  assumes "(m, l) \<in> set items" and "bit m k"
  shows "HAS_FLAG v m \<longleftrightarrow> bit v k"
proof -
  from assms(1) single have "single_bit m" by (auto simp: list_all_iff)
  then obtain j where j: "j < 32" "m = 2 ^ j" by (rule single_bitE)
  with assms(2) have "k = j" by simp
  with j show ?thesis by (simp add: HAS_FLAG_power2)
qed

lemma bit_label:
  assumes "(m, l) \<in> set items" and "bit m k" and "bit v k"
  shows "l \<in> set (set_labels v items)"
  using assms label_iff_bit by (force simp: set_labels_def)

lemma no_hidden_bit:
  assumes "v AND NOT (TF_FULLY_CANONICAL_SIG OR known) = 0" and "bit v k" and "k \<noteq> 31"
  shows "\<exists>(m, l) \<in> set items. bit m k \<and> l \<in> set (set_labels v items)"
proof -
  have k: "k < 32" using assms(2) bit_imp_le_length by fastforce
  have "\<not> bit (v AND NOT (TF_FULLY_CANONICAL_SIG OR known)) k"
    using assms(1) by simp
  then have "bit known k"
    using assms(2,3) k
    by (simp only: bit_and_iff bit_not_iff bit_or_iff bit_canonical possible_bit_word) simp
  then obtain m l where "(m, l) \<in> set items" "bit m k"
    by (auto simp: bit_known)
  with assms(2) bit_label show ?thesis by blast
qed

end

section \<open>The formatters' tables keep the contract\<close>

interpretation account_set: flag_table account_set_transaction_flags_items ACCOUNT_SET_KNOWN_FLAGS
  by unfold_locales code_simp+

interpretation offer_create: flag_table offer_create_flags_items OFFER_CREATE_KNOWN_FLAGS
  by unfold_locales code_simp+

interpretation payment: flag_table payment_flags_items PAYMENT_KNOWN_FLAGS
  by unfold_locales code_simp+

interpretation trust_set: flag_table trust_set_flags_items TRUST_SET_KNOWN_FLAGS
  by unfold_locales code_simp+

interpretation channel_claim: flag_table payment_channel_claim_flags_items PAYMENT_CHANNEL_CLAIM_KNOWN_FLAGS
  by unfold_locales code_simp+

interpretation nftoken_mint: flag_table nftoken_mint_flags_items NFTOKEN_MINT_KNOWN_FLAGS
  by unfold_locales code_simp+

interpretation nftoken_offer: flag_table nftoken_create_offer_flags_items NFTOKEN_CREATE_OFFER_KNOWN_FLAGS
  by unfold_locales code_simp+

interpretation amm_deposit: flag_table amm_deposit_flags_items AMM_DEPOSIT_KNOWN_FLAGS
  by unfold_locales code_simp+

interpretation amm_withdraw: flag_table amm_withdraw_flags_items AMM_WITHDRAW_KNOWN_FLAGS
  by unfold_locales code_simp+

text \<open>The table that shows the Flags field of a transaction type, where it has one.\<close>

definition flag_table_of :: "u16 \<Rightarrow> (u32 \<times> string) list option" where
  "flag_table_of tx = map_of
    [(TRANSACTION_ACCOUNT_SET, account_set_transaction_flags_items),
     (TRANSACTION_OFFER_CREATE, offer_create_flags_items),
     (TRANSACTION_PAYMENT, payment_flags_items),
     (TRANSACTION_TRUST_SET, trust_set_flags_items),
     (TRANSACTION_PAYMENT_CHANNEL_CLAIM, payment_channel_claim_flags_items),
     (TRANSACTION_NFTOKEN_MINT, nftoken_mint_flags_items),
     (TRANSACTION_NFTOKEN_CREATE_OFFER, nftoken_create_offer_flags_items),
     (TRANSACTION_AMM_DEPOSIT, amm_deposit_flags_items),
     (TRANSACTION_AMM_WITHDRAW, amm_withdraw_flags_items)] tx"

text \<open>Every type with a table has its mask, which is the one \<open>has_unknown_flags\<close> checks.\<close>

lemma flag_table_of_cases:
  assumes "flag_table_of tx = Some items"
  shows "tx = TRANSACTION_ACCOUNT_SET \<and> items = account_set_transaction_flags_items \<or>
     tx = TRANSACTION_OFFER_CREATE \<and> items = offer_create_flags_items \<or>
     tx = TRANSACTION_PAYMENT \<and> items = payment_flags_items \<or>
     tx = TRANSACTION_TRUST_SET \<and> items = trust_set_flags_items \<or>
     tx = TRANSACTION_PAYMENT_CHANNEL_CLAIM \<and> items = payment_channel_claim_flags_items \<or>
     tx = TRANSACTION_NFTOKEN_MINT \<and> items = nftoken_mint_flags_items \<or>
     tx = TRANSACTION_NFTOKEN_CREATE_OFFER \<and> items = nftoken_create_offer_flags_items \<or>
     tx = TRANSACTION_AMM_DEPOSIT \<and> items = amm_deposit_flags_items \<or>
     tx = TRANSACTION_AMM_WITHDRAW \<and> items = amm_withdraw_flags_items"
  using assms by (auto simp: flag_table_of_def split: if_splits)

lemmas flag_tables =
  account_set.flag_table_axioms
  offer_create.flag_table_axioms
  payment.flag_table_axioms
  trust_set.flag_table_axioms
  channel_claim.flag_table_axioms
  nftoken_mint.flag_table_axioms
  nftoken_offer.flag_table_axioms
  amm_deposit.flag_table_axioms
  amm_withdraw.flag_table_axioms

lemma flag_table_of_known:
  assumes "flag_table_of tx = Some items"
  obtains known where "flag_table items known"
    and "\<And>v. has_unknown_flags tx v \<longleftrightarrow> v AND NOT (TF_FULLY_CANONICAL_SIG OR known) \<noteq> 0"
  using flag_table_of_cases [OF assms] that flag_tables
  by (elim disjE) (simp_all add: has_unknown_flags_def)

lemma format_flags_table:
  assumes "flag_table_of tx = Some items"
    and "fld_id field = XRP_UINT32_FLAGS" and "fdata field = DU32 v" and "128 \<le> n"
  shows "format_flags tx field (padded n []) = Some (padded n
     (if set_labels v items = [] then ''Unsupported value''
      else join_labels (set_labels v items)))"
proof -
  obtain known where t: "flag_table items known"
    by (rule flag_table_of_known [OF assms(1)])
  let ?s = "join_labels (set_labels v items)"
  have "format_flags tx field (padded n []) =
      Option.bind (map_option snd (append_flags v items 0 (padded n []))) (\<lambda>dst'.
        Option.bind (peek dst' 0 1) (\<lambda>c.
          if c = [NUL] then strncpy dst' 0 ''Unsupported value'' (length dst') else Some dst'))"
    using flag_table_of_cases [OF assms(1)] assms(2,3)
    by (elim disjE)
      (simp_all add: format_flags_def format_account_set_flags_def
        format_account_set_transaction_flags_def format_offer_create_flags_def
        format_payment_flags_def format_trust_set_flags_def
        format_payment_channel_claim_flags_def format_nftoken_mint_flags_def
        format_nftoken_create_offer_flags_def format_amm_deposit_flags_def
        format_amm_withdraw_flags_def)
  also have "\<dots> = Option.bind (peek (padded n ?s) 0 1) (\<lambda>c.
        if c = [NUL] then strncpy (padded n ?s) 0 ''Unsupported value'' (length (padded n ?s))
        else Some (padded n ?s))"
    by (simp add: flag_table.shows_labels [OF t assms(4)])
  also have "\<dots> = Some (padded n (if set_labels v items = [] then ''Unsupported value'' else ?s))"
  proof (cases ?s)
    case Nil
    then have "set_labels v items = []" using flag_table.join_empty_iff [OF t] by blast
    with assms(4) show ?thesis
      by (cases n) (simp_all add: padded_def peek_def strncpy_def poke_def)
  next
    case (Cons c cs)
    then have "set_labels v items \<noteq> []" and "c \<noteq> NUL"
      using flag_table.join_empty_iff [OF t, of v] flag_table.NUL_notin_join [OF t, of v] by auto
    with Cons assms(4) show ?thesis by (simp add: padded_def peek_def)
  qed
  finally show ?thesis .
qed

lemma flag_table_of_None:
  "flag_table_of tx = None \<longleftrightarrow> tx \<notin> {TRANSACTION_ACCOUNT_SET, TRANSACTION_OFFER_CREATE, TRANSACTION_PAYMENT,
     TRANSACTION_TRUST_SET, TRANSACTION_PAYMENT_CHANNEL_CLAIM, TRANSACTION_NFTOKEN_MINT,
     TRANSACTION_NFTOKEN_CREATE_OFFER, TRANSACTION_AMM_DEPOSIT, TRANSACTION_AMM_WITHDRAW}"
  by (auto simp: flag_table_of_def)

text \<open>A type without a table: nothing is checked, and the text says that it has no flags.\<close>

lemma flags_without_table:
  assumes "flag_table_of tx = None" and "fdata field = DU32 v" and "128 \<le> n"
  shows "\<not> has_unknown_flags tx v"
    and "format_flags tx field (padded n []) =
       Some (padded n (''No flags for transaction type '' @ print_dec (unat tx)))"
proof -
  show "\<not> has_unknown_flags tx v"
    using assms(1) by (auto simp: flag_table_of_None has_unknown_flags_def)
  have "length (print_dec (unat tx)) \<le> 5"
    by (rule length_print_dec) (use less_trans [OF unat_u16_less [of tx], of 100000] in simp_all)
  then show "format_flags tx field (padded n []) =
       Some (padded n (''No flags for transaction type '' @ print_dec (unat tx)))"
    using assms flag_table_of_None [of tx] snprintf_padded [of "[]" "''No flags for transaction type '' @ print_dec (unat tx)" n]
    by (simp add: format_flags_def padded_def)
qed

lemma unknown_iff_bit:
  "v AND NOT (TF_FULLY_CANONICAL_SIG OR known) \<noteq> 0 \<longleftrightarrow>
     (\<exists>k. bit v k \<and> k \<noteq> 31 \<and> \<not> bit known k)"
proof -
  have "v AND NOT (TF_FULLY_CANONICAL_SIG OR known) \<noteq> 0 \<longleftrightarrow>
      (\<exists>k. bit (v AND NOT (TF_FULLY_CANONICAL_SIG OR known)) k)"
    by (metis bit_0_eq bit_eqI bot_apply bot_bool_def)
  then show ?thesis
    using bit_imp_le_length [of v]
    by (auto simp only: bit_and_iff bit_not_iff bit_or_iff bit_canonical possible_bit_word)
qed

text \<open>
  C17. The flags text accounts for every bit of every flags value, for every transaction type. For
  the nine types with a flag table, \<open>has_unknown_flags\<close>, on which the parser refuses to clear-sign,
  holds exactly of the values with a bit that is in no entry of the table, the canonical-signature
  bit 31 apart; and of the others each set bit but bit 31 has its label in the text, each label in
  the text has its bit set, and the text of a value without such a bit (whose field the review
  hides) is \<open>Unsupported value\<close>. The other types have no table: there \<open>has_unknown_flags\<close> accepts
  every value, and the text is the same for all of them, that the type has no flags.
\<close>

theorem format_flags_accounts_for_bits:
  assumes "fld_id field = XRP_UINT32_FLAGS" and "fdata field = DU32 v" and "128 \<le> n"
  shows "case flag_table_of tx of
      None \<Rightarrow> \<not> has_unknown_flags tx v \<and> format_flags tx field (padded n []) =
        Some (padded n (''No flags for transaction type '' @ print_dec (unat tx)))
    | Some items \<Rightarrow>
        (has_unknown_flags tx v \<longleftrightarrow> (\<exists>k. bit v k \<and> k \<noteq> 31 \<and> (\<forall>(m, l) \<in> set items. \<not> bit m k))) \<and>
        format_flags tx field (padded n []) = Some (padded n
          (if \<exists>(m, l) \<in> set items. HAS_FLAG v m then join_labels (set_labels v items)
           else ''Unsupported value'')) \<and>
        (\<forall>(m, l) \<in> set items. \<forall>k. bit m k \<longrightarrow> (HAS_FLAG v m \<longleftrightarrow> bit v k)) \<and>
        (\<not> has_unknown_flags tx v \<longrightarrow>
          (\<forall>k. bit v k \<and> k \<noteq> 31 \<longrightarrow> (\<exists>(m, l) \<in> set items. bit m k \<and> l \<in> set (set_labels v items))))"
proof (cases "flag_table_of tx")
  case None
  with flags_without_table [OF None assms(2,3)] show ?thesis by simp
next
  case (Some items)
  obtain known where t: "flag_table items known"
    and u: "\<And>v. has_unknown_flags tx v \<longleftrightarrow> v AND NOT (TF_FULLY_CANONICAL_SIG OR known) \<noteq> 0"
    by (rule flag_table_of_known [OF Some]) blast
  have unknown: "has_unknown_flags tx v \<longleftrightarrow> (\<exists>k. bit v k \<and> k \<noteq> 31 \<and> (\<forall>(m, l) \<in> set items. \<not> bit m k))"
    unfolding u unknown_iff_bit flag_table.bit_known [OF t] by blast
  have labels: "(if set_labels v items = [] then a else b) =
      (if \<exists>(m, l) \<in> set items. HAS_FLAG v m then b else a)" for a b :: string
    by (auto simp: set_labels_def filter_empty_conv)
  have bits: "\<exists>(m, l) \<in> set items. bit m k \<and> l \<in> set (set_labels v items)"
    if "\<not> has_unknown_flags tx v" "bit v k" "k \<noteq> 31" for k
    using flag_table.no_hidden_bit [OF t _ that(2,3)] u that(1) by blast
  have same: "\<forall>(m, l) \<in> set items. \<forall>k. bit m k \<longrightarrow> (HAS_FLAG v m \<longleftrightarrow> bit v k)"
    using flag_table.label_iff_bit [OF t] by blast
  from format_flags_table [OF Some assms] have shows_text:
    "format_flags tx field (padded n []) = Some (padded n
       (if \<exists>(m, l) \<in> set items. HAS_FLAG v m then join_labels (set_labels v items) else ''Unsupported value''))"
    unfolding labels .
  show ?thesis
    unfolding Some option.case using unknown shows_text same bits by blast
qed

theorem format_flags_accounts_for_bits_witness:
  "format_flags TRANSACTION_PAYMENT
     (zero_field\<lparr>data_type := STI_UINT32, fld_id := XRP_UINT32_FLAGS, fdata := DU32 0x80060000\<rparr>)
     (padded 128 []) = Some (padded 128 ''Partial Payment, Limit Quality'')"
proof -
  let ?f = "zero_field\<lparr>data_type := STI_UINT32, fld_id := XRP_UINT32_FLAGS, fdata := DU32 0x80060000\<rparr>"
  have t: "flag_table_of TRANSACTION_PAYMENT = Some payment_flags_items" by (simp add: flag_table_of_def)
  have "\<exists>(m, l) \<in> set payment_flags_items. HAS_FLAG 0x80060000 m" by code_simp
  moreover have "join_labels (set_labels 0x80060000 payment_flags_items) = ''Partial Payment, Limit Quality''"
    by code_simp
  ultimately show ?thesis
    using format_flags_accounts_for_bits [where field = ?f and v = "0x80060000" and n = 128 and tx = TRANSACTION_PAYMENT] unfolding t option.case
    by simp
qed

end
