(* ===== verification/Field_Names.thy ===== *)
theory Field_Names
  imports Flags
begin

text \<open>
  \<open>src/src/xrp/fields.c\<close>: the name the review shows for a field, whether the app knows the
  field at all, and which fields it never shows.
\<close>

definition is_normal_account_field :: "field_t \<Rightarrow> bool" where
  "is_normal_account_field field \<longleftrightarrow>
     data_type field = STI_ACCOUNT \<and> fld_id field = XRP_ACCOUNT_ACCOUNT \<and>
     ai_type (array_info field) = 0"

definition UNKNOWN_FIELD_NAME :: string where
  "UNKNOWN_FIELD_NAME = ''Unknown''"

definition uint16_names :: "(u8 \<times> string) list" where
  "uint16_names =
    [(2, ''Transaction Type''),
     (3, ''Signer Weight''),
     (4, ''Transfer Fee''),
     (5, ''Trading Fee''),
     (6, ''Discount Fee'')]"

definition uint32_names :: "(u8 \<times> string) list" where
  "uint32_names =
    [(1, ''Network ID''),
     (2, ''Flags''),
     (3, ''Source Tag''),
     (4, ''Sequence''),
     (10, ''Expiration''),
     (11, ''Transfer Rate''),
     (12, ''Wallet Size''),
     (14, ''Destination Tag''),
     (20, ''Quality In''),
     (21, ''Quality Out''),
     (25, ''Offer Sequence''),
     (26, ''First Ledger Sequence''),
     (27, ''Last Ledger Sequence''),
     (29, ''Operation Limit''),
     (33, ''Set Flag''),
     (34, ''Clear Flag''),
     (35, ''Signer Quorum''),
     (36, ''Cancel After''),
     (37, ''Finish After''),
     (39, ''Settle Delay''),
     (40, ''Ticket Count''),
     (41, ''Ticket Sequence''),
     (42, ''NFToken Taxon'')]"

definition hash128_names :: "(u8 \<times> string) list" where
  "hash128_names =
    [(1, ''Email Hash'')]"

definition hash256_names :: "(u8 \<times> string) list" where
  "hash256_names =
    [(5, ''Previous Txn ID''),
     (7, ''Wallet Locator''),
     (9, ''Account Txn ID''),
     (10, ''NFToken ID''),
     (14, ''AMM ID''),
     (17, ''Invoice ID''),
     (21, ''Digest''),
     (22, ''Channel''),
     (24, ''Check ID''),
     (28, ''NFToken Buy Offer''),
     (29, ''NFToken Sell Offer''),
     (0xFE, ''NFToken Offer'')]"

definition amount_names :: "(u8 \<times> string) list" where
  "amount_names =
    [(1, ''Amount''),
     (2, ''Balance''),
     (3, ''Limit Amount''),
     (4, ''Taker Pays''),
     (5, ''Taker Gets''),
     (8, ''Fee''),
     (9, ''Send Max''),
     (10, ''Deliver Min''),
     (11, ''Amount 2''),
     (12, ''Bid Min''),
     (13, ''Bid Max''),
     (19, ''NFToken Broker Fee''),
     (25, ''LP Token Out''),
     (26, ''LP Token In''),
     (27, ''E Price''),
     (28, ''Price''),
     (29, ''Signature Reward''),
     (30, ''Create Amount''),
     (31, ''LP Token Balance'')]"

definition vl_names :: "(u8 \<times> string) list" where
  "vl_names =
    [(1, ''Public Key''),
     (2, ''Message Key''),
     (3, ''Sig.PubKey''),
     (4, ''Txn Sig.''),
     (5, ''URI''),
     (6, ''Signature''),
     (7, ''Domain''),
     (12, ''Memo Type''),
     (13, ''Memo Data''),
     (14, ''Memo Fmt''),
     (16, ''Fulfillment''),
     (17, ''Condition'')]"

definition vector256_names :: "(u8 \<times> string) list" where
  "vector256_names =
    [(4, ''NFToken Offers'')]"

definition account_names :: "(u8 \<times> string) list" where
  "account_names =
    [(1, ''Account''),
     (2, ''Owner''),
     (3, ''Destination''),
     (4, ''Issuer''),
     (5, ''Authorize''),
     (6, ''Unauthorize''),
     (8, ''Regular Key''),
     (9, ''NFToken Minter'')]"

definition object_names :: "(u8 \<times> string) list" where
  "object_names =
    [(10, ''Memo''),
     (11, ''Signer Entry''),
     (12, ''NFToken''),
     (16, ''Signer''),
     (27, ''Auth Account'')]"

definition array_names :: "(u8 \<times> string) list" where
  "array_names =
    [(3, ''Signers''),
     (4, ''Signer Entries''),
     (9, ''Memos''),
     (10, ''NFTokens''),
     (25, ''Auth Accounts'')]"

definition uint8_names :: "(u8 \<times> string) list" where
  "uint8_names =
    [(16, ''Tick Size'')]"

definition pathset_names :: "(u8 \<times> string) list" where
  "pathset_names =
    [(1, ''Paths'')]"

definition currency_names :: "(u8 \<times> string) list" where
  "currency_names =
    [(1, ''Currency'')]"

definition issue_names :: "(u8 \<times> string) list" where
  "issue_names =
    [(3, ''Asset''),
     (4, ''Asset 2'')]"

text \<open>
  The name the switch for the field's type gives its id, if any. \<open>None\<close> stands for the pointer
  to \<open>UNKNOWN_FIELD_NAME\<close>, which \<open>is_field_recognized\<close> compares with.
\<close>

definition resolve_field_name_switch :: "field_t \<Rightarrow> string option" where
  "resolve_field_name_switch field =
    (if data_type field = STI_UINT16 then map_of uint16_names (fld_id field)
     else if data_type field = STI_UINT32 then map_of uint32_names (fld_id field)
     else if data_type field = STI_HASH128 then map_of hash128_names (fld_id field)
     else if data_type field = STI_HASH256 then map_of hash256_names (fld_id field)
     else if data_type field = STI_AMOUNT then map_of amount_names (fld_id field)
     else if data_type field = STI_VL then map_of vl_names (fld_id field)
     else if data_type field = STI_VECTOR256 then map_of vector256_names (fld_id field)
     else if data_type field = STI_ACCOUNT then map_of account_names (fld_id field)
     else if data_type field = STI_OBJECT then map_of object_names (fld_id field)
     else if data_type field = STI_ARRAY then map_of array_names (fld_id field)
     else if data_type field = STI_UINT8 then map_of uint8_names (fld_id field)
     else if data_type field = STI_PATHSET then map_of pathset_names (fld_id field)
     else if data_type field = STI_CURRENCY then map_of currency_names (fld_id field)
     else if data_type field = STI_ISSUE then map_of issue_names (fld_id field)
     else None)"

definition resolve_field_name :: "field_t \<Rightarrow> string" where
  "resolve_field_name field =
     (case resolve_field_name_switch field of Some name \<Rightarrow> name | None \<Rightarrow> UNKNOWN_FIELD_NAME)"

definition is_field_recognized :: "field_t \<Rightarrow> bool" where
  "is_field_recognized field \<longleftrightarrow> resolve_field_name_switch field \<noteq> None"

definition HIDE :: "u8 \<Rightarrow> u8 \<Rightarrow> field_t \<Rightarrow> bool" where
  "HIDE t i field \<longleftrightarrow>
     data_type field = t \<and> fld_id field = i \<and> ai_type (array_info field) = 0"

definition is_field_hidden :: "field_t \<Rightarrow> bool" where
  "is_field_hidden field \<longleftrightarrow>
     HIDE STI_UINT32 XRP_UINT32_SEQUENCE field \<or>
     HIDE STI_UINT32 XRP_UINT32_LAST_LEDGER_SEQUENCE field \<or>
     HIDE STI_VL XRP_VL_SIGNING_PUB_KEY field \<or>
     data_type field = STI_ARRAY \<or> data_type field = STI_OBJECT \<or>
     data_type field = STI_PATHSET \<or>
     is_flag_hidden field"

section \<open>Names\<close>

text \<open>The tables of the switches, by type.\<close>

definition name_tables :: "(u8 \<times> (u8 \<times> string) list) list" where
  "name_tables =
    [(STI_UINT16, uint16_names), (STI_UINT32, uint32_names), (STI_HASH128, hash128_names),
     (STI_HASH256, hash256_names), (STI_AMOUNT, amount_names), (STI_VL, vl_names),
     (STI_VECTOR256, vector256_names), (STI_ACCOUNT, account_names), (STI_OBJECT, object_names),
     (STI_ARRAY, array_names), (STI_UINT8, uint8_names), (STI_PATHSET, pathset_names),
     (STI_CURRENCY, currency_names), (STI_ISSUE, issue_names)]"

lemma resolve_field_name_tables:
  "resolve_field_name_switch field =
     Option.bind (map_of name_tables (data_type field)) (\<lambda>t. map_of t (fld_id field))"
  by (simp add: resolve_field_name_switch_def name_tables_def)

lemma name_tables_text:
  "list_all (\<lambda>(_, t). list_all (\<lambda>(_, name). name \<noteq> UNKNOWN_FIELD_NAME \<and> NUL \<notin> set name \<and>
      name \<noteq> [] \<and> length name \<le> 21) t) name_tables"
  by code_simp

lemma resolve_field_name_switch_text:
  assumes "resolve_field_name_switch field = Some name"
  shows "name \<noteq> UNKNOWN_FIELD_NAME \<and> NUL \<notin> set name \<and> name \<noteq> [] \<and> length name \<le> 21"
proof -
  from assms obtain t where "map_of name_tables (data_type field) = Some t"
    and "map_of t (fld_id field) = Some name"
    by (auto simp: resolve_field_name_tables Option.bind_eq_Some_conv)
  then have "(data_type field, t) \<in> set name_tables" and "(fld_id field, name) \<in> set t"
    by (simp_all add: map_of_SomeD)
  with name_tables_text show ?thesis by (fastforce simp: list_all_iff)
qed

text \<open>Comparing the name's pointer with \<open>UNKNOWN_FIELD_NAME\<close> is comparing the strings: no
  switch returns the same text.\<close>

lemma is_field_recognized_iff_name:
  "is_field_recognized field \<longleftrightarrow> resolve_field_name field \<noteq> UNKNOWN_FIELD_NAME"
  using resolve_field_name_switch_text
  by (auto simp: is_field_recognized_def resolve_field_name_def split: option.splits)

lemma resolve_field_name_text:
  "NUL \<notin> set (resolve_field_name field) \<and> resolve_field_name field \<noteq> [] \<and>
   length (resolve_field_name field) \<le> 21"
  using resolve_field_name_switch_text [of field]
  by (auto simp: resolve_field_name_def UNKNOWN_FIELD_NAME_def split: option.splits)

end
