(* ===== verification/Field_Sort.thy ===== *)
theory Field_Sort
  imports Field_Names "HOL-Library.Multiset"
begin

text \<open>
  \<open>src/src/xrp/field_sort.c\<close>: the fields are shown with the transaction type first and the
  account second. \<open>sort_fields\<close> walks the array, exchanges neighbours that are out of order and
  steps back after an exchange. The index is a \<open>uint8_t\<close> below 60 in the code and a natural
  number here; a read or exchange past the array has no meaning (\<open>None\<close>).
\<close>

section \<open>The code\<close>

definition get_priority_score :: "field_t \<Rightarrow> u8" where
  "get_priority_score field =
     (if is_transaction_type_field field then 0
      else if is_normal_account_field field then 1
      else 2)"

definition is_preceding :: "field_t \<Rightarrow> field_t \<Rightarrow> bool" where
  "is_preceding field other_field \<longleftrightarrow> get_priority_score field < get_priority_score other_field"

definition swap_fields :: "'a list \<Rightarrow> nat \<Rightarrow> nat \<Rightarrow> 'a list" where
  "swap_fields fs idx1 idx2 = fs[idx1 := fs ! idx2, idx2 := fs ! idx1]"

section \<open>Sorting by exchanging neighbours\<close>

text \<open>
  What a comparison must promise for such a walk to end in a stable sort: it compares ranks.
\<close>

locale neighbour_order =
  fixes precedes :: "'a \<Rightarrow> 'a \<Rightarrow> bool"
    and rank :: "'a \<Rightarrow> 'r::linorder"
  assumes precedes_rank: "precedes x y \<longleftrightarrow> rank x < rank y"
begin

fun inversions :: "'a list \<Rightarrow> nat" where
  "inversions [] = 0"
| "inversions (x # xs) = length (filter (\<lambda>y. precedes y x) xs) + inversions xs"

lemma inversions_append:
  "inversions (xs @ ys) =
     inversions xs + sum_list (map (\<lambda>x. length (filter (\<lambda>y. precedes y x) ys)) xs) + inversions ys"
  by (induction xs) auto

lemma inversions_exchange:
  assumes "precedes b a"
  shows "inversions (us @ b # a # vs) < inversions (us @ a # b # vs)"
proof -
  have "\<not> precedes a b" using assms by (auto simp: precedes_rank)
  moreover have "(\<Sum>x\<leftarrow>us. length (filter (\<lambda>y. precedes y x) (b # a # vs))) =
      (\<Sum>x\<leftarrow>us. length (filter (\<lambda>y. precedes y x) (a # b # vs)))"
    by (intro arg_cong [where f = sum_list] map_cong refl) simp
  ultimately show ?thesis using assms by (simp add: inversions_append)
qed

lemma exchange_keeps_classes:
  assumes "precedes b a"
  shows "filter (\<lambda>x. k = rank x) (us @ b # a # vs) = filter (\<lambda>x. k = rank x) (us @ a # b # vs)"
  using assms by (auto simp: precedes_rank)

lemma sorted_prefix_extend:
  assumes "sorted (map rank (us @ [a]))" and "\<not> precedes b a"
  shows "sorted (map rank (us @ [a, b]))"
proof -
  have "rank a \<le> rank b" using assms(2) by (simp add: precedes_rank)
  with assms(1) show ?thesis by (fastforce simp: sorted_append)
qed

lemma stable_sort_unique:
  assumes "mset ys = mset xs" and "\<And>k. filter (\<lambda>x. k = rank x) ys = filter (\<lambda>x. k = rank x) xs"
    and "sorted (map rank ys)"
  shows "ys = sort_key rank xs"
  using properties_for_sort_key [of ys xs rank] assms by simp

end

interpretation priority: neighbour_order is_preceding get_priority_score
  by unfold_locales (rule is_preceding_def)

lemma split_neighbours:
  assumes "Suc i < length fs"
  obtains us a b vs where "fs = us @ a # b # vs" and "length us = i"
    and "fs ! i = a" and "fs ! Suc i = b" and "swap_fields fs i (Suc i) = us @ b # a # vs"
proof
  show fs: "fs = take i fs @ fs ! i # fs ! Suc i # drop (Suc (Suc i)) fs"
    using assms by (metis Cons_nth_drop_Suc Suc_lessD append_take_drop_id)
  show l: "length (take i fs) = i" using assms by simp
  have "swap_fields (us @ a # b # vs) (length us) (Suc (length us)) = us @ b # a # vs"
    for us vs :: "'a list" and a b
    by (simp add: swap_fields_def nth_append list_update_append)
  from this [of "take i fs" "fs ! i" "fs ! Suc i" "drop (Suc (Suc i)) fs"]
  show "swap_fields fs i (Suc i) = take i fs @ fs ! Suc i # fs ! i # drop (Suc (Suc i)) fs"
    using l by (simp flip: fs)
qed simp_all

section \<open>The walk\<close>

function sort_loop :: "field_t list \<Rightarrow> nat \<Rightarrow> nat \<Rightarrow> field_t list option" where
  "sort_loop fs n i =
     (if i + 1 < n then
        if i + 1 < length fs then
          if is_preceding (fs ! (i + 1)) (fs ! i) \<and> \<not> is_preceding (fs ! i) (fs ! (i + 1))
          then sort_loop (swap_fields fs i (i + 1)) n (if i > 0 then i - 1 else 0)
          else sort_loop fs n (i + 1)
        else None
      else Some fs)"
  by pat_completeness auto

text \<open>An exchange removes an inversion and steps back once; any other step goes forward.\<close>

termination
proof (relation "measure (\<lambda>(fs, n, i). 2 * priority.inversions fs + (n - i))")
  fix fs :: "field_t list" and n i :: nat
  assume "i + 1 < n" and i: "i + 1 < length fs"
    and p: "is_preceding (fs ! (i + 1)) (fs ! i) \<and> \<not> is_preceding (fs ! i) (fs ! (i + 1))"
  from i obtain us a b vs where "fs = us @ a # b # vs" "fs ! i = a" "fs ! Suc i = b"
    and "swap_fields fs i (Suc i) = us @ b # a # vs"
    by (auto elim: split_neighbours)
  with p have "priority.inversions (swap_fields fs i (i + 1)) < priority.inversions fs"
    by (simp add: priority.inversions_exchange)
  then show "((swap_fields fs i (i + 1), n, if i > 0 then i - 1 else 0), fs, n, i) \<in>
      measure (\<lambda>(fs, n, i). 2 * priority.inversions fs + (n - i))"
    using \<open>i + 1 < n\<close> by (cases i) auto
qed simp_all

declare sort_loop.simps [simp del]

definition sort_fields :: "parseResult_t \<Rightarrow> parseResult_t option" where
  "sort_fields result =
     map_option (\<lambda>fs. result\<lparr>res_fields := fs\<rparr>)
       (sort_loop (res_fields result) (unat (num_fields result)) 0)"

text \<open>
  The invariant of the walk: the array up to the index is sorted, and every step leaves the
  order among fields of one rank and the slots from \<open>n\<close> on.
\<close>

lemma sort_loop_sorts:
  assumes "n \<le> length fs" and "sorted (map get_priority_score (take (Suc i) fs))"
  shows "\<exists>fs'. sort_loop fs n i = Some fs' \<and> length fs' = length fs \<and>
     mset (take n fs') = mset (take n fs) \<and>
     (\<forall>k. filter (\<lambda>f. k = get_priority_score f) (take n fs') =
          filter (\<lambda>f. k = get_priority_score f) (take n fs)) \<and>
     sorted (map get_priority_score (take n fs')) \<and> drop n fs' = drop n fs"
  using assms
proof (induction fs n i rule: sort_loop.induct)
  case (1 fs n i)
  show ?case
  proof (cases "i + 1 < n")
    case False
    then have "take n fs = take n (take (Suc i) fs)" by simp
    with "1.prems"(2) have "sorted (map get_priority_score (take n fs))"
      by (metis sorted_wrt_take take_map)
    with False show ?thesis by (simp add: sort_loop.simps [of fs n i])
  next
    case True
    with "1.prems"(1) have il: "i + 1 < length fs" by simp
    then obtain us a b vs where fs: "fs = us @ a # b # vs" "length us = i"
      and ab: "fs ! i = a" "fs ! Suc i = b"
      and sw: "swap_fields fs i (Suc i) = us @ b # a # vs"
      by (auto elim: split_neighbours)
    define m where "m = n - (i + 2)"
    have n: "n = length us + 2 + m" using True fs(2) by (simp add: m_def)
    show ?thesis
    proof (cases "is_preceding b a")
      case b: True
      then have nb: "\<not> is_preceding a b" by (auto simp: is_preceding_def)
      let ?j = "if i > 0 then i - 1 else 0"
      have "sorted (map get_priority_score (take (Suc ?j) (us @ b # a # vs)))"
      proof (cases "i > 0")
        case True
        then show ?thesis using "1.prems"(2) fs by (auto simp: sorted_append)
      next
        case False
        then show ?thesis using fs(2) by simp
      qed
      with "1.IH"(1) [OF True il] "1.prems"(1) b nb ab sw
      obtain fs' where "sort_loop (us @ b # a # vs) n ?j = Some fs'"
        and "length fs' = length fs"
        and "mset (take n fs') = mset (take n (us @ b # a # vs))"
        and "\<forall>k. filter (\<lambda>f. k = get_priority_score f) (take n fs') =
              filter (\<lambda>f. k = get_priority_score f) (take n (us @ b # a # vs))"
        and "sorted (map get_priority_score (take n fs'))"
        and "drop n fs' = drop n (us @ b # a # vs)"
        using fs(1) by auto
      moreover have "sort_loop fs n i = sort_loop (us @ b # a # vs) n ?j"
        using True il b nb ab sw by (subst sort_loop.simps) simp
      moreover have "filter (\<lambda>f. k = get_priority_score f) (take n (us @ b # a # vs)) =
          filter (\<lambda>f. k = get_priority_score f) (take n fs)" for k
        using priority.exchange_keeps_classes [OF b, of k us "take m vs"] by (simp add: fs(1) n)
      ultimately show ?thesis by (simp add: fs(1) n)
    next
      case False
      have "take (Suc i) fs = us @ [a]" using fs by simp
      with "1.prems"(2) have "sorted (map get_priority_score (us @ [a, b]))"
        by (intro priority.sorted_prefix_extend False) simp
      then have "sorted (map get_priority_score (take (Suc (i + 1)) fs))" using fs by simp
      with "1.IH"(2) [OF True il] "1.prems"(1) False ab show ?thesis
        using True il by (simp add: sort_loop.simps [of fs n i])
    qed
  qed
qed

lemma sort_fields_sort_key:
  assumes "unat (num_fields r) \<le> length (res_fields r)"
  shows "\<exists>r'. sort_fields r = Some r' \<and> num_fields r' = num_fields r \<and>
     length (res_fields r') = length (res_fields r) \<and>
     used_fields r' = sort_key get_priority_score (used_fields r) \<and>
     drop (unat (num_fields r)) (res_fields r') = drop (unat (num_fields r)) (res_fields r)"
proof -
  have "sorted (map get_priority_score (take (Suc 0) (res_fields r)))"
    by (cases "res_fields r") simp_all
  from sort_loop_sorts [OF assms this] obtain fs'
    where fs': "sort_loop (res_fields r) (unat (num_fields r)) 0 = Some fs'"
      and l: "length fs' = length (res_fields r)"
      and m: "mset (take (unat (num_fields r)) fs') = mset (used_fields r)"
      and c: "\<forall>k. filter (\<lambda>f. k = get_priority_score f) (take (unat (num_fields r)) fs') =
            filter (\<lambda>f. k = get_priority_score f) (used_fields r)"
      and s: "sorted (map get_priority_score (take (unat (num_fields r)) fs'))"
      and d: "drop (unat (num_fields r)) fs' = drop (unat (num_fields r)) (res_fields r)"
    by (auto simp: used_fields_def)
  from m c s have "take (unat (num_fields r)) fs' = sort_key get_priority_score (used_fields r)"
    by (intro priority.stable_sort_unique) blast+
  with fs' l d show ?thesis by (simp add: sort_fields_def used_fields_def)
qed

text \<open>
  C34. \<open>sort_fields\<close> ends, touches only the fields in use and puts them in the stable order of
  their priority: transaction type, account, then the others as they came.
\<close>

theorem sort_fields_stable:
  assumes "unat (num_fields r) \<le> length (res_fields r)"
  shows "\<exists>r'. sort_fields r = Some r' \<and> num_fields r' = num_fields r \<and>
     length (res_fields r') = length (res_fields r) \<and>
     used_fields r' = sort_key get_priority_score (used_fields r) \<and>
     drop (unat (num_fields r)) (res_fields r') = drop (unat (num_fields r)) (res_fields r)"
  using assms by (rule sort_fields_sort_key)

theorem sort_fields_stable_witness:
  "\<exists>r'. sort_fields \<lparr>num_fields = 2, res_fields =
         [zero_field\<lparr>data_type := STI_ACCOUNT, fld_id := 1\<rparr>,
          zero_field\<lparr>data_type := STI_UINT16, fld_id := 2\<rparr>]\<rparr> = Some r' \<and>
     used_fields r' =
         [zero_field\<lparr>data_type := STI_UINT16, fld_id := 2\<rparr>,
          zero_field\<lparr>data_type := STI_ACCOUNT, fld_id := 1\<rparr>]"
  using sort_fields_stable [of "\<lparr>num_fields = 2, res_fields =
         [zero_field\<lparr>data_type := STI_ACCOUNT, fld_id := 1\<rparr>,
          zero_field\<lparr>data_type := STI_UINT16, fld_id := 2\<rparr>]\<rparr>"]
  by (auto simp: used_fields_def get_priority_score_def is_transaction_type_field_def
      is_normal_account_field_def zero_field_def)

end
