(* ===== verification/Readers.thy ===== *)
theory Readers
  imports Field_Types C_Strings
begin

text \<open>
  The readers of raw bytes: \<open>readers.c\<close> (big-endian numbers, hexadecimal text),
  \<open>ascii_strings.c\<close> and \<open>number_helpers.c\<close>. A \<open>const uint8_t *\<close> argument is the list of
  the bytes it points to; a function that indexes it beyond the list returns \<open>None\<close>.
\<close>

section \<open>Big-endian numbers\<close>

text \<open>The number a list of bytes stands for, most significant byte first (specification).\<close>

definition be_val :: "u8 list \<Rightarrow> nat" where
  "be_val bs = foldl (\<lambda>n b. 256 * n + unat b) 0 bs"

lemma be_val_Nil [simp]: "be_val [] = 0"
  by (simp add: be_val_def)

lemma be_val_snoc [simp]: "be_val (bs @ [b]) = 256 * be_val bs + unat b"
  by (simp add: be_val_def)

lemma be_val_less: "be_val bs < 256 ^ length bs"
proof (induction bs rule: rev_induct)
  case Nil
  show ?case by simp
next
  case (snoc b bs)
  then have "256 * be_val bs + unat b < 256 * (be_val bs + 1)" by simp
  also have "\<dots> \<le> 256 * 256 ^ length bs"
    using snoc by (intro mult_le_mono2) simp
  finally show ?case by simp
qed

lemma shift_or_byte:
  fixes x :: "'a::len word" and b :: u8
  shows "push_bit 8 x OR ucast b = 256 * x + ucast b"
proof -
  have "push_bit 8 x OR ucast b = push_bit 8 x + ucast b"
    by (rule disjunctive_add [symmetric])
      (auto simp: bit_simps dest: bit_imp_le_length)
  then show ?thesis by (simp add: push_bit_eq_mult mult.commute)
qed

lemma ucast_of_nat: "(ucast (b :: u8) :: 'a::len word) = of_nat (unat b)"
  by simp

section \<open>The code\<close>

text \<open>A byte in a character buffer.\<close>

definition char_of_u8 :: "u8 \<Rightarrow> char" where
  "char_of_u8 b = char_of (unat b)"

definition read_unsigned64 :: "u8 list \<Rightarrow> u64 option" where
  "read_unsigned64 src =
     (if 8 \<le> length src
      then Some (foldl (\<lambda>value i. value OR push_bit (8 * 8 - i * 8 - 8) (ucast (src ! i))) 0 [0..<8])
      else None)"

definition hex :: "u8 \<Rightarrow> char" where
  "hex n = (if n \<ge> 10 then char_of (97 + (unat n - 10)) else char_of (48 + unat n))"

text \<open>
  \<open>read_hex\<close> writes two digits per byte while they fit, no terminator, and says whether all
  bytes fitted. The loop counter is \<open>i\<close>.
\<close>

function read_hex_loop :: "nat \<Rightarrow> string \<Rightarrow> nat \<Rightarrow> u8 list \<Rightarrow> nat \<Rightarrow> (nat \<times> string) option" where
  "read_hex_loop i dst dst_size src src_size =
     (if i < src_size \<and> i * 2 + 1 < dst_size then
        Option.bind (peek src i 1) (\<lambda>b.
        Option.bind (poke dst (i * 2) [hex (drop_bit 4 (hd b)), hex (hd b AND 0xf)]) (\<lambda>dst'.
        read_hex_loop (i + 1) dst' dst_size src src_size))
      else Some (i, dst))"
  by pat_completeness auto
termination
  by (relation "measure (\<lambda>(i, _, _, _, n). n - i)") auto

declare read_hex_loop.simps [simp del]

definition read_hex :: "string \<Rightarrow> nat \<Rightarrow> u8 list \<Rightarrow> nat \<Rightarrow> (bool \<times> string) option" where
  "read_hex dst dst_size src src_size =
     map_option (\<lambda>(i, dst'). (i = src_size, dst')) (read_hex_loop 0 dst dst_size src src_size)"

definition int_to_number_char :: "u64 \<Rightarrow> char" where
  "int_to_number_char value = (if value > 9 then CHR ''?'' else char_of (48 + unat value))"

text \<open>The loop of \<open>is_purely_ascii\<close>: index, rest of the bytes, whether a zero was seen.\<close>

fun is_purely_ascii_loop :: "nat \<Rightarrow> u8 list \<Rightarrow> bool \<Rightarrow> bool \<Rightarrow> bool" where
  "is_purely_ascii_loop i [] allow_suffix tracking_suffix = True"
| "is_purely_ascii_loop i (b # data) allow_suffix tracking_suffix =
     (if tracking_suffix \<and> b \<noteq> 0 then False
      else if b = 0 \<and> i > 0 \<and> allow_suffix
           then is_purely_ascii_loop (i + 1) data allow_suffix True
      else if b < 32 \<or> b > 126 then False
      else is_purely_ascii_loop (i + 1) data allow_suffix tracking_suffix)"

definition is_purely_ascii :: "u8 list \<Rightarrow> bool \<Rightarrow> bool" where
  "is_purely_ascii data allow_suffix = is_purely_ascii_loop 0 data allow_suffix False"

section \<open>What they compute\<close>

lemma read_unsigned64_prefix:
  assumes "8 \<le> length src" and "i \<le> 8"
  shows "foldl (\<lambda>value i. value OR push_bit (8 * 8 - i * 8 - 8) (ucast (src ! i))) 0 [0..<i] =
     push_bit (64 - 8 * i) (of_nat (be_val (take i src)) :: u64)"
  using assms(2)
proof (induction i)
  case 0
  show ?case by simp
next
  case (Suc i)
  let ?x = "of_nat (be_val (take i src)) :: u64"
  have t: "take (Suc i) src = take i src @ [src ! i]"
    using Suc.prems assms(1) by (simp add: take_Suc_conv_app_nth)
  have "push_bit (64 - 8 * i) ?x = push_bit (56 - 8 * i) (push_bit 8 ?x)"
    using Suc.prems by (simp add: push_bit_push_bit)
  then have "push_bit (64 - 8 * i) ?x OR push_bit (56 - 8 * i) (ucast (src ! i)) =
      push_bit (56 - 8 * i) (256 * ?x + ucast (src ! i))"
    by (simp only: shift_or_byte flip: push_bit_or)
  with Suc t show ?case by (simp add: mult.commute [of i 8])
qed

lemma read_unsigned64_be:
  assumes "8 \<le> length src"
  shows "read_unsigned64 src = Some (of_nat (be_val (take 8 src)))"
  using read_unsigned64_prefix [OF assms, of 8] assms by (simp add: read_unsigned64_def)

lemma of_char_of_u8: "of_char (char_of_u8 b) = unat b"
  by (simp add: char_of_u8_def)

lemma inj_char_of_u8: "char_of_u8 b = char_of_u8 c \<longleftrightarrow> b = c"
  by (metis of_char_of_u8 unat_eqI)

lemma char_of_u8_0 [simp]: "char_of_u8 0 = NUL"
  by (simp add: char_of_u8_def char_of_def)

lemma char_of_u8_eq_NUL [simp]: "char_of_u8 b = NUL \<longleftrightarrow> b = 0"
  using inj_char_of_u8 [of b 0] by simp

lemma NUL_eq_char_of_u8 [simp]: "NUL = char_of_u8 b \<longleftrightarrow> b = 0"
  using char_of_u8_eq_NUL [of b] by metis

text \<open>The hexadecimal text of bytes, two digits each (specification), and how it reads back.\<close>

definition hex_text :: "u8 list \<Rightarrow> string" where
  "hex_text bs = concat (map (\<lambda>b. [hex (drop_bit 4 b), hex (b AND 0xf)]) bs)"

definition hex_val :: "char \<Rightarrow> nat" where
  "hex_val c = (if of_char c < (97 :: nat) then of_char c - 48 else of_char c - 87)"

fun read_hex_text :: "string \<Rightarrow> u8 list" where
  "read_hex_text (a # b # s) = of_nat (16 * hex_val a + hex_val b) # read_hex_text s"
| "read_hex_text _ = []"

lemma hex_val_hex: "n < 16 \<Longrightarrow> hex_val (hex n) = unat n"
proof -
  assume "n < 16"
  then have n: "unat n < 16" by (simp add: word_less_nat_alt)
  have ge: "n \<ge> 10 \<longleftrightarrow> unat n \<ge> 10" by (simp add: word_le_nat_alt)
  from n show ?thesis unfolding hex_def hex_val_def ge by auto
qed

lemma hex_nibbles:
  "drop_bit 4 b < (16 :: u8)" "b AND 0xf < (16 :: u8)"
  "16 * unat (drop_bit 4 b) + unat (b AND 0xf) = unat b"
proof -
  have d: "unat (drop_bit 4 b) = unat b div 16"
    by (simp add: drop_bit_eq_div unat_div)
  have m: "b AND 0xf = take_bit 4 b"
    by (simp add: take_bit_eq_mask mask_eq_exp_minus_1)
  have m': "unat (b AND 0xf) = unat b mod 16"
    by (simp only: m take_bit_eq_mod) (simp add: unat_mod)
  show "drop_bit 4 b < (16 :: u8)"
    using less_mult_imp_div_less [of "unat b" 16 16] by (simp add: word_less_nat_alt d)
  show "b AND 0xf < (16 :: u8)" by (simp add: word_less_nat_alt m')
  show "16 * unat (drop_bit 4 b) + unat (b AND 0xf) = unat b" by (simp add: d m')
qed

lemma read_hex_text_hex [simp]: "read_hex_text (hex_text bs) = bs"
proof (induction bs)
  case (Cons b bs)
  have "of_nat (16 * unat (drop_bit 4 b) + unat (b AND 0xf)) = b"
    unfolding hex_nibbles(3) by simp
  with Cons show ?case by (simp add: hex_text_def hex_val_hex hex_nibbles(1,2))
qed (simp add: hex_text_def)

lemma length_hex_text [simp]: "length (hex_text bs) = 2 * length bs"
  by (induction bs) (simp_all add: hex_text_def)

lemma hex_text_snoc: "hex_text (bs @ [b]) = hex_text bs @ [hex (drop_bit 4 b), hex (b AND 0xf)]"
  by (simp add: hex_text_def)

lemma hex_not_NUL: "n < 16 \<Longrightarrow> hex n \<noteq> NUL"
proof -
  assume "n < 16"
  then have n: "unat n < 16" by (simp add: word_less_nat_alt)
  have "of_char (hex n) \<noteq> (0 :: nat)"
    unfolding hex_def using n by auto
  then show ?thesis by auto
qed

lemma NUL_notin_hex_text [simp]: "NUL \<notin> set (hex_text bs)"
  using hex_not_NUL hex_nibbles(1,2) by (fastforce simp: hex_text_def)

lemma read_hex_loop_spec:
  assumes "n \<le> length src" and "m \<le> length dst" and "i \<le> min n (m div 2)"
  shows "read_hex_loop i (hex_text (take i src) @ drop (2 * i) dst) m src n =
     Some (min n (m div 2), hex_text (take (min n (m div 2)) src) @ drop (2 * min n (m div 2)) dst)"
  using assms(3)
proof (induction "min n (m div 2) - i" arbitrary: i)
  case 0
  then have "i = min n (m div 2)" by simp
  moreover from this have "\<not> (i < n \<and> i * 2 + 1 < m)" by auto
  ultimately show ?case by (subst read_hex_loop.simps) (simp only: if_False)
next
  case (Suc k)
  let ?b = "src ! i"
  let ?d = "hex_text (take i src) @ drop (2 * i) dst"
  have i: "i < n" "i * 2 + 1 < m" using Suc.hyps(2) by auto
  have t: "take (Suc i) src = take i src @ [?b]" using i assms(1) by (simp add: take_Suc_conv_app_nth)
  have l: "length (take i src) = i" using i assms(1) by simp
  have peek: "peek src i 1 = Some [?b]"
    using i assms(1) by (simp add: take_Suc hd_drop_conv_nth)
  have poke: "poke ?d (i * 2) [hex (drop_bit 4 ?b), hex (?b AND 0xf)] =
      Some (hex_text (take (Suc i) src) @ drop (2 * Suc i) dst)"
    using i assms(1,2) l by (simp add: poke_def t hex_text_snoc mult.commute)
  have "read_hex_loop i ?d m src n =
      read_hex_loop (Suc i) (hex_text (take (Suc i) src) @ drop (2 * Suc i) dst) m src n"
    using i by (subst read_hex_loop.simps) (simp only: peek poke Option.bind.bind_lunit list.sel if_True simp_thms Suc_eq_plus1)
  moreover have "k = min n (m div 2) - Suc i" "Suc i \<le> min n (m div 2)" using Suc.hyps(2) by auto
  ultimately show ?case using Suc.hyps(1) [of "Suc i"] by simp
qed

lemma read_hex_spec:
  assumes "n \<le> length src" and "m \<le> length dst"
  shows "read_hex dst m src n =
     Some (n \<le> m div 2, hex_text (take (min n (m div 2)) src) @ drop (2 * min n (m div 2)) dst)"
  using read_hex_loop_spec [OF assms, of 0]
  by (auto simp: read_hex_def hex_text_def min_def)

lemma is_purely_ascii_no_suffix:
  "is_purely_ascii data False \<longleftrightarrow> (\<forall>b \<in> set data. 32 \<le> b \<and> b \<le> 126)"
proof -
  have "is_purely_ascii_loop i data False False \<longleftrightarrow> (\<forall>b \<in> set data. 32 \<le> b \<and> b \<le> 126)" for i
    by (induction data arbitrary: i) (auto simp: not_less)
  then show ?thesis by (simp add: is_purely_ascii_def)
qed

lemma ascii_suffix:
  "0 < i \<Longrightarrow> is_purely_ascii_loop i data True True \<Longrightarrow> data = replicate (length data) 0"
  by (induction data arbitrary: i) (auto split: if_splits)

lemma ascii_then_zeros:
  assumes "0 < i" and "is_purely_ascii_loop i data True False"
  shows "\<exists>a k. data = a @ replicate k 0 \<and> (\<forall>b \<in> set a. 32 \<le> b \<and> b \<le> 126)"
  using assms
proof (induction data arbitrary: i)
  case (Cons b data)
  show ?case
  proof (cases "b = 0")
    case True
    with Cons.prems have "data = replicate (length data) 0"
      by (intro ascii_suffix [of "i + 1"]) simp_all
    with True show ?thesis
      by (intro exI [of _ "[]"] exI [of _ "Suc (length data)"]) simp
  next
    case False
    with Cons.prems have "32 \<le> b" "b \<le> 126" "is_purely_ascii_loop (i + 1) data True False"
      by (simp_all add: not_less split: if_splits)
    with Cons.IH [of "i + 1"] obtain a k where "data = a @ replicate k 0"
      "\<forall>b \<in> set a. 32 \<le> b \<and> b \<le> 126" by auto
    with \<open>32 \<le> b\<close> \<open>b \<le> 126\<close> show ?thesis
      by (intro exI [of _ "b # a"] exI [of _ k]) simp
  qed
qed auto

text \<open>With a suffix allowed: printable characters, at least one, then zeros.\<close>

lemma is_purely_ascii_suffix:
  assumes "is_purely_ascii data True" and "data \<noteq> []"
  obtains a k where "data = a @ replicate k 0" and "a \<noteq> []" and "\<forall>b \<in> set a. 32 \<le> b \<and> b \<le> 126"
proof -
  obtain b rest where d: "data = b # rest" using assms(2) by (cases data) auto
  with assms(1) have b: "32 \<le> b" "b \<le> 126" "is_purely_ascii_loop 1 rest True False"
    by (simp_all add: is_purely_ascii_def not_less split: if_splits)
  from ascii_then_zeros [OF _ b(3)] obtain a k where "rest = a @ replicate k 0"
    "\<forall>b \<in> set a. 32 \<le> b \<and> b \<le> 126" by auto
  with b d that [of "b # a" k] show ?thesis by simp
qed

lemma NUL_notin_printable: "\<forall>b \<in> set a. 32 \<le> b \<and> b \<le> 126 \<Longrightarrow> NUL \<notin> set (map char_of_u8 a)"
  by auto

end
