(* ===== verification/Currency.thy ===== *)
theory Currency
  imports Readers
begin

text \<open>
  The currency codes of \<open>src/src/xrp/amount.c\<close>: 20 bytes that are all zero (XRP), a standard
  code (three characters at 12..14, zero elsewhere) or anything else (non-standard). The
  functions read exactly \<open>XRP_CURRENCY_SIZE\<close> bytes through their pointer; the argument here is
  the list of those bytes, which the callers fetch from memory.
\<close>

abbreviation (input) XRP_CURRENCY_TICKER_START :: nat where "XRP_CURRENCY_TICKER_START \<equiv> 12"
abbreviation (input) XRP_CURRENCY_TICKER_END :: nat where "XRP_CURRENCY_TICKER_END \<equiv> 14"

text \<open>The lengths of the two kinds of amount.\<close>

abbreviation (input) XRP_AMOUNT_LEN :: nat where "XRP_AMOUNT_LEN \<equiv> 8"
abbreviation (input) ISSUED_CURRENCY_LEN :: nat where "ISSUED_CURRENCY_LEN \<equiv> 48"

definition is_all_zeros :: "u8 list \<Rightarrow> bool" where
  "is_all_zeros data \<longleftrightarrow> list_all (\<lambda>b. b = 0) data"

text \<open>The byte of a character literal.\<close>

abbreviation (input) chr8 :: "char \<Rightarrow> u8" where "chr8 c \<equiv> of_char c"

definition is_valid_ticker_char :: "u8 \<Rightarrow> bool" where
  "is_valid_ticker_char c \<longleftrightarrow>
     (c \<ge> chr8 CHR ''A'' \<and> c \<le> chr8 CHR ''Z'') \<or> (c \<ge> chr8 CHR ''a'' \<and> c \<le> chr8 CHR ''z'') \<or>
     (c \<ge> chr8 CHR ''0'' \<and> c \<le> chr8 CHR ''9'') \<or> c = chr8 CHR ''?'' \<or> c = chr8 CHR ''!'' \<or>
     c = chr8 CHR ''@'' \<or> c = chr8 CHR ''#'' \<or> c = chr8 CHR ''$'' \<or> c = chr8 CHR ''%'' \<or>
     c = chr8 CHR ''^'' \<or> c = chr8 CHR ''&'' \<or> c = chr8 CHR ''*'' \<or> c = chr8 CHR ''<'' \<or>
     c = chr8 CHR ''>'' \<or> c = chr8 CHR ''('' \<or> c = chr8 CHR '')'' \<or> c = chr8 CHR ''{'' \<or>
     c = chr8 CHR ''}'' \<or> c = chr8 CHR ''['' \<or> c = chr8 CHR '']'' \<or> c = chr8 CHR ''|''"

text \<open>The test both functions make for the reserved ticker.\<close>

definition has_XRP_ticker :: "u8 list \<Rightarrow> bool" where
  "has_XRP_ticker currency_data \<longleftrightarrow>
     currency_data ! XRP_CURRENCY_TICKER_START = chr8 CHR ''X'' \<and>
     currency_data ! (XRP_CURRENCY_TICKER_START + 1) = chr8 CHR ''R'' \<and>
     currency_data ! XRP_CURRENCY_TICKER_END = chr8 CHR ''P''"

definition is_standard_currency_code :: "u8 list \<Rightarrow> bool" where
  "is_standard_currency_code currency_data \<longleftrightarrow>
     list_all (\<lambda>i. if i \<ge> XRP_CURRENCY_TICKER_START \<and> i \<le> XRP_CURRENCY_TICKER_END
                   then is_valid_ticker_char (currency_data ! i)
                   else currency_data ! i = 0) [0..<XRP_CURRENCY_SIZE] \<and>
     \<not> has_XRP_ticker currency_data"

definition is_valid_currency :: "u8 list \<Rightarrow> bool" where
  "is_valid_currency currency_data \<longleftrightarrow>
     is_all_zeros currency_data \<or>
     (let standard_structure =
        list_all (\<lambda>i. (i \<ge> XRP_CURRENCY_TICKER_START \<and> i \<le> XRP_CURRENCY_TICKER_END) \<or>
                      currency_data ! i = 0) [0..<XRP_CURRENCY_SIZE]
      in \<not> (standard_structure \<and> has_XRP_ticker currency_data))"

definition has_non_standard_currency_internal :: "u8 list \<Rightarrow> bool" where
  "has_non_standard_currency_internal currency_data \<longleftrightarrow>
     \<not> is_standard_currency_code currency_data \<and> \<not> is_all_zeros currency_data"

section \<open>The three forms\<close>

text \<open>The 20 bytes of a standard code with ticker \<open>a b c\<close>.\<close>

definition standard_code :: "u8 \<Rightarrow> u8 \<Rightarrow> u8 \<Rightarrow> u8 list" where
  "standard_code a b c = replicate 12 0 @ [a, b, c] @ replicate 5 0"

lemma length_standard_code [simp]: "length (standard_code a b c) = 20"
  by (simp add: standard_code_def)

lemma nth_standard_code:
  "i < 20 \<Longrightarrow> standard_code a b c ! i =
     (if i = 12 then a else if i = 13 then b else if i = 14 then c else 0)"
  by (auto simp: standard_code_def nth_append nth_Cons')

lemma standard_structure_iff:
  assumes "length d = 20"
  shows "(\<forall>i < 20. (12 \<le> i \<and> i \<le> 14) \<or> d ! i = 0) \<longleftrightarrow> d = standard_code (d ! 12) (d ! 13) (d ! 14)"
proof
  assume z: "\<forall>i < 20. (12 \<le> i \<and> i \<le> 14) \<or> d ! i = 0"
  show "d = standard_code (d ! 12) (d ! 13) (d ! 14)"
  proof (rule nth_equalityI)
    fix i assume "i < length d"
    with assms have i: "i < 20" by simp
    then consider "i = 12" | "i = 13" | "i = 14" | "\<not> (12 \<le> i \<and> i \<le> 14)" by linarith
    with z i show "d ! i = standard_code (d ! 12) (d ! 13) (d ! 14) ! i"
      by cases (auto simp: nth_standard_code)
  qed (simp add: assms)
next
  assume d: "d = standard_code (d ! 12) (d ! 13) (d ! 14)"
  have "standard_code a b c ! i = 0" if "i < 20" "\<not> (12 \<le> i \<and> i \<le> 14)" for a b c i
    using that by (auto simp: nth_standard_code)
  with d show "\<forall>i < 20. (12 \<le> i \<and> i \<le> 14) \<or> d ! i = 0" by metis
qed

lemma has_XRP_ticker_standard [simp]:
  "has_XRP_ticker (standard_code a b c) \<longleftrightarrow> a = 0x58 \<and> b = 0x52 \<and> c = 0x50"
  by (simp add: has_XRP_ticker_def nth_standard_code of_char_def)

lemma standard_code_inject [simp]:
  "standard_code a b c = standard_code a' b' c' \<longleftrightarrow> a = a' \<and> b = b' \<and> c = c'"
  by (simp add: standard_code_def)

lemma is_all_zeros_standard_code [simp]:
  "is_all_zeros (standard_code a b c) \<longleftrightarrow> a = 0 \<and> b = 0 \<and> c = 0"
  by (simp add: is_all_zeros_def standard_code_def list_all_iff)

lemma is_all_zeros_iff: "is_all_zeros d \<longleftrightarrow> d = replicate (length d) 0"
  by (simp add: is_all_zeros_def list_all_iff) (metis in_set_replicate replicate_length_same)

lemma is_valid_currency_iff:
  assumes "length d = 20"
  shows "is_valid_currency d \<longleftrightarrow> d \<noteq> standard_code 0x58 0x52 0x50"
proof -
  have s: "list_all (\<lambda>i. (12 \<le> i \<and> i \<le> 14) \<or> d ! i = 0) [0..<20] \<longleftrightarrow>
      d = standard_code (d ! 12) (d ! 13) (d ! 14)"
    using standard_structure_iff [OF assms] by (auto simp: list_all_iff)
  have t: "has_XRP_ticker d \<longleftrightarrow> d ! 12 = 0x58 \<and> d ! 13 = 0x52 \<and> d ! 14 = 0x50"
    by (simp add: has_XRP_ticker_def of_char_def)
  show ?thesis
    unfolding is_valid_currency_def Let_def s
    by (auto simp: t nth_standard_code)
qed

lemma not_valid_ticker_char_0 [simp]: "\<not> is_valid_ticker_char 0"
  by code_simp

lemma is_standard_currency_code_iff:
  assumes "length d = 20"
  shows "is_standard_currency_code d \<longleftrightarrow>
     (\<exists>a b c. d = standard_code a b c \<and> is_valid_ticker_char a \<and> is_valid_ticker_char b \<and>
        is_valid_ticker_char c) \<and> d \<noteq> standard_code 0x58 0x52 0x50"
proof
  assume s: "is_standard_currency_code d"
  then have all: "\<forall>i < 20. if 12 \<le> i \<and> i \<le> 14 then is_valid_ticker_char (d ! i) else d ! i = 0"
    and nt: "\<not> has_XRP_ticker d"
    by (simp_all add: is_standard_currency_code_def list_all_iff)
  from all have "\<forall>i < 20. (12 \<le> i \<and> i \<le> 14) \<or> d ! i = 0"
    by (meson)
  then have "d = standard_code (d ! 12) (d ! 13) (d ! 14)"
    using standard_structure_iff [OF assms] by blast
  moreover have "is_valid_ticker_char (d ! 12)" "is_valid_ticker_char (d ! 13)"
    "is_valid_ticker_char (d ! 14)"
    using all by (auto dest: spec [of _ 12] spec [of _ 13] spec [of _ 14])
  ultimately show "(\<exists>a b c. d = standard_code a b c \<and> is_valid_ticker_char a \<and>
      is_valid_ticker_char b \<and> is_valid_ticker_char c) \<and> d \<noteq> standard_code 0x58 0x52 0x50"
    using nt has_XRP_ticker_standard by metis
next
  assume "(\<exists>a b c. d = standard_code a b c \<and> is_valid_ticker_char a \<and>
      is_valid_ticker_char b \<and> is_valid_ticker_char c) \<and> d \<noteq> standard_code 0x58 0x52 0x50"
  then obtain a b c where d: "d = standard_code a b c" and "is_valid_ticker_char a"
    "is_valid_ticker_char b" "is_valid_ticker_char c" "\<not> has_XRP_ticker d"
    by auto
  then show "is_standard_currency_code d"
    by (auto simp: is_standard_currency_code_def list_all_iff nth_standard_code)
qed

end
