(* ===== verification/Parser.thy ===== *)
theory Parser
  imports Field_Sort Currency
begin

text \<open>
  \<open>src/src/xrp/xrp_parse.c\<close>: the parser of a serialized transaction. The context
  (\<open>parseContext_t\<close>) holds the bytes, the read position, the array of fields found so far and
  where in arrays, objects and path sets the parser is. A \<open>field_t *\<close> is the index of its slot
  in the field array; a pointer into the transaction is an index in \<open>data\<close>. Every operation is a
  computation over the context with the code's error codes; the mutations made before an error
  stay, as in the code, since a transaction that needs blind signing is still reviewed.

  \<open>BAD_ACCESS\<close> is no error code of the program: it marks an access outside the transaction's
  bytes or the field array, or a read of the wrong member of a field's union, where C has no
  meaning. The theory \<open>Parser_Safety\<close> proves that it never occurs.
\<close>

section \<open>State\<close>

datatype exc =
    EXCEPTION_OVERFLOW
  | NOT_SUPPORTED
  | INVALID_STATE
  | NOT_ENOUGH_SPACE
  | BLIND_SIGN_REQUIRED
  | BAD_ACCESS

record parseContext_t =
  transaction_type :: u16
  has_empty_pub_key :: bool
  data :: "u8 list"
  ctx_length :: u32
  offset :: u32
  result :: parseResult_t
  current_array :: u8
  array_index1 :: u8
  array_index2 :: u8
  ctx_object_depth :: u8

type_synonym 'a parse = "(exc, parseContext_t, 'a) comp"

section \<open>Memory of the context\<close>

definition mem :: "nat \<Rightarrow> nat \<Rightarrow> u8 list parse" where
  "mem p n = (\<lambda>c. case peek (data c) p n of
     Some bs \<Rightarrow> (Inr bs, c) | None \<Rightarrow> (Inl BAD_ACCESS, c))"

definition get_field :: "nat \<Rightarrow> field_t parse" where
  "get_field i = (\<lambda>c. if i < length (res_fields (result c))
     then (Inr (res_fields (result c) ! i), c) else (Inl BAD_ACCESS, c))"

definition set_fields :: "(parseResult_t \<Rightarrow> parseResult_t) \<Rightarrow> parseContext_t \<Rightarrow> parseContext_t" where
  "set_fields f c = c\<lparr>result := f (result c)\<rparr>"

definition upd_field :: "nat \<Rightarrow> (field_t \<Rightarrow> field_t) \<Rightarrow> unit parse" where
  "upd_field i f = (\<lambda>c. if i < length (res_fields (result c))
     then (Inr (), set_fields (\<lambda>r. r\<lparr>res_fields := (res_fields r)[i := f (res_fields r ! i)]\<rparr>) c)
     else (Inl BAD_ACCESS, c))"

text \<open>\<open>field->data.ptr\<close> and the other members of the union.\<close>

definition from_union :: "'a option \<Rightarrow> 'a parse" where
  "from_union x = (case x of Some v \<Rightarrow> return v | None \<Rightarrow> throw BAD_ACCESS)"

definition field_ptr :: "nat \<Rightarrow> nat parse" where
  "field_ptr i = CHECK (get_field i) (\<lambda>f. from_union (data_ptr (fdata f)))"

section \<open>Reading bytes\<close>

definition has_data :: "parseContext_t \<Rightarrow> u32 \<Rightarrow> bool" where
  "has_data context num_bytes \<longleftrightarrow> offset context + num_bytes - 1 < ctx_length context"

definition current_position :: "parseContext_t \<Rightarrow> nat" where
  "current_position context = unat (offset context)"

definition advance_position :: "u32 \<Rightarrow> unit parse" where
  "advance_position num_bytes =
     CHECK (gets (\<lambda>c. has_data c num_bytes)) (\<lambda>b.
     if b then modify (\<lambda>c. c\<lparr>offset := offset c + num_bytes\<rparr>)
     else throw EXCEPTION_OVERFLOW)"

definition peak_next_byte :: "u8 parse" where
  "peak_next_byte =
     CHECK (gets (\<lambda>c. has_data c 1)) (\<lambda>b.
     if b then CHECK (gets current_position) (\<lambda>p. CHECK (mem p 1) (\<lambda>bs. return (hd bs)))
     else throw EXCEPTION_OVERFLOW)"

definition read_next_byte :: "u8 parse" where
  "read_next_byte =
     CHECK (gets (\<lambda>c. has_data c 1)) (\<lambda>b.
     if b then
       CHECK (gets current_position) (\<lambda>p.
       CHECK (mem p 1) (\<lambda>bs.
       CHECK (advance_position 1) (\<lambda>_. return (hd bs))))
     else throw EXCEPTION_OVERFLOW)"

section \<open>The field array\<close>

definition append_array_info :: "nat \<Rightarrow> unit parse" where
  "append_array_info field =
     CHECK (gets (\<lambda>c. (current_array c, array_index1 c, array_index2 c))) (\<lambda>(a, i1, i2).
     if a \<noteq> 0
     then upd_field field (\<lambda>f. f\<lparr>array_info := \<lparr>ai_type = a, index1 = i1, index2 = i2\<rparr>\<rparr>)
     else return ())"

definition append_new_field :: "nat parse" where
  "append_new_field =
     CHECK (gets (\<lambda>c. num_fields (result c))) (\<lambda>n.
     if unat n \<ge> MAX_FIELD_COUNT then throw NOT_ENOUGH_SPACE
     else
       CHECK (modify (set_fields (\<lambda>r. r\<lparr>num_fields := num_fields r + 1\<rparr>))) (\<lambda>_.
       CHECK (append_array_info (unat n)) (\<lambda>_.
       CHECK (gets ctx_object_depth) (\<lambda>d.
       CHECK (upd_field (unat n) (\<lambda>f. f\<lparr>object_depth := d\<rparr>)) (\<lambda>_.
       return (unat n))))))"

definition remove_last_field :: "nat \<Rightarrow> unit parse" where
  "remove_last_field last_field =
     CHECK (gets (\<lambda>c. num_fields (result c))) (\<lambda>n.
     if n = 0 then throw INVALID_STATE
     else if unat n - 1 \<noteq> last_field then throw INVALID_STATE
     else
       CHECK (upd_field last_field (\<lambda>_. zero_field)) (\<lambda>_.
       modify (set_fields (\<lambda>r. r\<lparr>num_fields := num_fields r - 1\<rparr>))))"

section \<open>Field values\<close>

definition read_fixed_size_field :: "nat \<Rightarrow> u16 \<Rightarrow> unit parse" where
  "read_fixed_size_field field len =
     CHECK (gets current_position) (\<lambda>p.
     CHECK (upd_field field (\<lambda>f. f\<lparr>fdata := DPtr p, fld_length := len\<rparr>)) (\<lambda>_.
     advance_position (ucast len)))"

definition read_vl_length :: "u16 parse" where
  "read_vl_length =
     CHECK read_next_byte (\<lambda>value.
     let data_length = ucast value :: u16 in
     if data_length > 192 then
       if data_length > 240 then throw INVALID_STATE
       else CHECK read_next_byte (\<lambda>length_byte2.
         return (193 + (data_length - 193) * 256 + ucast length_byte2))
     else return data_length)"

definition read_variable_length_field :: "nat \<Rightarrow> unit parse" where
  "read_variable_length_field field =
     CHECK read_vl_length (\<lambda>data_length. read_fixed_size_field field data_length)"


text \<open>A field the parser makes itself: its type, id, place in the bytes and length.\<close>

definition make_field :: "nat \<Rightarrow> u8 \<Rightarrow> u8 \<Rightarrow> nat \<Rightarrow> nat \<Rightarrow> unit parse" where
  "make_field n t i p len =
     upd_field n (\<lambda>f. f\<lparr>data_type := t, fld_id := i, fdata := DPtr p, fld_length := of_nat len\<rparr>)"

definition has_non_standard_currency :: "nat \<Rightarrow> bool parse" where
  "has_non_standard_currency field =
     CHECK (field_ptr field) (\<lambda>p.
     CHECK (mem (p + 8) XRP_CURRENCY_SIZE) (\<lambda>cur.
     return (has_non_standard_currency_internal cur)))"

text \<open>
  The rest of an issued amount at \<open>p\<close>: the currency is checked, and a non-standard currency and
  the issuer become fields of their own.
\<close>

definition append_issued_fields :: "nat \<Rightarrow> nat \<Rightarrow> unit parse" where
  "append_issued_fields field p =
     CHECK (mem (p + 8) XRP_CURRENCY_SIZE) (\<lambda>cur.
     if is_all_zeros cur \<or> \<not> is_valid_currency cur then throw INVALID_STATE
     else
       CHECK (has_non_standard_currency field) (\<lambda>non_standard.
       CHECK (if non_standard
              then CHECK append_new_field (\<lambda>currency.
                make_field currency STI_CURRENCY XRP_CURRENCY_CURRENCY (p + 8) XRP_CURRENCY_SIZE)
              else return ()) (\<lambda>_.
       CHECK append_new_field (\<lambda>issuer.
       make_field issuer STI_ACCOUNT XRP_ACCOUNT_ISSUER (p + 28) XRP_ACCOUNT_SIZE))))"

definition read_amount :: "nat \<Rightarrow> unit parse" where
  "read_amount field =
     CHECK peak_next_byte (\<lambda>first_byte.
     if drop_bit 7 first_byte = 0 then read_fixed_size_field field (of_nat XRP_AMOUNT_LEN)
     else
       CHECK (read_fixed_size_field field (of_nat ISSUED_CURRENCY_LEN)) (\<lambda>_.
       CHECK (field_ptr field) (\<lambda>p. append_issued_fields field p)))"

text \<open>The loop of \<open>read_vector256_field\<close>: entry \<open>i\<close> is next, \<open>left\<close> entries to go.\<close>

primrec vector256_entries :: "nat \<Rightarrow> nat \<Rightarrow> nat \<Rightarrow> unit parse" where
  "vector256_entries field i 0 = return ()"
| "vector256_entries field i (Suc left) =
     CHECK append_new_field (\<lambda>hash256.
     CHECK (field_ptr field) (\<lambda>p.
     CHECK (make_field hash256 STI_HASH256 XRP_HASH256_NFTOKEN_OFFER
              (p + i * XRP_VECTOR256_SIZE) XRP_VECTOR256_SIZE) (\<lambda>_.
     CHECK (get_field field) (\<lambda>f.
     CHECK (upd_field hash256 (\<lambda>h. h\<lparr>array_info := (array_info h)
              \<lparr>ai_type := fld_id f, index1 := of_nat (i + 1)\<rparr>\<rparr>)) (\<lambda>_.
     vector256_entries field (i + 1) left)))))"

definition read_vector256_field :: "nat \<Rightarrow> unit parse" where
  "read_vector256_field field =
     CHECK (upd_field field (\<lambda>f. f\<lparr>data_type := STI_VECTOR256\<rparr>)) (\<lambda>_.
     CHECK read_vl_length (\<lambda>data_length.
     if data_length mod of_nat XRP_VECTOR256_SIZE \<noteq> 0 then throw INVALID_STATE
     else
       let count = data_length div of_nat XRP_VECTOR256_SIZE in
       CHECK (gets (\<lambda>c. num_fields (result c))) (\<lambda>n.
       if int (unat count) > int MAX_FIELD_COUNT - int (unat n) then throw NOT_ENOUGH_SPACE
       else
         CHECK (read_fixed_size_field field data_length) (\<lambda>_.
         vector256_entries field 0 (unat count)))))"

definition read_issue :: "nat \<Rightarrow> unit parse" where
  "read_issue field =
     CHECK (gets (\<lambda>c. has_data c 20)) (\<lambda>b.
     if \<not> b then throw EXCEPTION_OVERFLOW
     else
       CHECK (gets current_position) (\<lambda>pos.
       CHECK (mem pos 20) (\<lambda>bs.
       if \<not> is_all_zeros bs then
         CHECK (read_fixed_size_field field (of_nat XRP_ISSUE_SIZE)) (\<lambda>_.
         CHECK append_new_field (\<lambda>issuer.
         CHECK (field_ptr field) (\<lambda>p.
         make_field issuer STI_ACCOUNT XRP_ACCOUNT_ISSUER (p + 20) XRP_ACCOUNT_SIZE)))
       else read_fixed_size_field field (of_nat XRP_CURRENCY_SIZE))))"

section \<open>Arrays, objects and path sets\<close>

definition handle_array_field :: "nat \<Rightarrow> unit parse" where
  "handle_array_field field =
     CHECK (get_field field) (\<lambda>f.
     if fld_id f \<noteq> ARR_END
     then modify (\<lambda>c. c\<lparr>current_array := fld_id f, array_index1 := 0, array_index2 := 0\<rparr>)
     else modify (\<lambda>c. c\<lparr>current_array := ARRAY_NONE\<rparr>))"

definition handle_object_field :: "nat \<Rightarrow> unit parse" where
  "handle_object_field field =
     CHECK (get_field field) (\<lambda>f.
     if fld_id f \<noteq> OBJ_END then
       CHECK (modify (\<lambda>c. c\<lparr>array_index1 := array_index1 c + 1,
                           ctx_object_depth := ctx_object_depth c + 1\<rparr>)) (\<lambda>_.
       CHECK (gets array_index1) (\<lambda>i1.
       if i1 > MAX_ARRAY_LEN then throw NOT_SUPPORTED else return ()))
     else
       modify (\<lambda>c. if ctx_object_depth c > 0
         then c\<lparr>ctx_object_depth := ctx_object_depth c - 1\<rparr> else c))"

text \<open>A step with currency and issuer (\<open>0x30\<close>) calls itself once, for an issuer step.\<close>

function handle_path_step :: "nat \<Rightarrow> u8 \<Rightarrow> unit parse" where
  "handle_path_step field step_type =
     CHECK (read_fixed_size_field field 20) (\<lambda>_.
     if step_type = 0x01 then
       upd_field field (\<lambda>f. f\<lparr>data_type := STI_ACCOUNT, fld_id := XRP_ACCOUNT_ACCOUNT\<rparr>)
     else if step_type = 0x20 then
       upd_field field (\<lambda>f. f\<lparr>data_type := STI_ACCOUNT, fld_id := XRP_ACCOUNT_ISSUER\<rparr>)
     else if step_type = 0x30 then
       CHECK append_new_field (\<lambda>new_field.
       CHECK (handle_path_step new_field 0x20) (\<lambda>_.
       upd_field field (\<lambda>f. f\<lparr>data_type := STI_CURRENCY, fld_id := XRP_CURRENCY_CURRENCY\<rparr>)))
     else if step_type = 0x10 then
       upd_field field (\<lambda>f. f\<lparr>data_type := STI_CURRENCY, fld_id := XRP_CURRENCY_CURRENCY\<rparr>)
     else throw INVALID_STATE)"
  by pat_completeness auto
termination
  by (relation "measure (\<lambda>(_, s). if s = 0x30 then 1 else 0)") auto

declare handle_path_step.simps [simp del]

definition handle_path_field :: "nat \<Rightarrow> unit parse" where
  "handle_path_field field =
     CHECK (upd_field field (\<lambda>f. f\<lparr>data_type := STI_PATHSET\<rparr>)) (\<lambda>_.
     CHECK read_next_byte (\<lambda>current_step.
     if current_step = PATHSET_NEXT then
       CHECK (modify (\<lambda>c. c\<lparr>array_index1 := array_index1 c + 1, array_index2 := 1\<rparr>)) (\<lambda>_.
       CHECK (gets array_index1) (\<lambda>i1.
       if i1 > MAX_PATH_COUNT then throw INVALID_STATE else return ()))
     else if current_step = PATHSET_END then
       modify (\<lambda>c. c\<lparr>current_array := ARRAY_NONE\<rparr>)
     else
       CHECK (gets array_index2) (\<lambda>i2.
       if i2 > MAX_STEP_COUNT then throw INVALID_STATE
       else
         CHECK (handle_path_step field current_step) (\<lambda>_.
         modify (\<lambda>c. c\<lparr>array_index2 := array_index2 c + 1\<rparr>)))))"

definition handle_path_set_field :: "unit parse" where
  "handle_path_set_field =
     modify (\<lambda>c. c\<lparr>current_array := ARRAY_PATHSET, array_index1 := 1, array_index2 := 1\<rparr>)"

section \<open>One field\<close>

definition read_field_value :: "nat \<Rightarrow> unit parse" where
  "read_field_value field =
     CHECK (get_field field) (\<lambda>f.
     let t = data_type f in
     if t = STI_UINT8 then
       CHECK (read_fixed_size_field field 1) (\<lambda>_.
       CHECK (field_ptr field) (\<lambda>p.
       CHECK (mem p 1) (\<lambda>bs.
       upd_field field (\<lambda>f. f\<lparr>fdata := DU8 (bs ! 0)\<rparr>))))
     else if t = STI_UINT16 then
       CHECK (read_fixed_size_field field 2) (\<lambda>_.
       CHECK (field_ptr field) (\<lambda>p.
       CHECK (mem p 2) (\<lambda>bs.
       upd_field field (\<lambda>f. f\<lparr>fdata :=
         DU16 (ucast (bs ! 1) OR push_bit 8 (ucast (bs ! 0)))\<rparr>))))
     else if t = STI_UINT32 then
       CHECK (read_fixed_size_field field 4) (\<lambda>_.
       CHECK (field_ptr field) (\<lambda>p.
       CHECK (mem p 4) (\<lambda>bs.
       upd_field field (\<lambda>f. f\<lparr>fdata :=
         DU32 (ucast (bs ! 3) OR push_bit 8 (ucast (bs ! 2)) OR
               push_bit 16 (ucast (bs ! 1)) OR push_bit 24 (ucast (bs ! 0)))\<rparr>))))
     else if t = STI_HASH128 then read_fixed_size_field field 16
     else if t = STI_HASH256 then read_fixed_size_field field 32
     else if t = STI_AMOUNT then read_amount field
     else if t = STI_VL \<or> t = STI_ACCOUNT then read_variable_length_field field
     else if t = STI_VECTOR256 then read_vector256_field field
     else if t = STI_ARRAY then handle_array_field field
     else if t = STI_OBJECT then handle_object_field field
     else if t = STI_PATHSET then handle_path_set_field
     else if t = STI_ISSUE then read_issue field
     else throw NOT_SUPPORTED)"

text \<open>The field code: read from its own byte, or the low half of the first one.\<close>

definition read_field_code :: "nat \<Rightarrow> u8 \<Rightarrow> bool \<Rightarrow> unit parse" where
  "read_field_code field first_byte own_byte =
     (if own_byte
      then CHECK read_next_byte (\<lambda>b. upd_field field (\<lambda>f. f\<lparr>fld_id := b\<rparr>))
      else upd_field field (\<lambda>f. f\<lparr>fld_id := first_byte AND 0x0f\<rparr>))"

definition read_field_header :: "nat \<Rightarrow> unit parse" where
  "read_field_header field =
     CHECK read_next_byte (\<lambda>first_byte.
     if drop_bit 4 first_byte = 0 then
       CHECK read_next_byte (\<lambda>t.
       CHECK (upd_field field (\<lambda>f. f\<lparr>data_type := t\<rparr>)) (\<lambda>_.
       read_field_code field first_byte (first_byte = 0)))
     else
       CHECK (upd_field field (\<lambda>f. f\<lparr>data_type := drop_bit 4 first_byte\<rparr>)) (\<lambda>_.
       read_field_code field first_byte (first_byte AND 0x0f = 0)))"

definition post_process_field :: "nat \<Rightarrow> unit parse" where
  "post_process_field field =
     CHECK (get_field field) (\<lambda>f.
     if data_type f = STI_UINT16 then
       if is_transaction_type_field f then
         CHECK (gets ctx_object_depth) (\<lambda>depth.
         CHECK (gets transaction_type) (\<lambda>tx.
         let is_top_level = ai_type (array_info f) = ARRAY_NONE \<and> depth = 0;
             is_first_occurrence = tx = TRANSACTION_INVALID in
         if is_top_level \<and> is_first_occurrence then
           CHECK (from_union (data_u16 (fdata f))) (\<lambda>v.
           modify (\<lambda>c. c\<lparr>transaction_type := v\<rparr>))
         else throw BLIND_SIGN_REQUIRED))
       else return ()
     else if data_type f = STI_UINT32 then return ()
     else if data_type f = STI_VL then
       modify (\<lambda>c. if fld_id f = XRP_VL_SIGNING_PUB_KEY \<and> fld_length f = 0 \<and>
           ai_type (array_info f) = ARRAY_NONE \<and> ctx_object_depth c = 0
         then c\<lparr>has_empty_pub_key := True\<rparr> else c)
     else if data_type f = STI_ACCOUNT then
       if fld_length f \<noteq> of_nat XRP_ACCOUNT_SIZE then throw INVALID_STATE else return ()
     else return ())"

definition read_field :: "nat \<Rightarrow> unit parse" where
  "read_field field =
     CHECK (gets current_array) (\<lambda>a.
     CHECK (if a = ARRAY_PATHSET then handle_path_field field
            else CHECK (read_field_header field) (\<lambda>_. read_field_value field)) (\<lambda>_.
     post_process_field field))"

section \<open>The whole transaction\<close>

definition has_field :: "parseContext_t \<Rightarrow> u8 \<Rightarrow> u8 \<Rightarrow> bool \<Rightarrow> bool" where
  "has_field context t i top_level_only \<longleftrightarrow>
     list_ex (\<lambda>field. (data_type field = t \<and> fld_id field = i) \<and>
       (if top_level_only then ai_type (array_info field) = ARRAY_NONE else True))
     (used_fields (result context))"

text \<open>
  The value of the top-level Flags field, if any, and whether there is a second one; the loop
  stops at the second. \<open>None\<close> is a field whose union holds no \<open>uint32_t\<close>.
\<close>

fun find_flags_loop :: "field_t list \<Rightarrow> u32 option \<Rightarrow> (u32 option \<times> bool) option" where
  "find_flags_loop [] found = Some (found, False)"
| "find_flags_loop (field # fs) found =
     (if data_type field = STI_UINT32 \<and> fld_id field = XRP_UINT32_FLAGS \<and>
         ai_type (array_info field) = ARRAY_NONE \<and> object_depth field = 0
      then (case found of
              Some v \<Rightarrow> Some (Some v, True)
            | None \<Rightarrow> Option.bind (data_u32 (fdata field)) (\<lambda>v. find_flags_loop fs (Some v)))
      else find_flags_loop fs found)"

definition find_top_level_flags_value :: "parseContext_t \<Rightarrow> (u32 option \<times> bool) option" where
  "find_top_level_flags_value context = find_flags_loop (used_fields (result context)) None"

definition is_supported_transaction_type :: "u16 \<Rightarrow> bool" where
  "is_supported_transaction_type t \<longleftrightarrow> t \<in> set
     [TRANSACTION_PAYMENT, TRANSACTION_ESCROW_CREATE, TRANSACTION_ESCROW_FINISH,
      TRANSACTION_ACCOUNT_SET, TRANSACTION_ESCROW_CANCEL, TRANSACTION_SET_REGULAR_KEY,
      TRANSACTION_OFFER_CREATE, TRANSACTION_OFFER_CANCEL, TRANSACTION_TICKET_CREATE,
      TRANSACTION_TICKET_CANCEL, TRANSACTION_SIGNER_LIST_SET,
      TRANSACTION_PAYMENT_CHANNEL_CREATE, TRANSACTION_PAYMENT_CHANNEL_FUND,
      TRANSACTION_PAYMENT_CHANNEL_CLAIM, TRANSACTION_CHECK_CREATE, TRANSACTION_CHECK_CASH,
      TRANSACTION_CHECK_CANCEL, TRANSACTION_DEPOSIT_PREAUTH, TRANSACTION_TRUST_SET,
      TRANSACTION_ACCOUNT_DELETE, TRANSACTION_NFTOKEN_MINT, TRANSACTION_NFTOKEN_BURN,
      TRANSACTION_NFTOKEN_CREATE_OFFER, TRANSACTION_NFTOKEN_CANCEL_OFFER,
      TRANSACTION_CLAWBACK, TRANSACTION_AMM_CREATE, TRANSACTION_AMM_DEPOSIT,
      TRANSACTION_AMM_WITHDRAW, TRANSACTION_AMM_VOTE, TRANSACTION_AMM_BID,
      TRANSACTION_AMM_DELETE]"

definition post_process_transaction :: "unit parse" where
  "post_process_transaction =
     CHECK (gets (\<lambda>c. transaction_type c = TRANSACTION_SET_REGULAR_KEY \<and>
                      \<not> has_field c STI_ACCOUNT 8 False)) (\<lambda>b.
     if b then
       CHECK append_new_field (\<lambda>field.
       upd_field field (\<lambda>f. f\<lparr>data_type := STI_ACCOUNT, fld_id := XRP_ACCOUNT_REGULAR_KEY,
                              fdata := DZero\<rparr>))
     else return ())"

text \<open>The body of the loop of \<open>parse_tx_internal\<close>.\<close>

definition parse_one_field :: "unit parse" where
  "parse_one_field =
     CHECK append_new_field (\<lambda>field.
     CHECK (read_field field) (\<lambda>_.
     CHECK (get_field field) (\<lambda>f.
     if is_field_hidden f then remove_last_field field else return ())))"

text \<open>The loop itself; \<open>None\<close> would be a parser that does not return.\<close>

partial_function (option) parse_loop ::
  "parseContext_t \<Rightarrow> ((exc + unit) \<times> parseContext_t) option" where
  "parse_loop context =
     (if offset context = ctx_length context then Some (Inr (), context)
      else if offset context > ctx_length context then Some (Inl EXCEPTION_OVERFLOW, context)
      else (case parse_one_field context of
              (Inl e, context') \<Rightarrow> Some (Inl e, context')
            | (Inr _, context') \<Rightarrow> parse_loop context'))"

definition sort_result :: "unit parse" where
  "sort_result = (\<lambda>c. case sort_fields (result c) of
     Some r \<Rightarrow> (Inr (), c\<lparr>result := r\<rparr>) | None \<Rightarrow> (Inl BAD_ACCESS, c))"

text \<open>The checks after the sort: transaction type, flags, known fields.\<close>

definition final_checks :: "unit parse" where
  "final_checks =
     CHECK (gets transaction_type) (\<lambda>tx.
     if tx = TRANSACTION_INVALID \<or> \<not> is_supported_transaction_type tx
     then throw BLIND_SIGN_REQUIRED
     else
       CHECK (gets find_top_level_flags_value) (\<lambda>found.
       CHECK (from_union found) (\<lambda>(flags_value, flags_duplicate).
       if flags_duplicate \<or>
          (case flags_value of Some v \<Rightarrow> has_unknown_flags tx v | None \<Rightarrow> False)
       then throw BLIND_SIGN_REQUIRED
       else
         CHECK (gets (\<lambda>c. list_all is_field_recognized (used_fields (result c)))) (\<lambda>known.
         if \<not> known then throw BLIND_SIGN_REQUIRED else return ()))))"

text \<open>What \<open>parse_tx_internal\<close> does after its loop.\<close>

definition finish_parse :: "unit parse" where
  "finish_parse =
     CHECK post_process_transaction (\<lambda>_.
     CHECK (gets (\<lambda>c. \<not> has_field c STI_UINT16 XRP_UINT16_TRANSACTION_TYPE True \<or>
                      \<not> has_field c STI_ACCOUNT XRP_ACCOUNT_ACCOUNT True)) (\<lambda>missing.
     if missing then throw NOT_SUPPORTED
     else CHECK sort_result (\<lambda>_. final_checks)))"

definition parse_tx_internal ::
  "parseContext_t \<Rightarrow> ((exc + unit) \<times> parseContext_t) option" where
  "parse_tx_internal context =
     Option.bind (parse_loop (context\<lparr>transaction_type := TRANSACTION_INVALID,
                                      has_empty_pub_key := False, ctx_object_depth := 0\<rparr>))
       (\<lambda>(r, context'). case r of
          Inl e \<Rightarrow> Some (Inl e, context')
        | Inr _ \<Rightarrow> Some (finish_parse context'))"

definition parse_tx :: "parseContext_t \<Rightarrow> ((exc + unit) \<times> parseContext_t) option" where
  "parse_tx context = parse_tx_internal context"

text \<open>
  The integer \<open>parse_tx\<close> returns for an error (the SDK's exception numbers, as in
  \<open>unit-tests/include/os.h\<close>, and \<open>globals.h\<close>). \<open>BAD_ACCESS\<close> has none.
\<close>

fun err_code :: "exc \<Rightarrow> nat option" where
  "err_code EXCEPTION_OVERFLOW = Some 3"
| "err_code NOT_SUPPORTED = Some 8"
| "err_code INVALID_STATE = Some 9"
| "err_code NOT_ENOUGH_SPACE = Some 19"
| "err_code BLIND_SIGN_REQUIRED = Some 20"
| "err_code BAD_ACCESS = None"

text \<open>A context as the app sets it up: cleared, with the received bytes.\<close>

definition zero_result :: parseResult_t where
  "zero_result = \<lparr>num_fields = 0, res_fields = replicate MAX_FIELD_COUNT zero_field\<rparr>"

definition init_context :: "u8 list \<Rightarrow> u32 \<Rightarrow> parseContext_t" where
  "init_context bytes len =
     \<lparr>transaction_type = 0, has_empty_pub_key = False, data = bytes, ctx_length = len,
      offset = 0, result = zero_result, current_array = 0, array_index1 = 0,
      array_index2 = 0, ctx_object_depth = 0\<rparr>"

end
