(* ===== verification/Parser_Safety.thy ===== *)
theory Parser_Safety
  imports Parser
begin

text \<open>
  The parser never leaves its buffers, always returns, and leaves behind fields whose content
  agrees with their type. One invariant of the context carries all three; every operation of
  \<open>Parser\<close> has one \<open>wp\<close> fact here, which its callers use.
\<close>

section \<open>Well-formed contexts\<close>

text \<open>The content of a field points into the first \<open>lim\<close> bytes and has one of the lengths \<open>ns\<close>.\<close>

definition spans :: "nat \<Rightarrow> (nat \<Rightarrow> bool) \<Rightarrow> field_t \<Rightarrow> bool" where
  "spans lim ns f \<longleftrightarrow>
     (case fdata f of DPtr p \<Rightarrow> ns (unat (fld_length f)) \<and> p + unat (fld_length f) \<le> lim | _ \<Rightarrow> False)"

text \<open>
  What the formatters rely on: the member of the union that was written and the length, by
  type. An account of length 0 is the cleared regular key.
\<close>

definition field_shape :: "nat \<Rightarrow> field_t \<Rightarrow> bool" where
  "field_shape lim f \<longleftrightarrow>
     (let t = data_type f in
      if t = STI_UINT8 then case fdata f of DU8 _ \<Rightarrow> True | _ \<Rightarrow> False
      else if t = STI_UINT16 then case fdata f of DU16 _ \<Rightarrow> True | _ \<Rightarrow> False
      else if t = STI_UINT32 then case fdata f of DU32 _ \<Rightarrow> True | _ \<Rightarrow> False
      else if t = STI_HASH128 then spans lim (\<lambda>n. n = 16) f
      else if t = STI_HASH256 then spans lim (\<lambda>n. n = 32) f
      else if t = STI_AMOUNT then spans lim (\<lambda>n. n = 8 \<or> n = 48) f
      else if t = STI_VL then spans lim (\<lambda>n. True) f
      else if t = STI_ACCOUNT then
        spans lim (\<lambda>n. n = 20) f \<or>
        (fld_id f = XRP_ACCOUNT_REGULAR_KEY \<and> fdata f = DZero \<and> fld_length f = 0)
      else if t = STI_VECTOR256 then spans lim (\<lambda>n. n mod 32 = 0) f
      else if t = STI_CURRENCY then spans lim (\<lambda>n. n = 20) f
      else if t = STI_ISSUE then spans lim (\<lambda>n. n = 20 \<or> n = 40) f
      else t = STI_ARRAY \<or> t = STI_OBJECT \<or> t = STI_PATHSET)"

abbreviation nf :: "parseContext_t \<Rightarrow> nat" where
  "nf c \<equiv> unat (num_fields (result c))"

abbreviation slot :: "parseContext_t \<Rightarrow> nat \<Rightarrow> field_t" where
  "slot c i \<equiv> res_fields (result c) ! i"

abbreviation pos :: "parseContext_t \<Rightarrow> nat" where
  "pos c \<equiv> unat (offset c)"

text \<open>The longest transaction the invariant covers; the app's limit is 10000 bytes.\<close>

definition MAX_LEN :: nat where "MAX_LEN = 2000000000"

definition ctx_ok :: "parseContext_t \<Rightarrow> bool" where
  "ctx_ok c \<longleftrightarrow>
     length (res_fields (result c)) = MAX_FIELD_COUNT \<and> nf c \<le> MAX_FIELD_COUNT \<and>
     (\<forall>i \<ge> nf c. i < MAX_FIELD_COUNT \<longrightarrow> slot c i = zero_field) \<and>
     pos c \<le> unat (ctx_length c) \<and> unat (ctx_length c) \<le> length (data c) \<and>
     unat (ctx_length c) \<le> MAX_LEN"

text \<open>\<open>ctx_inv K c\<close>: all fields but those of \<open>K\<close>, which are being read, are well shaped.\<close>

definition ctx_inv :: "nat set \<Rightarrow> parseContext_t \<Rightarrow> bool" where
  "ctx_inv K c \<longleftrightarrow> ctx_ok c \<and> (\<forall>i < nf c. i \<notin> K \<longrightarrow> field_shape (pos c) (slot c i))"

text \<open>What an operation on the field \<open>k\<close> leaves alone.\<close>

definition frame :: "nat \<Rightarrow> parseContext_t \<Rightarrow> parseContext_t \<Rightarrow> bool" where
  "frame k c c' \<longleftrightarrow>
     data c' = data c \<and> ctx_length c' = ctx_length c \<and> nf c \<le> nf c' \<and> pos c \<le> pos c' \<and>
     (\<forall>i < nf c. i \<noteq> k \<longrightarrow> slot c' i = slot c i)"

text \<open>The errors an operation on one field may end in, \<open>post_process_field\<close> apart.\<close>

definition plain_error :: "exc \<Rightarrow> 's \<Rightarrow> bool" where
  "plain_error e c \<longleftrightarrow> e \<noteq> BAD_ACCESS \<and> e \<noteq> BLIND_SIGN_REQUIRED"

lemma plain_error_simps [simp]:
  "plain_error EXCEPTION_OVERFLOW c" "plain_error NOT_SUPPORTED c" "plain_error INVALID_STATE c"
  "plain_error NOT_ENOUGH_SPACE c" "\<not> plain_error BAD_ACCESS c"
  by (simp_all add: plain_error_def)

lemma frame_refl [simp]: "frame k c c"
  by (simp add: frame_def)

lemma frame_trans: "frame k a b \<Longrightarrow> frame k b c \<Longrightarrow> frame k a c"
  unfolding frame_def by (metis le_trans less_le_trans)

lemma spans_mono: "spans l ns f \<Longrightarrow> l \<le> l' \<Longrightarrow> spans l' ns f"
  by (auto simp: spans_def split: field_data.splits)

lemma spans_place [simp]:
  "spans l ns (f\<lparr>array_info := a\<rparr>) = spans l ns f"
  "spans l ns (f\<lparr>object_depth := d\<rparr>) = spans l ns f"
  "spans l ns (f\<lparr>data_type := t\<rparr>) = spans l ns f"
  "spans l ns (f\<lparr>fld_id := i\<rparr>) = spans l ns f"
  by (simp_all add: spans_def split: field_data.split)

lemma field_shape_place [simp]:
  "field_shape l (f\<lparr>array_info := a\<rparr>) = field_shape l f"
  "field_shape l (f\<lparr>object_depth := d\<rparr>) = field_shape l f"
  by (simp_all add: field_shape_def)

lemma if_imp: "(p \<longrightarrow> p') \<Longrightarrow> (q \<longrightarrow> q') \<Longrightarrow> (if b then p else q) \<longrightarrow> (if b then p' else q')"
  by simp

lemma field_shape_mono:
  assumes "field_shape l f" and "l \<le> l'"
  shows "field_shape l' f"
proof -
  have "spans l ns f \<longrightarrow> spans l' ns f" for ns
    using spans_mono assms(2) by blast
  then have "field_shape l f \<longrightarrow> field_shape l' f"
    unfolding field_shape_def Let_def by (intro if_imp) auto
  with assms(1) show ?thesis by simp
qed

lemma inv_mono: "ctx_inv K c \<Longrightarrow> K \<subseteq> K' \<Longrightarrow> ctx_inv K' c"
  by (auto simp: ctx_inv_def)

lemma inv_ctx_ok: "ctx_inv K c \<Longrightarrow> ctx_ok c"
  by (simp add: ctx_inv_def)

section \<open>Memory\<close>

lemma wp_mem [wp_rules]:
  "wp (mem p n) Q E c =
     (if p + n \<le> length (data c) then Q (take n (drop p (data c))) c else E BAD_ACCESS c)"
  by (simp add: wp_def mem_def peek_def)

lemma wp_get_field [wp_rules]:
  "wp (get_field i) Q E c =
     (if i < length (res_fields (result c)) then Q (slot c i) c else E BAD_ACCESS c)"
  by (simp add: wp_def get_field_def)

lemma wp_upd_field:
  "wp (upd_field i f) Q E c =
     (if i < length (res_fields (result c))
      then Q () (set_fields (\<lambda>r. r\<lparr>res_fields := (res_fields r)[i := f (res_fields r ! i)]\<rparr>) c)
      else E BAD_ACCESS c)"
  by (simp add: wp_def upd_field_def)

lemma wp_from_union [wp_rules]:
  "wp (from_union x) Q E c = (case x of Some v \<Rightarrow> Q v c | None \<Rightarrow> E BAD_ACCESS c)"
  by (simp add: from_union_def wp_return wp_throw split: option.split)

lemma wp_field_ptr [wp_rules]:
  "wp (field_ptr i) Q E c =
     (if i < length (res_fields (result c))
      then case fdata (slot c i) of DPtr p \<Rightarrow> Q p c | _ \<Rightarrow> E BAD_ACCESS c
      else E BAD_ACCESS c)"
  by (simp add: field_ptr_def wp_rules split: field_data.split)

lemma has_data_iff:
  assumes "ctx_ok c" and "unat n \<le> MAX_LEN"
  shows "has_data c n \<longleftrightarrow> 0 < pos c + unat n \<and> pos c + unat n \<le> unat (ctx_length c)"
proof -
  have b: "pos c + unat n < 2 ^ 32"
    using assms by (auto simp: ctx_ok_def MAX_LEN_def)
  then have s: "unat (offset c + n) = pos c + unat n"
    by (simp add: unat_add_noovf)
  show ?thesis
  proof (cases "pos c + unat n = 0")
    case True
    then have "offset c + n = 0" by (metis s unat_0_iff)
    then have m: "offset c + n - 1 = - 1" by simp
    have "\<not> (- 1 :: u32) < ctx_length c" by (simp add: not_less)
    with m True show ?thesis by (simp add: has_data_def)
  next
    case False
    then have "unat (offset c + n - 1) = pos c + unat n - 1"
      by (simp add: s unat_dec)
    with False show ?thesis by (auto simp: has_data_def word_less_nat_alt)
  qed
qed

section \<open>Reading bytes\<close>

lemma pos_advance:
  assumes "ctx_ok c" and "unat n \<le> MAX_LEN" and "has_data c n"
  shows "unat (offset c + n) = pos c + unat n"
  using assms has_data_iff [OF assms(1,2)] by (simp add: unat_add_noovf ctx_ok_def MAX_LEN_def)

lemma inv_advance:
  assumes "ctx_inv K c" and "unat n \<le> MAX_LEN" and "has_data c n"
  shows "ctx_inv K (c\<lparr>offset := offset c + n\<rparr>)"
  using assms has_data_iff [OF inv_ctx_ok assms(2)] pos_advance [OF inv_ctx_ok assms(2,3)]
  by (auto simp: ctx_inv_def ctx_ok_def intro: field_shape_mono)

lemma advance_position_wp:
  assumes "ctx_ok c" and "unat n \<le> MAX_LEN"
    and "\<And>c'. c' = c\<lparr>offset := offset c + n\<rparr> \<Longrightarrow> has_data c n \<Longrightarrow> pos c' = pos c + unat n \<Longrightarrow>
       0 < pos c' \<Longrightarrow> pos c' \<le> unat (ctx_length c) \<Longrightarrow> Q () c'"
    and "\<And>e. plain_error e c \<Longrightarrow> E e c"
  shows "wp (advance_position n) Q E c"
  using assms has_data_iff [OF assms(1,2)] pos_advance [OF assms(1,2)]
  by (simp add: advance_position_def wp_rules)

lemma inv_read_1: "ctx_ok c \<Longrightarrow> has_data c 1 \<Longrightarrow> pos c + 1 \<le> length (data c)"
  using has_data_iff [of c 1] by (simp add: ctx_ok_def MAX_LEN_def)

lemma peak_next_byte_wp:
  assumes "ctx_ok c"
    and "has_data c 1 \<Longrightarrow> pos c < length (data c) \<Longrightarrow> Q (data c ! pos c) c"
    and "\<And>e. plain_error e c \<Longrightarrow> E e c"
  shows "wp peak_next_byte Q E c"
  using assms inv_read_1 [OF assms(1)]
  by (simp add: peak_next_byte_def wp_rules current_position_def hd_drop_conv_nth Suc_le_eq)

lemma read_next_byte_wp:
  assumes "ctx_ok c"
    and "\<And>c'. c' = c\<lparr>offset := offset c + 1\<rparr> \<Longrightarrow> has_data c 1 \<Longrightarrow> pos c < length (data c) \<Longrightarrow>
       pos c' = pos c + 1 \<Longrightarrow> pos c' \<le> unat (ctx_length c) \<Longrightarrow> Q (data c ! pos c) c'"
    and "\<And>e. plain_error e c \<Longrightarrow> E e c"
  shows "wp read_next_byte Q E c"
proof -
  have "wp (advance_position 1) (\<lambda>_. Q (data c ! pos c)) E c" if "has_data c 1"
    using assms inv_read_1 [OF assms(1) that]
    by (intro advance_position_wp) (simp_all add: MAX_LEN_def)
  with assms(3) inv_read_1 [OF assms(1)] show ?thesis
    by (simp add: read_next_byte_def wp_rules current_position_def hd_drop_conv_nth Suc_le_eq)
qed

section \<open>Updates of the field array\<close>

lemma inv_ctx_upd:
  assumes "ctx_inv K c"
  shows "ctx_inv K (c\<lparr>current_array := a\<rparr>)" and "ctx_inv K (c\<lparr>array_index1 := i\<rparr>)"
    and "ctx_inv K (c\<lparr>array_index2 := j\<rparr>)" and "ctx_inv K (c\<lparr>ctx_object_depth := d\<rparr>)"
    and "ctx_inv K (c\<lparr>transaction_type := t\<rparr>)" and "ctx_inv K (c\<lparr>has_empty_pub_key := b\<rparr>)"
  using assms by (simp_all add: ctx_inv_def ctx_ok_def)

lemma slot_in_range: "ctx_ok c \<Longrightarrow> k < nf c \<Longrightarrow> k < length (res_fields (result c))"
  by (simp add: ctx_ok_def)

lemma set_fields_simps [simp]:
  "data (set_fields f c) = data c" "ctx_length (set_fields f c) = ctx_length c"
  "offset (set_fields f c) = offset c" "result (set_fields f c) = f (result c)"
  "current_array (set_fields f c) = current_array c"
  "array_index1 (set_fields f c) = array_index1 c"
  "array_index2 (set_fields f c) = array_index2 c"
  "ctx_object_depth (set_fields f c) = ctx_object_depth c"
  "transaction_type (set_fields f c) = transaction_type c"
  "has_empty_pub_key (set_fields f c) = has_empty_pub_key c"
  by (simp_all add: set_fields_def)

text \<open>Writing a slot that is in use and is being read.\<close>

lemma upd_field_wp:
  assumes "ctx_ok c" and "k < nf c"
    and "\<And>c'. c' = set_fields (\<lambda>r. r\<lparr>res_fields := (res_fields r)[k := f (res_fields r ! k)]\<rparr>) c \<Longrightarrow>
       ctx_ok c' \<Longrightarrow> frame k c c' \<Longrightarrow> (\<And>K. ctx_inv K c \<Longrightarrow> k \<in> K \<Longrightarrow> ctx_inv K c') \<Longrightarrow> nf c' = nf c \<Longrightarrow>
       offset c' = offset c \<Longrightarrow> slot c' k = f (slot c k) \<Longrightarrow> Q () c'"
  shows "wp (upd_field k f) Q E c"
  using assms(1,2)
  by (auto simp: wp_upd_field slot_in_range intro!: assms(3))
    (auto simp: ctx_ok_def ctx_inv_def frame_def nth_list_update)

lemma inv_close:
  assumes "ctx_inv K c" and "field_shape (pos c) (slot c k)"
  shows "ctx_inv (K - {k}) c"
  using assms by (auto simp: ctx_inv_def)

lemma inv_open: "ctx_inv K c \<Longrightarrow> ctx_inv (insert k K) c"
  by (auto simp: ctx_inv_def)

text \<open>A new field: cleared but for its place in arrays and objects.\<close>

definition new_field_at :: "parseContext_t \<Rightarrow> field_t" where
  "new_field_at c =
     (if current_array c = 0 then zero_field
      else zero_field\<lparr>array_info :=
        \<lparr>ai_type = current_array c, index1 = array_index1 c, index2 = array_index2 c\<rparr>\<rparr>)
     \<lparr>object_depth := ctx_object_depth c\<rparr>"

definition appended :: "parseContext_t \<Rightarrow> parseContext_t" where
  "appended c = set_fields (\<lambda>r. r\<lparr>num_fields := num_fields r + 1,
     res_fields := (res_fields r)[unat (num_fields r) := new_field_at c]\<rparr>) c"

lemma append_new_field_eq:
  assumes "ctx_ok c"
  shows "append_new_field c =
    (if nf c < MAX_FIELD_COUNT then (Inr (nf c), appended c) else (Inl NOT_ENOUGH_SPACE, c))"
  using assms
  by (simp add: append_new_field_def append_array_info_def CHECK_def gets_def throw_def modify_def
      upd_field_def return_def appended_def new_field_at_def ctx_ok_def set_fields_def)

lemma nf_appended:
  assumes "ctx_ok c" and "nf c < MAX_FIELD_COUNT"
  shows "nf (appended c) = nf c + 1"
  using assms by (simp add: appended_def unat_Suc_if)

lemma appended_ok:
  assumes "ctx_ok c" and "nf c < MAX_FIELD_COUNT"
  shows "ctx_ok (appended c)" and "frame k c (appended c)"
    and "slot (appended c) (nf c) = new_field_at c"
    and "ctx_inv K c \<Longrightarrow> ctx_inv (insert (nf c) K) (appended c)"
    and "offset (appended c) = offset c"
proof -
  note n = nf_appended [OF assms]
  show "ctx_ok (appended c)"
    using assms n by (auto simp: ctx_ok_def appended_def)
  show "frame k c (appended c)"
    using assms n by (auto simp: frame_def appended_def ctx_ok_def)
  show "slot (appended c) (nf c) = new_field_at c"
    using assms by (simp add: appended_def ctx_ok_def)
  show "offset (appended c) = offset c" by (simp add: appended_def)
  show "ctx_inv (insert (nf c) K) (appended c)" if "ctx_inv K c"
    using that n \<open>ctx_ok (appended c)\<close> by (auto simp: ctx_inv_def appended_def)
qed

lemma append_new_field_wp:
  assumes "ctx_ok c"
    and "\<And>c'. c' = appended c \<Longrightarrow> nf c < MAX_FIELD_COUNT \<Longrightarrow> ctx_ok c' \<Longrightarrow> (\<And>k. frame k c c') \<Longrightarrow>
       slot c' (nf c) = new_field_at c \<Longrightarrow> (\<And>K. ctx_inv K c \<Longrightarrow> ctx_inv (insert (nf c) K) c') \<Longrightarrow>
       nf c' = nf c + 1 \<Longrightarrow> offset c' = offset c \<Longrightarrow> Q (nf c) c'"
    and "\<And>e. plain_error e c \<Longrightarrow> E e c"
  shows "wp append_new_field Q E c"
proof (cases "nf c < MAX_FIELD_COUNT")
  case True
  with assms(1) have "Q (nf c) (appended c)"
    by (intro assms(2)) (simp_all add: appended_ok nf_appended)
  with True assms(1) show ?thesis by (simp add: wp_def append_new_field_eq)
next
  case False
  with assms show ?thesis by (simp add: wp_def append_new_field_eq)
qed

section \<open>Reading one value\<close>

lemma read_fixed_size_field_wp:
  assumes "ctx_inv K c" and "k \<in> K" and "k < nf c"
    and "\<And>c'. ctx_inv K c' \<Longrightarrow> frame k c c' \<Longrightarrow> nf c' = nf c \<Longrightarrow>
       slot c' k = (slot c k)\<lparr>fdata := DPtr (pos c), fld_length := len\<rparr> \<Longrightarrow>
       pos c' = pos c + unat len \<Longrightarrow> pos c' \<le> length (data c') \<Longrightarrow> Q () c'"
  shows "wp (read_fixed_size_field k len) Q plain_error c"
proof -
  have l: "unat (ucast len :: u32) \<le> MAX_LEN"
    using unat_u16_less [of len] by (simp add: MAX_LEN_def del: unat_u16_less)
  have "wp (advance_position (ucast len)) Q plain_error c1"
    if c1: "ctx_ok c1" "frame k c c1" "ctx_inv K c1" "nf c1 = nf c" "offset c1 = offset c"
      "slot c1 k = (slot c k)\<lparr>fdata := DPtr (pos c), fld_length := len\<rparr>" for c1
  proof (rule advance_position_wp [OF c1(1) l])
    fix c' assume c': "c' = c1\<lparr>offset := offset c1 + ucast len\<rparr>" "has_data c1 (ucast len)"
      "pos c' = pos c1 + unat (ucast len :: u32)" "pos c' \<le> unat (ctx_length c1)"
    from inv_advance [OF c1(3) l c'(2)] c' have "ctx_inv K c'" by simp
    moreover have "frame k c c'" using c1 c' by (simp add: frame_def)
    ultimately show "Q () c'"
      using c1 c' by (intro assms(4)) (auto simp: ctx_ok_def)
  qed simp
  then show ?thesis
    unfolding read_fixed_size_field_def wp_CHECK wp_gets current_position_def
    by (intro upd_field_wp [OF inv_ctx_ok [OF assms(1)] assms(3)]) (use assms(1-3) in auto)
qed

lemma read_vl_length_wp:
  assumes "ctx_inv K c"
    and "\<And>c' n. ctx_inv K c' \<Longrightarrow> frame k c c' \<Longrightarrow> result c' = result c \<Longrightarrow> pos c < pos c' \<Longrightarrow> Q n c'"
  shows "wp read_vl_length Q plain_error c"
proof -
  have one: "ctx_inv K c'" if "c' = d\<lparr>offset := offset d + 1\<rparr>" "ctx_inv K d" "has_data d 1" for d c'
    using that inv_advance [of K d 1] by (simp add: MAX_LEN_def)
  have two: "frame k d c'" if "c' = d\<lparr>offset := offset d + 1\<rparr>" "pos c' = pos d + 1" for d c'
    using that by (simp add: frame_def)
  note ok = inv_ctx_ok [OF assms(1)]
  show ?thesis
    unfolding read_vl_length_def wp_CHECK
  proof (rule read_next_byte_wp [OF ok])
    fix c1 assume c1: "c1 = c\<lparr>offset := offset c + 1\<rparr>" "has_data c 1" "pos c1 = pos c + 1"
    have i1: "ctx_inv K c1" and f1: "frame k c c1"
      using c1 assms(1) one two by auto
    have "wp read_next_byte (\<lambda>b. wp (return (g b)) Q plain_error) plain_error c1" for g
    proof (rule read_next_byte_wp [OF inv_ctx_ok [OF i1]])
      fix c2 assume c2: "c2 = c1\<lparr>offset := offset c1 + 1\<rparr>" "has_data c1 1" "pos c2 = pos c1 + 1"
      then show "wp (return (g (data c1 ! pos c1))) Q plain_error c2"
        using one [OF c2(1) i1 c2(2)] frame_trans [OF f1 two [OF c2(1,3)]] c1
        by (auto simp: wp_rules intro!: assms(2))
    qed simp
    then show "wp (let data_length = ucast (data c ! pos c)
         in if 192 < data_length
            then if 240 < data_length then throw INVALID_STATE
                 else CHECK read_next_byte
                       (\<lambda>length_byte2.
                           return (193 + (data_length - 193) * 256 + ucast length_byte2))
            else return data_length) Q plain_error c1"
      using i1 f1 c1 by (simp add: Let_def wp_rules assms(2))
  qed simp
qed

lemma read_variable_length_field_wp:
  assumes "ctx_inv K c" and "k \<in> K" and "k < nf c"
    and "\<And>c' p n. ctx_inv K c' \<Longrightarrow> frame k c c' \<Longrightarrow> nf c' = nf c \<Longrightarrow>
       slot c' k = (slot c k)\<lparr>fdata := DPtr p, fld_length := n\<rparr> \<Longrightarrow>
       pos c' = p + unat n \<Longrightarrow> Q () c'"
  shows "wp (read_variable_length_field k) Q plain_error c"
  unfolding read_variable_length_field_def wp_CHECK
proof (rule read_vl_length_wp [OF assms(1), where k = k])
  fix c1 n assume c1: "ctx_inv K c1" "frame k c c1" "result c1 = result c"
  show "wp (read_fixed_size_field k n) Q plain_error c1"
  proof (rule read_fixed_size_field_wp [OF c1(1) assms(2)])
    show "k < nf c1" using c1 assms(3) by simp
    fix c' assume "ctx_inv K c'" "frame k c1 c'" "nf c' = nf c1"
      "slot c' k = (slot c1 k)\<lparr>fdata := DPtr (pos c1), fld_length := n\<rparr>"
      "pos c' = pos c1 + unat n"
    then show "Q () c'"
      using c1 frame_trans [OF c1(2)] by (auto intro!: assms(4))
  qed
qed

text \<open>A field the parser makes for a part of the bytes it has read.\<close>

lemma make_field_wp:
  assumes "ctx_inv K c" and "k < nf c" and "p + len \<le> pos c" and "len < 65536"
    and "(t = STI_CURRENCY \<or> t = STI_ACCOUNT) \<and> len = 20 \<or> t = STI_HASH256 \<and> len = 32"
    and "\<And>c'. ctx_inv (K - {k}) c' \<Longrightarrow> frame k c c' \<Longrightarrow> nf c' = nf c \<Longrightarrow> offset c' = offset c \<Longrightarrow>
       slot c' k = (slot c k)\<lparr>data_type := t, fld_id := i, fdata := DPtr p, fld_length := of_nat len\<rparr> \<Longrightarrow>
       Q () c'"
  shows "wp (make_field k t i p len) Q E c"
  unfolding make_field_def
proof (rule upd_field_wp [OF inv_ctx_ok [OF assms(1)] assms(2)])
  fix c' assume c': "ctx_ok c'" "frame k c c'" "\<And>K. ctx_inv K c \<Longrightarrow> k \<in> K \<Longrightarrow> ctx_inv K c'"
    "nf c' = nf c" "offset c' = offset c"
    and s: "slot c' k =
      (slot c k)\<lparr>data_type := t, fld_id := i, fdata := DPtr p, fld_length := of_nat len\<rparr>"
  have "field_shape (pos c') (slot c' k)"
    using assms(3-5) c'(5) by (auto simp: s field_shape_def spans_def)
  then have "ctx_inv (insert k K - {k}) c'"
    by (intro inv_close c'(3) inv_open assms(1)) simp
  then have "ctx_inv (K - {k}) c'" by (simp add: insert_Diff_single)
  then show "Q () c'" using c' s by (intro assms(6)) auto
qed

text \<open>Appending such a field and making it leaves the invariant as it was.\<close>

lemma append_make_wp:
  assumes "ctx_inv K c" and "K \<subseteq> {..<nf c}" and "p + len \<le> pos c" and "len < 65536"
    and "(t = STI_CURRENCY \<or> t = STI_ACCOUNT) \<and> len = 20 \<or> t = STI_HASH256 \<and> len = 32"
    and "\<And>c' n. ctx_inv K c' \<Longrightarrow> (\<And>k. frame k c c') \<Longrightarrow> n = nf c \<Longrightarrow> nf c' = nf c + 1 \<Longrightarrow>
       offset c' = offset c \<Longrightarrow> Q n c'"
  shows "wp append_new_field (\<lambda>n. wp (make_field n t i p len) (\<lambda>_. Q n) plain_error) plain_error c"
proof (rule append_new_field_wp [OF inv_ctx_ok [OF assms(1)]])
  fix c1 assume c1: "\<And>k. frame k c c1" "\<And>K. ctx_inv K c \<Longrightarrow> ctx_inv (insert (nf c) K) c1"
    "nf c1 = nf c + 1" "offset c1 = offset c"
  show "wp (make_field (nf c) t i p len) (\<lambda>_. Q (nf c)) plain_error c1"
  proof (rule make_field_wp [OF c1(2) [OF assms(1)]])
    fix c' assume c': "ctx_inv (insert (nf c) K - {nf c}) c'" "frame (nf c) c1 c'" "nf c' = nf c1"
      "offset c' = offset c1"
    have "insert (nf c) K - {nf c} = K" using assms(2) by auto
    with c'(1) have "ctx_inv K c'" by simp
    moreover have "frame k c c'" for k
      using c1(1) [of k] c'(2) c1(3) by (auto simp: frame_def)
    ultimately show "Q (nf c) c'" using c' c1 by (intro assms(6)) auto
  qed (use c1 assms in auto)
qed simp

text \<open>
  The contract of the operations that read the value of field \<open>k\<close>: the field is well shaped
  for its type (an account's length is checked later), and fields are only added for the
  types that are never hidden.
\<close>

definition value_shape :: "nat \<Rightarrow> field_t \<Rightarrow> bool" where
  "value_shape lim f \<longleftrightarrow>
     (if data_type f = STI_ACCOUNT then spans lim (\<lambda>n. True) f else field_shape lim f)"

definition may_add_fields :: "u8 \<Rightarrow> bool" where
  "may_add_fields t \<longleftrightarrow> t \<in> {STI_AMOUNT, STI_VECTOR256, STI_ISSUE, STI_CURRENCY}"

definition value_read :: "nat \<Rightarrow> parseContext_t \<Rightarrow> parseContext_t \<Rightarrow> bool" where
  "value_read k c c' \<longleftrightarrow>
     ctx_inv {k} c' \<and> frame k c c' \<and> value_shape (pos c') (slot c' k) \<and>
     (nf c' = nf c \<or> may_add_fields (data_type (slot c' k)))"

lemma value_read_from:
  "value_read k d e \<Longrightarrow> frame k c d \<Longrightarrow> nf d = nf c \<Longrightarrow> value_read k c e"
  using frame_trans by (auto simp: value_read_def)

lemma value_read_pos: "value_read k c d \<Longrightarrow> pos c \<le> pos d"
  by (simp add: value_read_def frame_def)

lemma value_read_step: "value_read k c (d\<lparr>array_index2 := i\<rparr>) = value_read k c d"
  by (simp add: value_read_def ctx_inv_def ctx_ok_def frame_def)

lemma frame_slot: "frame k c c' \<Longrightarrow> j < nf c \<Longrightarrow> j \<noteq> k \<Longrightarrow> slot c' j = slot c j"
  by (simp add: frame_def)

lemma frame_any: "(\<And>k. frame k c c') \<Longrightarrow> j < nf c \<Longrightarrow> slot c' j = slot c j"
  using frame_slot [of "Suc j" c c' j] by simp

lemma frame_len: "frame k c c' \<Longrightarrow> ctx_length c' = ctx_length c"
  by (simp add: frame_def)

lemma span_in_data:
  "ctx_ok c \<Longrightarrow> p \<le> pos c \<Longrightarrow> p \<le> length (data c)"
  by (simp add: ctx_ok_def)

lemma slot_ok: "ctx_inv K c \<Longrightarrow> k < nf c \<Longrightarrow> k < length (res_fields (result c))"
  by (simp add: ctx_inv_def ctx_ok_def)

lemma value_readI:
  assumes "ctx_inv {k} c'" and "frame k c c'" and "slot c' k = f" and "value_shape (pos c') f"
    and "nf c' = nf c \<or> may_add_fields (data_type f)"
  shows "value_read k c c'"
  using assms by (simp add: value_read_def)

text \<open>Adding one field for a part of the bytes of field \<open>k\<close>.\<close>

lemma append_part_wp:
  assumes "ctx_inv {k} c" and "k < nf c" and "p + len \<le> pos c" and "len < 65536"
    and "(t = STI_CURRENCY \<or> t = STI_ACCOUNT) \<and> len = 20 \<or> t = STI_HASH256 \<and> len = 32"
    and "\<And>c' n. ctx_inv {k} c' \<Longrightarrow> frame k c c' \<Longrightarrow> slot c' k = slot c k \<Longrightarrow> pos c' = pos c \<Longrightarrow>
       k < nf c' \<Longrightarrow> nf c' = nf c + 1 \<Longrightarrow> n = nf c \<Longrightarrow> Q n c'"
  shows "wp append_new_field (\<lambda>n. wp (make_field n t i p len) (\<lambda>_. Q n) plain_error) plain_error c"
proof (rule append_make_wp [OF assms(1)])
  fix c' n assume "ctx_inv {k} c'" "\<And>k. frame k c c'" "n = nf c" "nf c' = nf c + 1" "offset c' = offset c"
  then show "Q n c'" using assms(2) frame_any [of c c' k] by (intro assms(6)) auto
qed (use assms in auto)

lemma wp_at_Inr: "m c = (Inr x, c') \<Longrightarrow> wp m Q E c = Q x c'"
  by (simp add: wp_def)

lemma append_then_ptr:
  assumes "ctx_ok c" and "k < nf c" and "fdata (slot c k) = DPtr p"
  shows "wp append_new_field (\<lambda>n. wp (field_ptr k) (R n) E) E c = wp append_new_field (\<lambda>n. R n p) E c"
proof (cases "nf c < MAX_FIELD_COUNT")
  case True
  have "slot (appended c) k = slot c k"
    using frame_any [OF appended_ok(2) [OF assms(1) True] assms(2)] .
  moreover have "k < length (res_fields (result (appended c)))"
    using appended_ok(1) [OF assms(1) True] assms(1,2) by (simp add: ctx_ok_def)
  moreover have "append_new_field c = (Inr (nf c), appended c)"
    using append_new_field_eq [OF assms(1)] True by simp
  ultimately show ?thesis
    using assms(3) by (simp add: wp_at_Inr [where m = append_new_field and c = c] wp_field_ptr)
qed (use assms in \<open>simp add: wp_def append_new_field_eq\<close>)

lemma append_issued_fields_wp:
  assumes "ctx_inv {k} c" and "k < nf c" and "fdata (slot c k) = DPtr p" and "p + 48 \<le> pos c"
    and "\<And>c'. ctx_inv {k} c' \<Longrightarrow> frame k c c' \<Longrightarrow> slot c' k = slot c k \<Longrightarrow> pos c' = pos c \<Longrightarrow> Q () c'"
  shows "wp (append_issued_fields k p) Q plain_error c"
proof -
  have m: "p + 48 \<le> length (data c)"
    using assms(4) span_in_data [OF inv_ctx_ok [OF assms(1)], of "p + 48"] by simp
  have issuer: "wp append_new_field (\<lambda>n. wp (make_field n STI_ACCOUNT XRP_ACCOUNT_ISSUER (p + 28)
      XRP_ACCOUNT_SIZE) Q plain_error) plain_error d"
    if "ctx_inv {k} d" "frame k c d" "slot d k = slot c k" "pos d = pos c" "k < nf d" for d
    using that assms(4) frame_trans [OF that(2)]
    by (intro append_part_wp [OF that(1,5), where Q = "\<lambda>_. Q ()", simplified]) (auto intro!: assms(5))
  have "wp append_new_field (\<lambda>n. wp (make_field n STI_CURRENCY XRP_CURRENCY_CURRENCY (p + 8)
      XRP_CURRENCY_SIZE) (\<lambda>_. wp append_new_field (\<lambda>n. wp (make_field n STI_ACCOUNT
      XRP_ACCOUNT_ISSUER (p + 28) XRP_ACCOUNT_SIZE) Q plain_error) plain_error)
      plain_error) plain_error c"
    using assms(2,4) by (intro append_part_wp [OF assms(1,2)]) (auto intro!: issuer)
  then show ?thesis
    using assms m issuer [of c]
    by (simp add: append_issued_fields_def wp_rules has_non_standard_currency_def slot_ok)
qed

lemma read_amount_wp:
  assumes "ctx_inv {k} c" and "k < nf c" and "data_type (slot c k) = STI_AMOUNT"
  shows "wp (read_amount k) (\<lambda>_. value_read k c) plain_error c"
proof -
  let ?f = "\<lambda>n. (slot c k)\<lparr>fdata := DPtr (pos c), fld_length := n\<rparr>"
  have fin: "value_read k c c'"
    if "ctx_inv {k} c'" "frame k c c'" "slot c' k = ?f n" "pos c + unat n = pos c'"
      "unat n = 8 \<or> unat n = 48" for c' n
    using that assms(3) by (intro value_readI [OF that(1-3)])
      (auto simp: value_shape_def field_shape_def spans_def may_add_fields_def)
  have short: "wp (read_fixed_size_field k 8) (\<lambda>_. value_read k c) plain_error c"
    using assms(2) by (intro read_fixed_size_field_wp [OF assms(1)]) (auto intro: fin)
  have "wp (append_issued_fields k p) (\<lambda>_. value_read k c) plain_error d"
    if "ctx_inv {k} d" "frame k c d" "nf d = nf c" "slot d k = ?f 48" "pos d = pos c + 48"
      "p = pos c" for d p
    using that assms(2) frame_trans [OF that(2)]
    by (intro append_issued_fields_wp [OF that(1)]) (auto intro: fin [where n = 48])
  then have "wp (read_fixed_size_field k 48) (\<lambda>_. wp (field_ptr k) (\<lambda>p. wp (append_issued_fields k p)
      (\<lambda>_. value_read k c) plain_error) plain_error) plain_error c"
    using assms(2) by (intro read_fixed_size_field_wp [OF assms(1)]) (auto simp: wp_field_ptr slot_ok)
  with short show ?thesis
    by (auto simp: read_amount_def wp_rules intro!: peak_next_byte_wp [OF inv_ctx_ok [OF assms(1)]])
qed

lemma vector256_entries_wp:
  assumes "ctx_inv {k} c" and "k < nf c" and "fdata (slot c k) = DPtr p"
    and "p + (i + left) * 32 \<le> pos c"
    and "\<And>c'. ctx_inv {k} c' \<Longrightarrow> frame k c c' \<Longrightarrow> slot c' k = slot c k \<Longrightarrow> pos c' = pos c \<Longrightarrow> Q () c'"
  shows "wp (vector256_entries k i left) Q plain_error c"
  using assms
proof (induction left arbitrary: i c)
  case 0
  then show ?case by (simp add: wp_rules)
next
  case (Suc left)
  note i0 = Suc.prems(1) and k0 = Suc.prems(2) and p0 = Suc.prems(3)
  have tag: "wp (upd_field n (\<lambda>h. h\<lparr>array_info := g h\<rparr>))
      (\<lambda>_. wp (vector256_entries k (Suc i) left) Q plain_error) plain_error d"
    if d: "ctx_inv {k} d" "frame k c d" "slot d k = slot c k" "pos d = pos c" "n = nf c"
      "nf d = nf c + 1" for d n g
  proof (rule upd_field_wp [OF inv_ctx_ok [OF d(1)]])
    show "n < nf d" using d by simp
    fix c' assume c': "frame n d c'" "\<And>K. ctx_inv K d \<Longrightarrow> n \<in> K \<Longrightarrow> ctx_inv K c'"
      "nf c' = nf d" "offset c' = offset d" "slot c' n = (slot d n)\<lparr>array_info := g (slot d n)\<rparr>"
    have nk: "n \<noteq> k" using d k0 by simp
    have s: "slot c' k = slot c k" using frame_slot [OF c'(1), of k] d k0 nk by simp
    have f: "frame k c c'"
      using d c' by (auto simp: frame_def)
    have "field_shape (pos d) (slot d n)"
      using d(1,5,6) nk by (simp add: ctx_inv_def)
    then have "field_shape (pos c') (slot c' n)"
      using c'(4,5) by simp
    then have "ctx_inv (insert n {k} - {n}) c'"
      by (intro inv_close c'(2) inv_open d(1)) simp
    moreover have "insert n {k} - {n} = {k}" using nk by auto
    ultimately have i: "ctx_inv {k} c'" by simp
    show "wp (vector256_entries k (Suc i) left) Q plain_error c'"
    proof (rule Suc.IH [OF i])
      show "k < nf c'" using c'(3) d(6) k0 by simp
      show "fdata (slot c' k) = DPtr p" using s p0 by simp
      show "p + (Suc i + left) * 32 \<le> pos c'" using Suc.prems(4) c'(4) d(4) by simp
      show "Q () e" if "ctx_inv {k} e" "frame k c' e" "slot e k = slot c' k" "pos e = pos c'" for e
        using that Suc.prems(5) [of e] frame_trans [OF f that(2)] s c'(4) d(4) by simp
    qed
  qed
  have "wp append_new_field (\<lambda>n. wp (make_field n STI_HASH256 XRP_HASH256_NFTOKEN_OFFER (p + i * 32) 32)
     (\<lambda>_. wp (get_field k) (\<lambda>f. wp (upd_field n (\<lambda>h. h\<lparr>array_info := (array_info h)
          \<lparr>ai_type := fld_id f, index1 := of_nat (i + 1)\<rparr>\<rparr>))
      (\<lambda>_. wp (vector256_entries k (Suc i) left) Q plain_error) plain_error) plain_error)
     plain_error) plain_error c"
    using Suc.prems(4)
    by (intro append_part_wp [OF i0 k0]) (auto simp: wp_get_field slot_ok intro!: tag)
  then show ?case
    unfolding vector256_entries.simps(2) wp_CHECK
    by (subst append_then_ptr [OF inv_ctx_ok [OF i0] k0 p0]) simp
qed

lemma read_vector256_field_wp:
  assumes "ctx_inv {k} c" and "k < nf c" and "data_type (slot c k) = STI_VECTOR256"
  shows "wp (read_vector256_field k) (\<lambda>_. value_read k c) plain_error c"
  unfolding read_vector256_field_def wp_CHECK
proof (rule upd_field_wp [OF inv_ctx_ok [OF assms(1)] assms(2)])
  fix c1 assume c1: "frame k c c1" "\<And>K. ctx_inv K c \<Longrightarrow> k \<in> K \<Longrightarrow> ctx_inv K c1" "nf c1 = nf c"
    "offset c1 = offset c" "slot c1 k = (slot c k)\<lparr>data_type := STI_VECTOR256\<rparr>"
  have i1: "ctx_inv {k} c1" using c1(2) [OF assms(1)] by simp
  have entries: "wp (vector256_entries k 0 (unat (n div 32))) (\<lambda>_. value_read k c) plain_error d"
    if d: "ctx_inv {k} d" "frame k c d" "k < nf d" "n mod 32 = 0" "pos d = q + unat n"
      "slot d k = (slot c k)\<lparr>data_type := STI_VECTOR256, fdata := DPtr q, fld_length := n\<rparr>" for d q n
  proof -
    have m: "unat n mod 32 = 0"
      using arg_cong [OF d(4), of unat] by (simp add: unat_mod)
    then have "q + (0 + unat (n div 32)) * 32 \<le> pos d"
      using d(5) by (simp add: unat_div)
    then show ?thesis
    proof (rule vector256_entries_wp [OF d(1,3), rotated])
      fix c' assume c': "ctx_inv {k} c'" "frame k d c'" "slot c' k = slot d k" "pos c' = pos d"
      show "value_read k c c'"
        using c' d(5,6) m by (intro value_readI [OF c'(1) frame_trans [OF d(2) c'(2)] c'(3)])
          (simp_all add: value_shape_def field_shape_def spans_def may_add_fields_def)
    qed (simp add: d)
  qed
  show "wp read_vl_length (\<lambda>data_length. wp (if data_length mod of_nat XRP_VECTOR256_SIZE \<noteq> 0
      then throw INVALID_STATE
      else let count = data_length div of_nat XRP_VECTOR256_SIZE in
        CHECK (gets (\<lambda>c. num_fields (result c))) (\<lambda>n.
        if int (unat count) > int MAX_FIELD_COUNT - int (unat n) then throw NOT_ENOUGH_SPACE
        else CHECK (read_fixed_size_field k data_length) (\<lambda>_. vector256_entries k 0 (unat count))))
      (\<lambda>_. value_read k c) plain_error) plain_error c1"
  proof (rule read_vl_length_wp [OF i1, where k = k])
    fix c2 n assume c2: "ctx_inv {k} c2" "frame k c1 c2" "result c2 = result c1"
    have "wp (read_fixed_size_field k n) (\<lambda>_. wp (vector256_entries k 0 (unat (n div 32)))
        (\<lambda>_. value_read k c) plain_error) plain_error c2" if "n mod 32 = 0"
      using c1 c2 assms(2) that frame_trans [OF frame_trans [OF c1(1) c2(2)]]
      by (intro read_fixed_size_field_wp [OF c2(1)]) (auto intro!: that entries [where q = "pos c2"])
    then show "wp (if n mod of_nat XRP_VECTOR256_SIZE \<noteq> 0
      then throw INVALID_STATE
      else let count = n div of_nat XRP_VECTOR256_SIZE in
        CHECK (gets (\<lambda>c. num_fields (result c))) (\<lambda>m.
        if int (unat count) > int MAX_FIELD_COUNT - int (unat m) then throw NOT_ENOUGH_SPACE
        else CHECK (read_fixed_size_field k n) (\<lambda>_. vector256_entries k 0 (unat count))))
      (\<lambda>_. value_read k c) plain_error c2"
      by (simp add: Let_def wp_rules)
  qed
qed

lemma read_issue_wp:
  assumes "ctx_inv {k} c" and "k < nf c" and "data_type (slot c k) = STI_ISSUE"
  shows "wp (read_issue k) (\<lambda>_. value_read k c) plain_error c"
proof -
  let ?f = "\<lambda>n. (slot c k)\<lparr>fdata := DPtr (pos c), fld_length := n\<rparr>"
  have fin: "value_read k c c'"
    if "ctx_inv {k} c'" "frame k c c'" "slot c' k = ?f n" "pos c + unat n = pos c'"
      "unat n = 20 \<or> unat n = 40" for c' n
    using that assms(3) by (intro value_readI [OF that(1-3)])
      (auto simp: value_shape_def field_shape_def spans_def may_add_fields_def)
  have short: "wp (read_fixed_size_field k 20) (\<lambda>_. value_read k c) plain_error c"
    using assms(2) by (intro read_fixed_size_field_wp [OF assms(1)]) (auto intro: fin)
  have "wp append_new_field (\<lambda>n. wp (make_field n STI_ACCOUNT XRP_ACCOUNT_ISSUER (pos c + 20)
      XRP_ACCOUNT_SIZE) (\<lambda>_. value_read k c) plain_error) plain_error d"
    if "ctx_inv {k} d" "frame k c d" "nf d = nf c" "slot d k = ?f 40" "pos d = pos c + 40" for d
    using that assms(2) frame_trans [OF that(2)]
    by (intro append_part_wp [OF that(1)]) (auto intro: fin [where n = 40])
  then have "wp (read_fixed_size_field k 40) (\<lambda>_. wp append_new_field (\<lambda>n. wp (field_ptr k) (\<lambda>p.
      wp (make_field n STI_ACCOUNT XRP_ACCOUNT_ISSUER (p + 20) XRP_ACCOUNT_SIZE) (\<lambda>_. value_read k c)
      plain_error) plain_error) plain_error) plain_error c"
    using assms(2) by (intro read_fixed_size_field_wp [OF assms(1)])
      (auto simp: append_then_ptr [where p = "pos c"] inv_ctx_ok)
  moreover have "pos c + 20 \<le> length (data c)" if "has_data c 20"
    using that has_data_iff [OF inv_ctx_ok [OF assms(1)], of 20] inv_ctx_ok [OF assms(1)]
    by (simp add: MAX_LEN_def ctx_ok_def)
  ultimately show ?thesis
    using short by (simp add: read_issue_def wp_rules current_position_def)
qed

lemma handle_array_field_wp:
  assumes "ctx_inv {k} c" and "k < nf c" and "data_type (slot c k) = STI_ARRAY"
  shows "wp (handle_array_field k) (\<lambda>_. value_read k c) plain_error c"
  using assms
  by (simp add: handle_array_field_def wp_rules slot_ok value_read_def inv_ctx_upd frame_def
      value_shape_def field_shape_def)

lemma handle_object_field_wp:
  assumes "ctx_inv {k} c" and "k < nf c" and "data_type (slot c k) = STI_OBJECT"
  shows "wp (handle_object_field k) (\<lambda>_. value_read k c) plain_error c"
  using assms
  by (simp add: handle_object_field_def wp_rules slot_ok value_read_def inv_ctx_upd frame_def
      value_shape_def field_shape_def)

lemma handle_path_set_field_wp:
  assumes "ctx_inv {k} c" and "k < nf c" and "data_type (slot c k) = STI_PATHSET"
  shows "wp handle_path_set_field (\<lambda>_. value_read k c) plain_error c"
  using assms
  by (simp add: handle_path_set_field_def wp_rules slot_ok value_read_def inv_ctx_upd frame_def
      value_shape_def field_shape_def)

section \<open>Path sets\<close>

lemma path_step_fields_wp:
  assumes "ctx_inv {k} c" and "k < nf c" and "frame k c0 c" and "k < nf c0"
    and "fdata (slot c k) = DPtr p" and "unat (fld_length (slot c k)) = 20" and "p + 20 \<le> pos c"
    and "t = STI_ACCOUNT \<or> t = STI_CURRENCY" and "nf c = nf c0 \<or> t = STI_CURRENCY"
  shows "wp (upd_field k (\<lambda>f. f\<lparr>data_type := t, fld_id := i\<rparr>)) (\<lambda>_. value_read k c0) plain_error c"
proof (rule upd_field_wp [OF inv_ctx_ok [OF assms(1)] assms(2)])
  fix c1 assume c1: "frame k c c1" "\<And>K. ctx_inv K c \<Longrightarrow> k \<in> K \<Longrightarrow> ctx_inv K c1" "nf c1 = nf c"
    "offset c1 = offset c" "slot c1 k = (slot c k)\<lparr>data_type := t, fld_id := i\<rparr>"
  show "value_read k c0 c1"
    using assms c1
    by (intro value_readI [OF c1(2) [OF assms(1)] frame_trans [OF assms(3) c1(1)] c1(5)])
      (auto simp: value_shape_def field_shape_def spans_def may_add_fields_def)
qed

lemma issuer_step_wp:
  assumes "ctx_inv {k} c" and "k < nf c"
    and "\<And>d n. ctx_inv {k} d \<Longrightarrow> frame k c d \<Longrightarrow> slot d k = slot c k \<Longrightarrow> k < nf d \<Longrightarrow> pos c \<le> pos d \<Longrightarrow> Q () d"
  shows "wp append_new_field (\<lambda>n. wp (handle_path_step n 0x20) Q plain_error) plain_error c"
proof (rule append_new_field_wp [OF inv_ctx_ok [OF assms(1)]])
  let ?n = "nf c"
  fix c1 assume c1: "\<And>k. frame k c c1" "\<And>K. ctx_inv K c \<Longrightarrow> ctx_inv (insert ?n K) c1"
    "nf c1 = ?n + 1" "offset c1 = offset c"
  note i1 = c1(2) [OF assms(1)]
  have "wp (upd_field ?n (\<lambda>f. f\<lparr>data_type := STI_ACCOUNT, fld_id := XRP_ACCOUNT_ISSUER\<rparr>)) Q
      plain_error d"
    if d: "ctx_inv {?n, k} d" "frame ?n c1 d" "nf d = nf c1" "pos d = pos c1 + 20"
      "slot d ?n = (slot c1 ?n)\<lparr>fdata := DPtr (pos c1), fld_length := 20\<rparr>" for d
  proof (rule upd_field_wp [OF inv_ctx_ok [OF d(1)]])
    fix e assume e: "frame ?n d e" "\<And>K. ctx_inv K d \<Longrightarrow> ?n \<in> K \<Longrightarrow> ctx_inv K e" "nf e = nf d"
      "offset e = offset d"
      "slot e ?n = (slot d ?n)\<lparr>data_type := STI_ACCOUNT, fld_id := XRP_ACCOUNT_ISSUER\<rparr>"
    have "ctx_inv ({?n, k} - {?n}) e"
      using d(4,5) e(4,5) by (intro inv_close e(2) d(1)) (simp_all add: field_shape_def spans_def)
    moreover have "{?n, k} - {?n} = {k}" using assms(2) by auto
    ultimately have "ctx_inv {k} e" by simp
    moreover have f: "frame ?n c e"
      by (rule frame_trans [OF c1(1) frame_trans [OF d(2) e(1)]])
    moreover have "frame k c e" using f by (simp add: frame_def)
    ultimately show "Q () e"
      using assms(2) c1 d e frame_slot [OF f assms(2)] by (intro assms(3)) auto
  qed (simp add: c1 d)
  then show "wp (handle_path_step ?n 0x20) Q plain_error c1"
    by (subst handle_path_step.simps)
      (auto simp: wp_rules c1 intro!: read_fixed_size_field_wp [OF i1])
qed simp

lemma handle_path_step_wp:
  assumes "ctx_inv {k} c" and "k < nf c"
  shows "wp (handle_path_step k step) (\<lambda>_. value_read k c) plain_error c"
proof -
  let ?f = "(slot c k)\<lparr>fdata := DPtr (pos c), fld_length := 20\<rparr>"
  have typed: "wp (upd_field k (\<lambda>f. f\<lparr>data_type := t, fld_id := i\<rparr>)) (\<lambda>_. value_read k c) plain_error d"
    if "ctx_inv {k} d" "k < nf d" "frame k c d" "slot d k = ?f" "pos c + 20 \<le> pos d"
      "t = STI_ACCOUNT \<or> t = STI_CURRENCY" "nf d = nf c \<or> t = STI_CURRENCY" for d t i
    using that assms by (intro path_step_fields_wp [OF that(1-3), where p = "pos c"]) auto
  have step: "wp append_new_field (\<lambda>n. wp (handle_path_step n 0x20) (\<lambda>_. wp (upd_field k
      (\<lambda>f. f\<lparr>data_type := STI_CURRENCY, fld_id := XRP_CURRENCY_CURRENCY\<rparr>)) (\<lambda>_. value_read k c)
      plain_error) plain_error) plain_error d"
    if d: "ctx_inv {k} d" "k < nf d" "frame k c d" "slot d k = ?f" "pos d = pos c + 20" for d
    using frame_trans [OF d(3)] d by (intro issuer_step_wp [OF d(1,2)]) (auto intro!: typed)
  show ?thesis
    by (subst handle_path_step.simps)
      (use assms in \<open>auto simp: wp_rules intro!: read_fixed_size_field_wp [OF assms(1)] typed step\<close>)
qed

lemma handle_path_field_wp:
  assumes "ctx_inv {k} c" and "k < nf c"
  shows "wp (handle_path_field k) (\<lambda>_ d. value_read k c d \<and> pos c < pos d) plain_error c"
  unfolding handle_path_field_def wp_CHECK
proof (rule upd_field_wp [OF inv_ctx_ok [OF assms(1)] assms(2)])
  fix c1 assume c1: "ctx_ok c1" "frame k c c1" "\<And>K. ctx_inv K c \<Longrightarrow> k \<in> K \<Longrightarrow> ctx_inv K c1"
    "nf c1 = nf c" "offset c1 = offset c" "slot c1 k = (slot c k)\<lparr>data_type := STI_PATHSET\<rparr>"
  have i1: "ctx_inv {k} c1" using c1(3) [OF assms(1)] by simp
  let ?rest = "\<lambda>b. if b = PATHSET_NEXT then
       CHECK (modify (\<lambda>c. c\<lparr>array_index1 := array_index1 c + 1, array_index2 := 1\<rparr>)) (\<lambda>_.
       CHECK (gets array_index1) (\<lambda>i1.
       if i1 > MAX_PATH_COUNT then throw INVALID_STATE else return ()))
     else if b = PATHSET_END then modify (\<lambda>c. c\<lparr>current_array := ARRAY_NONE\<rparr>)
     else
       CHECK (gets array_index2) (\<lambda>i2.
       if i2 > MAX_STEP_COUNT then throw INVALID_STATE
       else CHECK (handle_path_step k b) (\<lambda>_. modify (\<lambda>c. c\<lparr>array_index2 := array_index2 c + 1\<rparr>)))"
  let ?Q = "\<lambda>_ d. value_read k c d \<and> pos c < pos d"
  show "wp read_next_byte (\<lambda>b. wp (?rest b) ?Q plain_error) plain_error c1"
  proof (rule read_next_byte_wp [OF c1(1)])
    fix c2 assume c2: "c2 = c1\<lparr>offset := offset c1 + 1\<rparr>" "has_data c1 1" "pos c2 = pos c1 + 1"
    have i2: "ctx_inv {k} c2"
      using inv_advance [OF i1, of 1] c2 by (simp add: MAX_LEN_def)
    have f2: "frame k c c2"
      using c1(2) c2 by (simp add: frame_def)
    have s2: "slot c2 k = (slot c k)\<lparr>data_type := STI_PATHSET\<rparr>" "nf c2 = nf c"
      using c1 c2 by simp_all
    have p2: "pos c < pos c2" using c1 c2 by simp
    have "wp (handle_path_step k b) (\<lambda>_ d. ?Q () (d\<lparr>array_index2 := array_index2 d + 1\<rparr>))
        plain_error c2" for b
      by (rule wp_mono [OF handle_path_step_wp [OF i2]])
        (use assms(2) s2 p2 in \<open>auto simp: value_read_step value_read_from [OF _ f2 s2(2)]
           dest: value_read_pos\<close>)
    moreover have "value_read k c (c2\<lparr>current_array := a\<rparr>)"
      and "value_read k c (c2\<lparr>array_index1 := i, array_index2 := j\<rparr>)" for a i j
      using i2 f2 s2
      by (simp_all add: value_read_def inv_ctx_upd frame_def value_shape_def field_shape_def)
    ultimately show "wp (?rest (data c1 ! pos c1)) ?Q plain_error c2"
      using p2 by (simp add: wp_rules)
  qed simp
qed

section \<open>One field\<close>

lemma scalar_wp:
  assumes "ctx_inv {k} c" and "k < nf c"
    and "\<And>l bs. value_shape l ((slot c k)\<lparr>fld_length := n, fdata := g bs\<rparr>)"
  shows "wp (read_fixed_size_field k n) (\<lambda>_. wp (field_ptr k) (\<lambda>p. wp (mem p (unat n)) (\<lambda>bs.
     wp (upd_field k (\<lambda>f. f\<lparr>fdata := g bs\<rparr>)) (\<lambda>_. value_read k c) plain_error)
     plain_error) plain_error) plain_error c"
proof (rule read_fixed_size_field_wp [OF assms(1) _ assms(2)])
  fix d assume d: "ctx_inv {k} d" "frame k c d" "nf d = nf c"
    "slot d k = (slot c k)\<lparr>fdata := DPtr (pos c), fld_length := n\<rparr>" "pos d = pos c + unat n"
    "pos d \<le> length (data d)"
  have "wp (upd_field k (\<lambda>f. f\<lparr>fdata := g bs\<rparr>)) (\<lambda>_. value_read k c) plain_error d" for bs
  proof (rule upd_field_wp [OF inv_ctx_ok [OF d(1)]])
    fix e assume e: "frame k d e" "\<And>K. ctx_inv K d \<Longrightarrow> k \<in> K \<Longrightarrow> ctx_inv K e" "nf e = nf d"
      "slot e k = (slot d k)\<lparr>fdata := g bs\<rparr>"
    show "value_read k c e"
      using d e assms(3) by (intro value_readI [OF e(2) [OF d(1)] frame_trans [OF d(2) e(1)] e(4)]) simp_all
  qed (simp add: d assms)
  then show "wp (field_ptr k) (\<lambda>p. wp (mem p (unat n)) (\<lambda>bs.
     wp (upd_field k (\<lambda>f. f\<lparr>fdata := g bs\<rparr>)) (\<lambda>_. value_read k c) plain_error)
     plain_error) plain_error d"
    using d assms(2) by (simp add: wp_rules slot_ok)
qed simp

lemma fixed_wp:
  assumes "ctx_inv {k} c" and "k < nf c"
    and "\<And>l p. p + unat n \<le> l \<Longrightarrow> value_shape l ((slot c k)\<lparr>fdata := DPtr p, fld_length := n\<rparr>)"
  shows "wp (read_fixed_size_field k n) (\<lambda>_. value_read k c) plain_error c"
  using assms by (intro read_fixed_size_field_wp [OF assms(1)]) (auto intro: value_readI)

lemma read_field_value_wp:
  assumes "ctx_inv {k} c" and "k < nf c"
  shows "wp (read_field_value k) (\<lambda>_. value_read k c) plain_error c"
proof -
  note read = scalar_wp [OF assms, where g = "\<lambda>bs. DU8 (bs ! 0)" and n = 1]
    scalar_wp [OF assms, where g = "\<lambda>bs. DU16 (ucast (bs ! 1) OR push_bit 8 (ucast (bs ! 0)))" and n = 2]
    scalar_wp [OF assms, where g = "\<lambda>bs. DU32 (ucast (bs ! 3) OR push_bit 8 (ucast (bs ! 2)) OR
      push_bit 16 (ucast (bs ! 1)) OR push_bit 24 (ucast (bs ! 0)))" and n = 4]
    fixed_wp [OF assms, where n = 16] fixed_wp [OF assms, where n = 32]
  have vl: "wp (read_variable_length_field k) (\<lambda>_. value_read k c) plain_error c"
    if "data_type (slot c k) = STI_VL \<or> data_type (slot c k) = STI_ACCOUNT"
    using that assms(2) by (intro read_variable_length_field_wp [OF assms(1)])
      (auto intro!: value_readI simp: value_shape_def field_shape_def spans_def)
  show ?thesis
    using assms read vl
    by (simp add: read_field_value_def wp_rules slot_ok Let_def read_amount_wp read_vector256_field_wp
        handle_array_field_wp handle_object_field_wp handle_path_set_field_wp read_issue_wp
        value_shape_def field_shape_def spans_def)
qed

text \<open>Reading a byte into the field, or setting it, between two states of the header.\<close>

definition header_read :: "nat \<Rightarrow> parseContext_t \<Rightarrow> parseContext_t \<Rightarrow> bool" where
  "header_read k c d \<longleftrightarrow> ctx_inv {k} d \<and> frame k c d \<and> nf d = nf c"

lemma header_read_trans: "header_read k c d \<Longrightarrow> header_read k d e \<Longrightarrow> header_read k c e"
  using frame_trans by (auto simp: header_read_def)

lemma header_read_upd:
  assumes "header_read k c d" and "k < nf c" and "\<And>e. header_read k c e \<Longrightarrow> pos e = pos d \<Longrightarrow> Q () e"
  shows "wp (upd_field k f) Q plain_error d"
  using assms
  by (intro upd_field_wp) (auto simp: header_read_def intro!: assms(3) intro: inv_ctx_ok frame_trans)

lemma header_read_byte:
  assumes "header_read k c d" and "\<And>b e. header_read k c e \<Longrightarrow> pos e = pos d + 1 \<Longrightarrow> Q b e"
  shows "wp read_next_byte Q plain_error d"
proof (rule read_next_byte_wp)
  show "ctx_ok d" using assms(1) by (auto simp: header_read_def intro: inv_ctx_ok)
  fix e assume e: "e = d\<lparr>offset := offset d + 1\<rparr>" "has_data d 1" "pos e = pos d + 1"
  have "ctx_inv {k} e"
    using e inv_advance [of "{k}" d 1] assms(1) by (simp add: header_read_def MAX_LEN_def)
  then show "Q (data d ! pos d) e"
    using e assms(1) by (intro assms(2)) (auto simp: header_read_def frame_def)
qed simp

lemma read_field_header_wp:
  assumes "ctx_inv {k} c" and "k < nf c"
  shows "wp (read_field_header k) (\<lambda>_ d. header_read k c d \<and> pos c < pos d) plain_error c"
proof -
  have c: "header_read k c c" using assms by (simp add: header_read_def)
  show ?thesis
    using assms(2)
    by (auto simp: read_field_header_def read_field_code_def wp_rules
        intro!: header_read_byte [OF c] header_read_upd [where c = c] header_read_byte [where c = c])
qed

definition field_error :: "parseContext_t \<Rightarrow> exc \<Rightarrow> parseContext_t \<Rightarrow> bool" where
  "field_error c e d \<longleftrightarrow>
     e \<noteq> BAD_ACCESS \<and>
     (e = BLIND_SIGN_REQUIRED \<longrightarrow>
       ctx_inv {} d \<and> data d = data c \<and> ctx_length d = ctx_length c)"

lemma plain_is_field_error: "plain_error e d \<Longrightarrow> field_error c e d"
  by (simp add: plain_error_def field_error_def)

lemma field_error_from: "field_error d e x \<Longrightarrow> frame k c d \<Longrightarrow> field_error c e x"
  by (simp add: field_error_def frame_def)

text \<open>The contract of one whole field.\<close>

definition field_read :: "nat \<Rightarrow> parseContext_t \<Rightarrow> parseContext_t \<Rightarrow> bool" where
  "field_read k c c' \<longleftrightarrow>
     ctx_inv {} c' \<and> frame k c c' \<and>
     (nf c' = nf c \<or> may_add_fields (data_type (slot c' k)))"

lemma inv_shaped: "ctx_inv {k} c \<Longrightarrow> field_shape (pos c) (slot c k) \<Longrightarrow> ctx_inv {} c"
  by (auto simp: ctx_inv_def)

lemma post_process_field_wp:
  assumes "value_read k c d" and "k < nf c"
  shows "wp (post_process_field k) (\<lambda>_ e. field_read k c e \<and> offset e = offset d) (field_error c) d"
proof -
  have i: "ctx_inv {k} d" and v: "value_shape (pos d) (slot d k)" and f: "frame k c d"
    using assms(1) by (simp_all add: value_read_def)
  have k: "k < length (res_fields (result d))"
    using f assms(2) by (intro slot_ok [OF i]) (simp add: frame_def)
  have shape: "field_shape (pos d) (slot d k)"
    if "data_type (slot d k) = STI_ACCOUNT \<longrightarrow> fld_length (slot d k) = 20"
  proof (cases "data_type (slot d k) = STI_ACCOUNT")
    case True
    then show ?thesis
      using v that by (simp add: value_shape_def field_shape_def spans_def split: field_data.splits)
  qed (use v in \<open>simp add: value_shape_def\<close>)
  have ok: "field_read k c d"
    if "data_type (slot d k) = STI_ACCOUNT \<longrightarrow> fld_length (slot d k) = 20"
    using assms(1) inv_shaped [OF i shape [OF that]] by (simp add: field_read_def value_read_def)
  have upd: "field_read k c (d\<lparr>transaction_type := t\<rparr>)" "field_read k c (d\<lparr>has_empty_pub_key := b\<rparr>)"
    if "field_read k c d" for t b
    using that by (simp_all add: field_read_def inv_ctx_upd frame_def)
  have u16: "\<exists>w. fdata (slot d k) = DU16 w" if "data_type (slot d k) = STI_UINT16"
    using v that by (simp add: value_shape_def field_shape_def split: field_data.splits)
  have err: "field_error c e d" if "field_read k c d" "e \<noteq> BAD_ACCESS" for e
    using that by (simp add: field_error_def field_read_def frame_def)
  have plain: "field_error c INVALID_STATE d" by (simp add: field_error_def)
  show ?thesis
    using ok upd [OF ok] err [OF ok] plain u16
    by (auto simp: post_process_field_def wp_rules k Let_def is_transaction_type_field_def)
qed

lemma field_read_from:
  "field_read k d e \<Longrightarrow> frame k c d \<Longrightarrow> nf d = nf c \<Longrightarrow> field_read k c e"
  using frame_trans by (auto simp: field_read_def)

lemma read_field_wp:
  assumes "ctx_inv {k} c" and "k < nf c"
  shows "wp (read_field k) (\<lambda>_ d. field_read k c d \<and> pos c < pos d) (field_error c) c"
proof -
  let ?Q = "\<lambda>_ d. field_read k c d \<and> pos c < pos d"
  have path: "wp (handle_path_field k) (\<lambda>_. wp (post_process_field k) ?Q (field_error c)) (field_error c) c"
    by (rule wp_mono [OF handle_path_field_wp [OF assms] _ plain_is_field_error])
      (auto intro: wp_mono [OF post_process_field_wp [OF _ assms(2)]])
  have "wp (read_field_value k) (\<lambda>_. wp (post_process_field k) ?Q (field_error c)) (field_error c) d"
    if d: "header_read k c d" "pos c < pos d" for d
  proof (rule wp_mono [OF read_field_value_wp _ plain_is_field_error])
    show "ctx_inv {k} d" "k < nf d" using d assms(2) by (simp_all add: header_read_def)
    fix e assume e: "value_read k d e"
    show "wp (post_process_field k) ?Q (field_error c) e"
      by (rule wp_mono [OF post_process_field_wp [OF e]])
        (use d e assms(2) in \<open>auto simp: header_read_def dest: value_read_pos
           intro: field_read_from field_error_from\<close>)
  qed
  then have "wp (read_field_header k) (\<lambda>_. wp (read_field_value k) (\<lambda>_. wp (post_process_field k) ?Q
      (field_error c)) (field_error c)) (field_error c) c"
    by (intro wp_mono [OF read_field_header_wp [OF assms] _ plain_is_field_error]) auto
  with path show ?thesis
    by (simp add: read_field_def wp_rules)
qed

text \<open>Removing a hidden field always finds it in the last slot.\<close>

lemma hidden_adds_nothing: "is_field_hidden f \<Longrightarrow> \<not> may_add_fields (data_type f)"
  by (auto simp: is_field_hidden_def HIDE_def is_flag_hidden_def is_flag_def may_add_fields_def)

lemma remove_last_field_wp:
  assumes "ctx_inv {} c" and "nf c = k + 1"
    and "\<And>d. d = set_fields (\<lambda>r. r\<lparr>res_fields := (res_fields r)[k := zero_field],
        num_fields := num_fields r - 1\<rparr>) c \<Longrightarrow>
       ctx_inv {} d \<Longrightarrow> nf d = k \<Longrightarrow> offset d = offset c \<Longrightarrow> (\<And>i. i < k \<Longrightarrow> slot d i = slot c i) \<Longrightarrow> Q () d"
  shows "wp (remove_last_field k) Q E c"
proof -
  let ?d = "set_fields (\<lambda>r. r\<lparr>res_fields := (res_fields r)[k := zero_field],
    num_fields := num_fields r - 1\<rparr>) c"
  have n: "unat (num_fields (result c) - 1) = k"
    using assms(2) by (simp add: unat_dec)
  have k: "k < length (res_fields (result c))"
    using assms(1,2) by (auto simp: ctx_inv_def ctx_ok_def)
  have "Q () ?d"
  proof (rule assms(3))
    show "ctx_inv {} ?d"
      using assms(1,2) n by (auto simp: ctx_inv_def ctx_ok_def nth_list_update)
  qed (simp_all add: n)
  moreover have "num_fields (result c) \<noteq> 0" using assms(2) by auto
  ultimately show ?thesis
    using k n assms(2)
    by (simp add: remove_last_field_def wp_rules wp_upd_field set_fields_def)
qed

text \<open>One turn of the loop: the invariant again, at a later position.\<close>

definition turn :: "parseContext_t \<Rightarrow> parseContext_t \<Rightarrow> bool" where
  "turn c d \<longleftrightarrow>
     ctx_inv {} d \<and> data d = data c \<and> ctx_length d = ctx_length c \<and> pos c < pos d \<and>
     nf c \<le> nf d \<and> (\<forall>i < nf c. slot d i = slot c i)"

lemma parse_one_field_wp:
  assumes "ctx_inv {} c"
  shows "wp parse_one_field (\<lambda>_. turn c) (field_error c) c"
proof -
  let ?k = "nf c"
  have body: "wp (read_field ?k) (\<lambda>_. wp (get_field ?k) (\<lambda>f. wp (if is_field_hidden f
      then remove_last_field ?k else return ()) (\<lambda>_. turn c) (field_error c)) (field_error c)) (field_error c) d"
    if d: "frame (Suc ?k) c d" "ctx_inv {?k} d" "nf d = ?k + 1" "offset d = offset c" for d
  proof (rule wp_mono [OF read_field_wp [OF d(2)]])
    fix e assume e: "field_read ?k d e \<and> pos d < pos e"
    have i: "ctx_inv {} e" and f: "frame ?k d e"
      and n: "nf e = nf d \<or> may_add_fields (data_type (slot e ?k))"
      using e by (simp_all add: field_read_def)
    have ke: "?k < length (res_fields (result e))"
      using f d(3) by (intro slot_ok [OF i]) (simp add: frame_def)
    have t: "turn c e"
      using d e i f by (auto simp: turn_def frame_def)
    have "wp (remove_last_field ?k) (\<lambda>_. turn c) (field_error c) e" if "is_field_hidden (slot e ?k)"
    proof (rule remove_last_field_wp [OF i])
      show "nf e = ?k + 1" using n hidden_adds_nothing [OF that] d(3) by simp
    qed (use t in \<open>auto simp: turn_def\<close>)
    with t show "wp (get_field ?k) (\<lambda>f. wp (if is_field_hidden f then remove_last_field ?k else return ())
        (\<lambda>_. turn c) (field_error c)) (field_error c) e"
      by (simp add: wp_rules ke)
  qed (use d in \<open>auto intro: field_error_from\<close>)
  show ?thesis
    unfolding parse_one_field_def wp_CHECK
  proof (rule append_new_field_wp [OF inv_ctx_ok [OF assms]])
    fix d assume "\<And>k. frame k c d" "\<And>K. ctx_inv K c \<Longrightarrow> ctx_inv (insert ?k K) d" "nf d = ?k + 1"
      "offset d = offset c"
    then show "wp (read_field ?k) (\<lambda>_. wp (get_field ?k) (\<lambda>f. wp (if is_field_hidden f
      then remove_last_field ?k else return ()) (\<lambda>_. turn c) (field_error c)) (field_error c)) (field_error c) d"
      using assms by (intro body) auto
  qed (simp add: plain_is_field_error)
qed

section \<open>The whole transaction\<close>

text \<open>Where the parser may end: the outcome \<open>r\<close> and the context \<open>d\<close>, from \<open>c\<close>.\<close>

definition ends_well :: "parseContext_t \<Rightarrow> exc + unit \<Rightarrow> parseContext_t \<Rightarrow> bool" where
  "ends_well c r d \<longleftrightarrow>
     (case r of Inl e \<Rightarrow> field_error c e d
      | Inr _ \<Rightarrow> ctx_inv {} d \<and> data d = data c \<and> ctx_length d = ctx_length c \<and>
          offset d = ctx_length d)"

lemma wp_cases:
  assumes "wp m Q E s"
  obtains x t where "m s = (Inr x, t)" "Q x t" | e t where "m s = (Inl e, t)" "E e t"
  using assms by (auto simp: wp_def split: prod.splits sum.splits)

lemma ends_well_turn: "ends_well d r x \<Longrightarrow> turn c d \<Longrightarrow> ends_well c r x"
  by (auto simp: ends_well_def turn_def field_error_def split: sum.splits)

lemma parse_loop_ends:
  "ctx_inv {} c \<Longrightarrow> \<exists>r d. parse_loop c = Some (r, d) \<and> ends_well c r d"
proof (induction "unat (ctx_length c) - pos c" arbitrary: c rule: less_induct)
  case less
  have le: "pos c \<le> unat (ctx_length c)" using less.prems by (simp add: ctx_inv_def ctx_ok_def)
  show ?case
  proof (cases "offset c = ctx_length c")
    case True
    then show ?thesis
      using less.prems by (subst parse_loop.simps) (simp add: ends_well_def)
  next
    case False
    with le have lt: "\<not> offset c > ctx_length c" by (simp add: word_less_nat_alt)
    from parse_one_field_wp [OF less.prems] show ?thesis
    proof (cases rule: wp_cases)
      case (1 x d)
      have "pos d \<le> unat (ctx_length d)" and "ctx_length d = ctx_length c" and "pos c < pos d"
        and i: "ctx_inv {} d"
        using 1(2) by (auto simp: turn_def ctx_inv_def ctx_ok_def)
      then have "unat (ctx_length d) - pos d < unat (ctx_length c) - pos c" by simp
      with i obtain r e where "parse_loop d = Some (r, e)" "ends_well d r e"
        using less.hyps [of d] by blast
      with 1 False lt show ?thesis
        by (subst parse_loop.simps) (auto intro: ends_well_turn)
    next
      case (2 e d)
      with False lt show ?thesis by (subst parse_loop.simps) (simp add: ends_well_def)
    qed
  qed
qed

text \<open>The last steps: an empty regular key, the sort, the checks.\<close>

lemma ctx_inv_sorted:
  assumes "ctx_inv {} c" and "sort_fields (result c) = Some r"
  shows "ctx_inv {} (c\<lparr>result := r\<rparr>)"
    and "used_fields r = sort_key get_priority_score (used_fields (result c))"
proof -
  let ?n = "nf c"
  have ok: "length (res_fields (result c)) = 60" "?n \<le> 60"
    using assms(1) by (simp_all add: ctx_inv_def ctx_ok_def)
  then have le: "?n \<le> length (res_fields (result c))" by simp
  from sort_fields_sort_key [OF le] assms(2)
  have n: "num_fields r = num_fields (result c)" and l: "length (res_fields r) = 60"
    and u: "used_fields r = sort_key get_priority_score (used_fields (result c))"
    and d: "drop ?n (res_fields r) = drop ?n (res_fields (result c))"
    using ok by auto
  show "used_fields r = sort_key get_priority_score (used_fields (result c))" by (rule u)
  have "res_fields r ! i = zero_field" if "?n \<le> i" "i < 60" for i
    using that assms(1) arg_cong [OF d, of "\<lambda>xs. xs ! (i - ?n)"] l ok
    by (simp add: ctx_inv_def ctx_ok_def)
  moreover have "field_shape (pos c) (res_fields r ! i)" if "i < ?n" for i
  proof -
    have "res_fields r ! i \<in> set (used_fields r)"
      using that n l ok by (auto simp: in_used_fields)
    then have "res_fields r ! i \<in> set (used_fields (result c))" by (simp add: u)
    then show ?thesis using assms(1) le by (auto simp: in_used_fields ctx_inv_def)
  qed
  ultimately show "ctx_inv {} (c\<lparr>result := r\<rparr>)"
    using assms(1) n l by (simp add: ctx_inv_def ctx_ok_def)
qed

lemma append_reg_key_wp:
  assumes "ctx_inv {} c"
    and "\<And>d. ctx_inv {} d \<Longrightarrow> frame (Suc (nf c)) c d \<Longrightarrow> offset d = offset c \<Longrightarrow>
       transaction_type d = transaction_type c \<Longrightarrow> Q () d"
  shows "wp append_new_field (\<lambda>n. wp (upd_field n (\<lambda>f. f\<lparr>data_type := STI_ACCOUNT,
     fld_id := XRP_ACCOUNT_REGULAR_KEY, fdata := DZero\<rparr>)) Q plain_error) plain_error c"
proof (rule append_new_field_wp [OF inv_ctx_ok [OF assms(1)]])
  let ?n = "nf c" and ?g = "\<lambda>f :: field_t. f\<lparr>data_type := STI_ACCOUNT,
     fld_id := XRP_ACCOUNT_REGULAR_KEY, fdata := DZero\<rparr>"
  fix d assume d: "d = appended c" "ctx_ok d" "\<And>k. frame k c d" "slot d ?n = new_field_at c"
    "\<And>K. ctx_inv K c \<Longrightarrow> ctx_inv (insert ?n K) d" "nf d = ?n + 1" "offset d = offset c"
  show "wp (upd_field ?n ?g) Q plain_error d"
  proof (rule upd_field_wp [OF d(2)])
    fix e assume e: "e = set_fields (\<lambda>r. r\<lparr>res_fields := (res_fields r)[?n := ?g (res_fields r ! ?n)]\<rparr>) d"
      "frame ?n d e" "\<And>K. ctx_inv K d \<Longrightarrow> ?n \<in> K \<Longrightarrow> ctx_inv K e" "offset e = offset d"
      "slot e ?n = ?g (slot d ?n)"
    have "ctx_inv ({?n} - {?n}) e"
      using d(4,5) e(5) assms(1)
      by (intro inv_close e(3)) (simp_all add: field_shape_def new_field_at_def zero_field_def)
    moreover have "frame (Suc ?n) c e"
      using d(3) [of ?n] d(6) e(2) by (auto simp: frame_def)
    ultimately show "Q () e"
      using d e by (intro assms(2)) (auto simp: appended_def)
  qed (use d(6) in simp)
qed simp

lemma post_process_transaction_wp:
  assumes "ctx_inv {} c"
    and "\<And>d. ctx_inv {} d \<Longrightarrow> frame (Suc (nf c)) c d \<Longrightarrow> offset d = offset c \<Longrightarrow>
       transaction_type d = transaction_type c \<Longrightarrow> Q () d"
  shows "wp post_process_transaction Q plain_error c"
  using append_reg_key_wp [OF assms(1), of Q] assms
  by (simp add: post_process_transaction_def wp_rules)

text \<open>The field the flags check is about.\<close>

definition is_top_level_flags :: "field_t \<Rightarrow> bool" where
  "is_top_level_flags f \<longleftrightarrow>
     data_type f = STI_UINT32 \<and> fld_id f = XRP_UINT32_FLAGS \<and>
     ai_type (array_info f) = ARRAY_NONE \<and> object_depth f = 0"

lemma find_flags_loop_found:
  "find_flags_loop fs (Some v) = Some (Some v, \<exists>f \<in> set fs. is_top_level_flags f)"
  by (induction fs) (auto simp: is_top_level_flags_def)

lemma find_flags_loop_filter:
  "find_flags_loop fs None =
     (case filter is_top_level_flags fs of
        [] \<Rightarrow> Some (None, False)
      | f # rest \<Rightarrow> map_option (\<lambda>v. (Some v, rest \<noteq> [])) (data_u32 (fdata f)))"
proof (induction fs)
  case (Cons f fs)
  then show ?case
    by (cases "data_u32 (fdata f)")
      (auto simp: find_flags_loop_found is_top_level_flags_def filter_empty_conv)
qed simp

text \<open>What a transaction that is clear-signed looks like.\<close>

definition clear_signable :: "parseContext_t \<Rightarrow> bool" where
  "clear_signable d \<longleftrightarrow>
     (let fs = used_fields (result d); tx = transaction_type d in
      offset d = ctx_length d \<and>
      tx \<noteq> TRANSACTION_INVALID \<and> is_supported_transaction_type tx \<and>
      has_field d STI_UINT16 XRP_UINT16_TRANSACTION_TYPE True \<and>
      has_field d STI_ACCOUNT XRP_ACCOUNT_ACCOUNT True \<and>
      sorted (map get_priority_score fs) \<and>
      list_all is_field_recognized fs \<and>
      length (filter is_top_level_flags fs) \<le> 1 \<and>
      list_all (\<lambda>f. is_top_level_flags f \<longrightarrow>
        (case fdata f of DU32 v \<Rightarrow> \<not> has_unknown_flags tx v | _ \<Rightarrow> False)) fs)"

lemma shape_u32:
  "field_shape l f \<Longrightarrow> is_top_level_flags f \<Longrightarrow> \<exists>v. fdata f = DU32 v"
  by (auto simp: field_shape_def is_top_level_flags_def split: field_data.splits)

lemma inv_used_shape:
  "ctx_inv {} c \<Longrightarrow> f \<in> set (used_fields (result c)) \<Longrightarrow> field_shape (pos c) f"
  by (auto simp: in_used_fields ctx_inv_def ctx_ok_def)

lemma final_checks_wp:
  assumes "ctx_inv {} c" and "offset c = ctx_length c"
    and "sorted (map get_priority_score (used_fields (result c)))"
    and "has_field c STI_UINT16 XRP_UINT16_TRANSACTION_TYPE True"
    and "has_field c STI_ACCOUNT XRP_ACCOUNT_ACCOUNT True"
  shows "wp final_checks (\<lambda>_ d. d = c \<and> clear_signable d)
     (\<lambda>e d. e = BLIND_SIGN_REQUIRED \<and> d = c) c"
proof -
  let ?fs = "used_fields (result c)"
  have u32: "\<exists>v. fdata f = DU32 v" if "f \<in> set ?fs" "is_top_level_flags f" for f
    using shape_u32 [OF inv_used_shape [OF assms(1) that(1)] that(2)] .
  show ?thesis
  proof (cases "filter is_top_level_flags ?fs")
    case Nil
    then have "find_top_level_flags_value c = Some (None, False)"
      by (simp add: find_top_level_flags_value_def find_flags_loop_filter)
    moreover have "\<forall>f \<in> set ?fs. \<not> is_top_level_flags f"
      using Nil by (simp add: filter_empty_conv)
    ultimately show ?thesis
      using assms Nil
      by (simp add: final_checks_def wp_rules clear_signable_def Let_def list_all_iff)
  next
    case (Cons f rest)
    then have mem: "f \<in> set (filter is_top_level_flags ?fs)" by simp
    then obtain v where v: "fdata f = DU32 v" using u32 by auto
    then have found: "find_top_level_flags_value c = Some (Some v, rest \<noteq> [])"
      using Cons by (simp add: find_top_level_flags_value_def find_flags_loop_filter)
    have only: "\<forall>g \<in> set ?fs. is_top_level_flags g \<longrightarrow> g = f" if "rest = []"
    proof -
      have "set (filter is_top_level_flags ?fs) = {f}" using Cons that by simp
      then show ?thesis by auto
    qed
    show ?thesis
      using assms found only Cons v
      by (auto simp: final_checks_def wp_rules clear_signable_def Let_def list_all_iff)
  qed
qed

lemma wp_sort_result:
  assumes "ctx_inv {} c"
    and "\<And>d. ctx_inv {} d \<Longrightarrow> data d = data c \<Longrightarrow> ctx_length d = ctx_length c \<Longrightarrow> offset d = offset c \<Longrightarrow>
       used_fields (result d) = sort_key get_priority_score (used_fields (result c)) \<Longrightarrow> Q () d"
  shows "wp sort_result Q E c"
proof -
  obtain r where "sort_fields (result c) = Some r"
    using sort_fields_sort_key [of "result c"] assms(1) by (auto simp: ctx_inv_def ctx_ok_def)
  then show ?thesis
    using ctx_inv_sorted [OF assms(1)]
    by (auto simp: wp_def sort_result_def intro!: assms(2))
qed

lemma finish_parse_wp:
  assumes "ctx_inv {} c" and "offset c = ctx_length c"
  shows "wp finish_parse (\<lambda>_ d. ctx_inv {} d \<and> data d = data c \<and> ctx_length d = ctx_length c \<and>
     clear_signable d) (field_error c) c"
proof -
  let ?Q = "\<lambda>_ d. ctx_inv {} d \<and> data d = data c \<and> ctx_length d = ctx_length c \<and> clear_signable d"
  have checks: "wp sort_result (\<lambda>_. wp final_checks ?Q (field_error c)) (field_error c) d"
    if d: "ctx_inv {} d" "frame (Suc (nf c)) c d" "offset d = offset c"
      "has_field d STI_UINT16 XRP_UINT16_TRANSACTION_TYPE True"
      "has_field d STI_ACCOUNT XRP_ACCOUNT_ACCOUNT True" for d
  proof (rule wp_sort_result [OF d(1)])
    fix e assume e: "ctx_inv {} e" "data e = data d" "ctx_length e = ctx_length d"
      "offset e = offset d"
      "used_fields (result e) = sort_key get_priority_score (used_fields (result d))"
    show "wp final_checks ?Q (field_error c) e"
    proof (rule wp_mono [OF final_checks_wp [OF e(1)]])
      show "offset e = ctx_length e" using e d assms(2) by (simp add: frame_def)
      show "has_field e STI_UINT16 XRP_UINT16_TRANSACTION_TYPE True"
        "has_field e STI_ACCOUNT XRP_ACCOUNT_ACCOUNT True"
        using d e(5) by (simp_all add: has_field_def list_ex_iff)
      show "field_error c x y" if "x = BLIND_SIGN_REQUIRED \<and> y = e" for x y
        using that e d by (simp add: field_error_def frame_def)
    qed (use e d in \<open>auto simp: frame_def\<close>)
  qed
  have "wp post_process_transaction (\<lambda>_ d. wp (if \<not> has_field d STI_UINT16
      XRP_UINT16_TRANSACTION_TYPE True \<or> \<not> has_field d STI_ACCOUNT XRP_ACCOUNT_ACCOUNT True
      then throw NOT_SUPPORTED else CHECK sort_result (\<lambda>_. final_checks)) ?Q (field_error c) d)
      (field_error c) c"
    by (rule wp_mono [OF post_process_transaction_wp [OF assms(1), where Q =
        "\<lambda>_ d. ctx_inv {} d \<and> frame (Suc (nf c)) c d \<and> offset d = offset c"]])
      (auto simp: wp_rules field_error_def [of _ NOT_SUPPORTED] plain_is_field_error intro: checks)
  then show ?thesis
    by (simp add: finish_parse_def wp_rules)
qed

lemma parse_tx_ends:
  assumes "ctx_inv {} c"
  shows "\<exists>r d. parse_tx c = Some (r, d) \<and> ends_well c r d \<and>
     (r = Inr () \<longrightarrow> clear_signable d)"
proof -
  let ?c = "c\<lparr>transaction_type := TRANSACTION_INVALID, has_empty_pub_key := False, ctx_object_depth := 0\<rparr>"
  have i: "ctx_inv {} ?c" using assms by (simp add: ctx_inv_def ctx_ok_def)
  obtain r d where l: "parse_loop ?c = Some (r, d)" and e: "ends_well ?c r d"
    using parse_loop_ends [OF i] by blast
  show ?thesis
  proof (cases r)
    case (Inl x)
    with l e show ?thesis
      by (simp add: parse_tx_def parse_tx_internal_def ends_well_def field_error_def)
  next
    case (Inr x)
    with e have d: "ctx_inv {} d" "data d = data c" "ctx_length d = ctx_length c" "offset d = ctx_length d"
      by (simp_all add: ends_well_def)
    from finish_parse_wp [OF d(1,4)] show ?thesis
    proof (cases rule: wp_cases)
      case (1 u t)
      with l Inr d show ?thesis
        by (simp add: parse_tx_def parse_tx_internal_def ends_well_def clear_signable_def Let_def)
    next
      case (2 x t)
      with l Inr d show ?thesis
        by (simp add: parse_tx_def parse_tx_internal_def ends_well_def field_error_def)
    qed
  qed
qed

section \<open>The parser on received bytes\<close>

text \<open>
  A payment of one XRP, as in the repository's functional tests: TransactionType, Flags,
  Sequence, Amount, Fee, SigningPubKey, Account, Destination.
\<close>

definition payment_example :: "u8 list" where
  "payment_example =
     [0x12, 0, 0, 0x22, 0, 0, 0, 0, 0x24, 0, 0, 0, 3,
      0x61, 0x40, 0, 0, 0, 0, 0x0f, 0x42, 0x40, 0x68, 0x40, 0, 0, 0, 0, 0, 0, 0x0f,
      0x73, 0x21, 0x02, 0xb7, 0x9d, 0xa3, 0x4f, 0x45, 0x51, 0xca, 0x97, 0x6b, 0x66, 0xaa, 0x78,
      0xa5, 0x5c, 0x43, 0x70, 0x7e, 0xc2, 0xbb, 0x2b, 0xec, 0x39, 0xf9, 0x5b, 0xd5, 0x3f, 0x24,
      0xe2, 0xe4, 0x5a, 0x9e, 0x67,
      0x81, 0x14, 0x05, 0x11, 0xe1, 0x7d, 0xb8, 0x3b, 0xb6, 0xf1, 0x13, 0x93, 0x9d, 0x67, 0xbc,
      0x8e, 0xa5, 0x39, 0xed, 0xc9, 0x26, 0xfc,
      0x83, 0x14, 0x05, 0x11, 0xe1, 0x7d, 0xb8, 0x3b, 0xb6, 0xf1, 0x13, 0x93, 0x9d, 0x67, 0xbc,
      0x8e, 0xa5, 0x39, 0xed, 0xc9, 0x26, 0xfc]"

declare parse_loop.simps [code]

lemma parsed_resultE:
  assumes "case x of Some (Inr _, d) \<Rightarrow> P d | _ \<Rightarrow> False"
  shows "\<exists>d. x = Some (Inr (), d) \<and> P d"
proof (cases x)
  case (Some p)
  then show ?thesis using assms by (cases p; cases "fst p") simp_all
qed (use assms in simp)

lemma payment_example_parses:
  "\<exists>d. parse_tx (init_context payment_example 110) = Some (Inr (), d) \<and>
     map data_type (used_fields (result d)) =
       [STI_UINT16, STI_ACCOUNT, STI_AMOUNT, STI_AMOUNT, STI_ACCOUNT]"
proof -
  have "case parse_tx (init_context payment_example 110) of
      Some (Inr _, d) \<Rightarrow> map data_type (used_fields (result d)) =
        [STI_UINT16, STI_ACCOUNT, STI_AMOUNT, STI_AMOUNT, STI_ACCOUNT]
    | _ \<Rightarrow> False"
    by code_simp
  then show ?thesis by (rule parsed_resultE)
qed

lemma init_context_inv:
  assumes "unat len \<le> length bytes" and "unat len \<le> MAX_LEN"
  shows "ctx_inv {} (init_context bytes len)"
  using assms by (simp add: ctx_inv_def ctx_ok_def init_context_def zero_result_def)

text \<open>
  C8. Memory safety and termination. On every byte string, with the length the caller gives
  (within the buffer), \<open>parse_tx\<close> returns, and it never reads outside the transaction or the
  field array, nor the wrong member of a field's union.
\<close>

theorem parse_tx_safe:
  assumes "unat len \<le> length bytes" and "unat len \<le> MAX_LEN"
  shows "\<exists>r d. parse_tx (init_context bytes len) = Some (r, d) \<and> r \<noteq> Inl BAD_ACCESS"
proof -
  obtain r d where "parse_tx (init_context bytes len) = Some (r, d)"
    and "ends_well (init_context bytes len) r d"
    using parse_tx_ends [OF init_context_inv [OF assms]] by blast
  then show ?thesis by (cases r) (auto simp: ends_well_def field_error_def)
qed

theorem parse_tx_safe_witness:
  "\<exists>r d. parse_tx (init_context [0x12, 0, 0, 0x81, 0x14, 7] 6) = Some (r, d) \<and> r \<noteq> Inl BAD_ACCESS"
  by (rule parse_tx_safe) (simp_all add: MAX_LEN_def)

text \<open>
  C16. What the formatters may rely on. When the transaction goes on to be reviewed, clear or
  blind, every field's union holds the member its type says, with the length its type says, and
  a pointer covers bytes of the transaction only.
\<close>

theorem parse_tx_well_typed:
  assumes "unat len \<le> length bytes" and "unat len \<le> MAX_LEN"
    and "parse_tx (init_context bytes len) = Some (r, d)"
    and "r = Inr () \<or> r = Inl BLIND_SIGN_REQUIRED"
    and "f \<in> set (used_fields (result d))"
  shows "data d = bytes \<and> field_shape (unat len) f"
proof -
  from parse_tx_ends [OF init_context_inv [OF assms(1,2)]] assms(3,4)
  have d: "ctx_inv {} d" "data d = bytes" "ctx_length d = len"
    by (auto simp: ends_well_def field_error_def init_context_def split: sum.splits)
  then have "pos d \<le> unat len" by (auto simp: ctx_inv_def ctx_ok_def)
  with inv_used_shape [OF d(1) assms(5)] d(2) show ?thesis
    by (auto intro: field_shape_mono)
qed

theorem parse_tx_well_typed_witness:
  "\<exists>d f. parse_tx (init_context payment_example 110) = Some (Inr (), d) \<and>
     data_type f = STI_AMOUNT \<and> f \<in> set (used_fields (result d)) \<and> field_shape 110 f"
proof -
  obtain d where d: "parse_tx (init_context payment_example 110) = Some (Inr (), d)"
    and t: "map data_type (used_fields (result d)) =
      [STI_UINT16, STI_ACCOUNT, STI_AMOUNT, STI_AMOUNT, STI_ACCOUNT]"
    using payment_example_parses by (elim exE conjE)
  have "STI_AMOUNT \<in> set (map data_type (used_fields (result d)))" by (simp add: t)
  then obtain f where "f \<in> set (used_fields (result d))" "data_type f = STI_AMOUNT"
    by (metis imageE list.set_map)
  with parse_tx_well_typed [OF _ _ d, of f] d show ?thesis
    by (auto simp: payment_example_def MAX_LEN_def)
qed

end
