(* ===== verification/Wire.thy ===== *)
theory Wire
  imports Parser_Safety
begin

text \<open>
  The serialized form of a transaction, as an abstract grammar: a list of tokens, their bytes
  and the fields the app shows for them. \<open>Parser_Correct\<close> proves that the parser computes
  exactly these fields. Field headers are in their canonical, shortest form here.
\<close>

section \<open>Tokens\<close>

datatype wvalue =
    V_UInt8 u8 | V_UInt16 u16 | V_UInt32 u32
  | V_Hash128 "u8 list" | V_Hash256 "u8 list"
  | V_Xrp "u8 list" | V_Issued "u8 list"
  | V_Blob "u8 list" | V_Account "u8 list"
  | V_Vector256 "u8 list list"
  | V_IssueXrp | V_Issue "u8 list" "u8 list"
  | V_Array | V_Object | V_PathSet

text \<open>
  A field with its id, or an item of a path set: a step to an account, issuer, currency, or
  currency and issuer, the separator of two paths, the end of the set.
\<close>

datatype token =
    Field u8 wvalue
  | Path_Account "u8 list" | Path_Issuer "u8 list" | Path_Currency "u8 list"
  | Path_Both "u8 list" "u8 list"
  | Path_Next | Path_End

section \<open>Bytes\<close>

definition be16 :: "u16 \<Rightarrow> u8 list" where
  "be16 w = [ucast (drop_bit 8 w), ucast w]"

definition be32 :: "u32 \<Rightarrow> u8 list" where
  "be32 w = [ucast (drop_bit 24 w), ucast (drop_bit 16 w), ucast (drop_bit 8 w), ucast w]"

fun value_type :: "wvalue \<Rightarrow> u8" where
  "value_type (V_UInt8 _) = STI_UINT8"
| "value_type (V_UInt16 _) = STI_UINT16"
| "value_type (V_UInt32 _) = STI_UINT32"
| "value_type (V_Hash128 _) = STI_HASH128"
| "value_type (V_Hash256 _) = STI_HASH256"
| "value_type (V_Xrp _) = STI_AMOUNT"
| "value_type (V_Issued _) = STI_AMOUNT"
| "value_type (V_Blob _) = STI_VL"
| "value_type (V_Account _) = STI_ACCOUNT"
| "value_type (V_Vector256 _) = STI_VECTOR256"
| "value_type V_IssueXrp = STI_ISSUE"
| "value_type (V_Issue _ _) = STI_ISSUE"
| "value_type V_Array = STI_ARRAY"
| "value_type V_Object = STI_OBJECT"
| "value_type V_PathSet = STI_PATHSET"

text \<open>The bytes of a value, without the length prefix of \<open>value_prefix\<close>.\<close>

fun value_bytes :: "wvalue \<Rightarrow> u8 list" where
  "value_bytes (V_UInt8 w) = [w]"
| "value_bytes (V_UInt16 w) = be16 w"
| "value_bytes (V_UInt32 w) = be32 w"
| "value_bytes (V_Hash128 bs) = bs"
| "value_bytes (V_Hash256 bs) = bs"
| "value_bytes (V_Xrp bs) = bs"
| "value_bytes (V_Issued bs) = bs"
| "value_bytes (V_Blob bs) = bs"
| "value_bytes (V_Account bs) = bs"
| "value_bytes (V_Vector256 hs) = concat hs"
| "value_bytes V_IssueXrp = replicate 20 0"
| "value_bytes (V_Issue cur iss) = cur @ iss"
| "value_bytes V_Array = []"
| "value_bytes V_Object = []"
| "value_bytes V_PathSet = []"

definition vl_prefix :: "nat \<Rightarrow> u8 list" where
  "vl_prefix n =
     (if n \<le> 192 then [of_nat n]
      else [of_nat (193 + (n - 193) div 256), of_nat ((n - 193) mod 256)])"

definition MAX_VL :: nat where "MAX_VL = 12480"

fun value_prefix :: "wvalue \<Rightarrow> u8 list" where
  "value_prefix (V_Blob bs) = vl_prefix (length bs)"
| "value_prefix (V_Account bs) = vl_prefix (length bs)"
| "value_prefix (V_Vector256 hs) = vl_prefix (length (concat hs))"
| "value_prefix _ = []"

definition header_bytes :: "u8 \<Rightarrow> u8 \<Rightarrow> u8 list" where
  "header_bytes t i =
     (if t < 16 then
        if i < 16 then [push_bit 4 t OR i] else [push_bit 4 t, i]
      else
        if i < 16 then [i, t] else [0, t, i])"

fun token_bytes :: "token \<Rightarrow> u8 list" where
  "token_bytes (Field i v) = header_bytes (value_type v) i @ value_prefix v @ value_bytes v"
| "token_bytes (Path_Account a) = 0x01 # a"
| "token_bytes (Path_Issuer a) = 0x20 # a"
| "token_bytes (Path_Currency c) = 0x10 # c"
| "token_bytes (Path_Both c a) = 0x30 # c @ a"
| "token_bytes Path_Next = [PATHSET_NEXT]"
| "token_bytes Path_End = [PATHSET_END]"

text \<open>Where the value's own bytes start within the token.\<close>

fun token_skip :: "token \<Rightarrow> nat" where
  "token_skip (Field i v) = length (header_bytes (value_type v) i) + length (value_prefix v)"
| "token_skip _ = 1"

definition bytes :: "token list \<Rightarrow> u8 list" where
  "bytes ts = concat (map token_bytes ts)"

text \<open>Which values have bytes: the sizes of the type, a valid currency in an issued amount.\<close>

fun value_ok :: "wvalue \<Rightarrow> bool" where
  "value_ok (V_Hash128 bs) \<longleftrightarrow> length bs = 16"
| "value_ok (V_Hash256 bs) \<longleftrightarrow> length bs = 32"
| "value_ok (V_Xrp bs) \<longleftrightarrow> length bs = 8 \<and> drop_bit 7 (bs ! 0) = 0"
| "value_ok (V_Issued bs) \<longleftrightarrow>
     length bs = 48 \<and> drop_bit 7 (bs ! 0) \<noteq> 0 \<and>
     (let cur = take 20 (drop 8 bs) in \<not> is_all_zeros cur \<and> is_valid_currency cur)"
| "value_ok (V_Blob bs) \<longleftrightarrow> length bs \<le> MAX_VL"
| "value_ok (V_Account bs) \<longleftrightarrow> length bs = 20"
| "value_ok (V_Vector256 hs) \<longleftrightarrow> list_all (\<lambda>h. length h = 32) hs \<and> length hs \<le> 60"
| "value_ok (V_Issue cur iss) \<longleftrightarrow> length cur = 20 \<and> length iss = 20 \<and> \<not> is_all_zeros cur"
| "value_ok _ \<longleftrightarrow> True"

section \<open>The reader's state\<close>

text \<open>Where in arrays, objects and path sets the next token stands.\<close>

record cursor =
  c_array :: u8
  c_index1 :: u8
  c_index2 :: u8
  c_depth :: u8

fun next_cursor :: "token \<Rightarrow> cursor \<Rightarrow> cursor" where
  "next_cursor (Field i V_Array) c =
     (if i \<noteq> ARR_END then c\<lparr>c_array := i, c_index1 := 0, c_index2 := 0\<rparr>
      else c\<lparr>c_array := ARRAY_NONE\<rparr>)"
| "next_cursor (Field i V_Object) c =
     (if i \<noteq> OBJ_END then c\<lparr>c_index1 := c_index1 c + 1, c_depth := c_depth c + 1\<rparr>
      else if c_depth c > 0 then c\<lparr>c_depth := c_depth c - 1\<rparr> else c)"
| "next_cursor (Field i V_PathSet) c = c\<lparr>c_array := ARRAY_PATHSET, c_index1 := 1, c_index2 := 1\<rparr>"
| "next_cursor (Field i _) c = c"
| "next_cursor Path_Next c = c\<lparr>c_index1 := c_index1 c + 1, c_index2 := 1\<rparr>"
| "next_cursor Path_End c = c\<lparr>c_array := ARRAY_NONE\<rparr>"
| "next_cursor _ c = c\<lparr>c_index2 := c_index2 c + 1\<rparr>"

text \<open>Which tokens may stand at a place: path items inside a path set, within the limits.\<close>

fun token_ok :: "token \<Rightarrow> cursor \<Rightarrow> bool" where
  "token_ok (Field i v) c \<longleftrightarrow>
     c_array c \<noteq> ARRAY_PATHSET \<and> i \<noteq> 0 \<and> value_ok v \<and>
     (v = V_Object \<and> i \<noteq> OBJ_END \<longrightarrow> c_index1 c + 1 \<le> MAX_ARRAY_LEN)"
| "token_ok Path_Next c \<longleftrightarrow> c_array c = ARRAY_PATHSET \<and> c_index1 c + 1 \<le> MAX_PATH_COUNT"
| "token_ok Path_End c \<longleftrightarrow> c_array c = ARRAY_PATHSET"
| "token_ok (Path_Account a) c \<longleftrightarrow>
     c_array c = ARRAY_PATHSET \<and> c_index2 c \<le> MAX_STEP_COUNT \<and> length a = 20"
| "token_ok (Path_Issuer a) c \<longleftrightarrow>
     c_array c = ARRAY_PATHSET \<and> c_index2 c \<le> MAX_STEP_COUNT \<and> length a = 20"
| "token_ok (Path_Currency a) c \<longleftrightarrow>
     c_array c = ARRAY_PATHSET \<and> c_index2 c \<le> MAX_STEP_COUNT \<and> length a = 20"
| "token_ok (Path_Both a b) c \<longleftrightarrow>
     c_array c = ARRAY_PATHSET \<and> c_index2 c \<le> MAX_STEP_COUNT \<and> length a = 20 \<and> length b = 20"

section \<open>The fields of a token\<close>

text \<open>A field at the cursor's place.\<close>

definition at :: "cursor \<Rightarrow> u8 \<Rightarrow> u8 \<Rightarrow> field_data \<Rightarrow> nat \<Rightarrow> field_t" where
  "at c t i d n =
     \<lparr>fld_id = i, data_type = t, fld_length = of_nat n, fdata = d,
      array_info = (if c_array c = 0 then \<lparr>ai_type = 0, index1 = 0, index2 = 0\<rparr>
        else \<lparr>ai_type = c_array c, index1 = c_index1 c, index2 = c_index2 c\<rparr>),
      object_depth = c_depth c\<rparr>"

text \<open>The content of the token's own field, its value at position \<open>p\<close>.\<close>

fun value_data :: "nat \<Rightarrow> wvalue \<Rightarrow> field_data" where
  "value_data p (V_UInt8 w) = DU8 w"
| "value_data p (V_UInt16 w) = DU16 w"
| "value_data p (V_UInt32 w) = DU32 w"
| "value_data p V_Array = DZero"
| "value_data p V_Object = DZero"
| "value_data p V_PathSet = DZero"
| "value_data p _ = DPtr p"

text \<open>The fields the app adds for parts of the value.\<close>

definition issuer_at :: "cursor \<Rightarrow> nat \<Rightarrow> field_t" where
  "issuer_at c p = at c STI_ACCOUNT XRP_ACCOUNT_ISSUER (DPtr p) 20"

definition currency_at :: "cursor \<Rightarrow> nat \<Rightarrow> field_t" where
  "currency_at c p = at c STI_CURRENCY XRP_CURRENCY_CURRENCY (DPtr p) 20"

definition entry_at :: "cursor \<Rightarrow> u8 \<Rightarrow> nat \<Rightarrow> nat \<Rightarrow> field_t" where
  "entry_at c i p k =
     (let f = at c STI_HASH256 XRP_HASH256_NFTOKEN_OFFER (DPtr (p + k * 32)) 32 in
      f\<lparr>array_info := (array_info f)\<lparr>ai_type := i, index1 := of_nat (k + 1)\<rparr>\<rparr>)"

fun parts :: "cursor \<Rightarrow> nat \<Rightarrow> u8 \<Rightarrow> wvalue \<Rightarrow> field_t list" where
  "parts c p i (V_Issued bs) =
     (if has_non_standard_currency_internal (take 20 (drop 8 bs)) then [currency_at c (p + 8)] else []) @
     [issuer_at c (p + 28)]"
| "parts c p i (V_Issue _ _) = [issuer_at c (p + 20)]"
| "parts c p i (V_Vector256 hs) = map (entry_at c i p) [0..<length hs]"
| "parts c p i _ = []"

text \<open>All fields of a token whose own bytes start at \<open>p\<close>, its own first.\<close>

fun token_fields :: "cursor \<Rightarrow> nat \<Rightarrow> token \<Rightarrow> field_t list" where
  "token_fields c p (Field i v) =
     at c (value_type v) i (value_data p v) (length (value_bytes v)) # parts c p i v"
| "token_fields c p (Path_Account a) = [at c STI_ACCOUNT XRP_ACCOUNT_ACCOUNT (DPtr p) 20]"
| "token_fields c p (Path_Issuer a) = [issuer_at c p]"
| "token_fields c p (Path_Currency a) = [currency_at c p]"
| "token_fields c p (Path_Both a b) = [currency_at c p, issuer_at c (p + 20)]"
| "token_fields c p Path_Next = [at c STI_PATHSET 0 DZero 0]"
| "token_fields c p Path_End = [at c STI_PATHSET 0 DZero 0]"

text \<open>The ones that are kept: a hidden field goes, and it comes alone.\<close>

definition shown :: "field_t list \<Rightarrow> field_t list" where
  "shown fs = (if is_field_hidden (hd fs) then [] else fs)"

text \<open>All tokens, from position \<open>p\<close> and cursor \<open>c\<close> on.\<close>

fun all_fields :: "cursor \<Rightarrow> nat \<Rightarrow> token list \<Rightarrow> field_t list" where
  "all_fields c p [] = []"
| "all_fields c p (t # ts) =
     shown (token_fields c (p + token_skip t) t) @
     all_fields (next_cursor t c) (p + length (token_bytes t)) ts"

section \<open>What the parser keeps besides the fields\<close>

text \<open>The transaction type and the empty-key flag along the tokens.\<close>

fun type_ok :: "token \<Rightarrow> cursor \<Rightarrow> u16 \<Rightarrow> bool" where
  "type_ok (Field i (V_UInt16 w)) cu tx \<longleftrightarrow>
     (i = XRP_UINT16_TRANSACTION_TYPE \<longrightarrow>
       c_array cu = ARRAY_NONE \<and> c_depth cu = 0 \<and> tx = TRANSACTION_INVALID)"
| "type_ok _ cu tx \<longleftrightarrow> True"

fun next_type :: "token \<Rightarrow> u16 \<Rightarrow> u16" where
  "next_type (Field i (V_UInt16 w)) tx = (if i = XRP_UINT16_TRANSACTION_TYPE then w else tx)"
| "next_type _ tx = tx"

fun next_empty :: "token \<Rightarrow> cursor \<Rightarrow> bool \<Rightarrow> bool" where
  "next_empty (Field i (V_Blob xs)) cu e \<longleftrightarrow>
     e \<or> (i = XRP_VL_SIGNING_PUB_KEY \<and> xs = [] \<and> c_array cu = ARRAY_NONE \<and> c_depth cu = 0)"
| "next_empty _ cu e = e"

fun end_cursor :: "cursor \<Rightarrow> token list \<Rightarrow> cursor" where
  "end_cursor cu [] = cu"
| "end_cursor cu (t # ts) = end_cursor (next_cursor t cu) ts"

fun end_type :: "u16 \<Rightarrow> token list \<Rightarrow> u16" where
  "end_type tx [] = tx"
| "end_type tx (t # ts) = end_type (next_type t tx) ts"

fun end_empty :: "cursor \<Rightarrow> bool \<Rightarrow> token list \<Rightarrow> bool" where
  "end_empty cu e [] = e"
| "end_empty cu e (t # ts) = end_empty (next_cursor t cu) (next_empty t cu e) ts"

section \<open>Transactions the parser can hold\<close>

text \<open>How many fields a token makes, and how many of them stay.\<close>

definition field_count :: "token \<Rightarrow> nat" where
  "field_count t =
     (case t of Field i v \<Rightarrow> Suc (length (parts \<lparr>c_array = 0, c_index1 = 0, c_index2 = 0, c_depth = 0\<rparr> 0 i v))
      | Path_Both _ _ \<Rightarrow> 2 | _ \<Rightarrow> 1)"

definition shown_count :: "cursor \<Rightarrow> token \<Rightarrow> nat" where
  "shown_count cu t = (if is_field_hidden (hd (token_fields cu 0 t)) then 0 else field_count t)"

text \<open>
  The tokens follow the grammar from a cursor on, there is no second transaction type, and with
  \<open>n\<close> fields before them the field array never overflows.
\<close>

fun run_ok :: "cursor \<Rightarrow> u16 \<Rightarrow> nat \<Rightarrow> token list \<Rightarrow> bool" where
  "run_ok cu tx n [] \<longleftrightarrow> True"
| "run_ok cu tx n (t # ts) \<longleftrightarrow>
     token_ok t cu \<and> type_ok t cu tx \<and> n + field_count t \<le> MAX_FIELD_COUNT \<and>
     run_ok (next_cursor t cu) (next_type t tx) (n + shown_count cu t) ts"

definition start :: cursor where
  "start = \<lparr>c_array = ARRAY_NONE, c_index1 = 0, c_index2 = 0, c_depth = 0\<rparr>"

text \<open>The fields to review: the shown ones, and the regular key a SetRegularKey clears.\<close>

definition review_fields :: "token list \<Rightarrow> field_t list" where
  "review_fields ts =
     (let fs = all_fields start 0 ts; tx = end_type TRANSACTION_INVALID ts in
      fs @ (if tx = TRANSACTION_SET_REGULAR_KEY \<and>
              \<not> list_ex (\<lambda>f. data_type f = STI_ACCOUNT \<and> fld_id f = XRP_ACCOUNT_REGULAR_KEY) fs
            then [at (end_cursor start ts) STI_ACCOUNT XRP_ACCOUNT_REGULAR_KEY DZero 0] else []))"

text \<open>What the app must answer for a transaction of type \<open>tx\<close> with these fields.\<close>

definition flags_fine :: "u16 \<Rightarrow> field_t list \<Rightarrow> bool" where
  "flags_fine tx fs \<longleftrightarrow>
     length (filter is_top_level_flags fs) \<le> 1 \<and>
     list_all (\<lambda>f. is_top_level_flags f \<longrightarrow>
       (case fdata f of DU32 v \<Rightarrow> \<not> has_unknown_flags tx v | _ \<Rightarrow> False)) fs"

definition outside_arrays :: "u8 \<Rightarrow> u8 \<Rightarrow> field_t list \<Rightarrow> bool" where
  "outside_arrays t i fs \<longleftrightarrow>
     list_ex (\<lambda>f. data_type f = t \<and> fld_id f = i \<and> ai_type (array_info f) = ARRAY_NONE) fs"

definition verdict :: "u16 \<Rightarrow> field_t list \<Rightarrow> exc + unit" where
  "verdict tx fs =
     (if \<not> outside_arrays STI_UINT16 XRP_UINT16_TRANSACTION_TYPE fs \<or>
         \<not> outside_arrays STI_ACCOUNT XRP_ACCOUNT_ACCOUNT fs then Inl NOT_SUPPORTED
      else if tx \<noteq> TRANSACTION_INVALID \<and> is_supported_transaction_type tx \<and> flags_fine tx fs \<and>
         list_all is_field_recognized fs then Inr ()
      else Inl BLIND_SIGN_REQUIRED)"

end
