(* ===== verification/Parser_Correct.thy ===== *)
theory Parser_Correct
  imports Wire
begin

text \<open>
  Functional correctness of the parser: on the bytes of a list of tokens it computes exactly the
  fields \<open>Wire\<close> gives them. The contexts of a run are written \<open>ctx bs p fs cu tx e\<close>: the bytes,
  the position, the fields in use, the place in arrays and objects, the transaction type and
  the empty-key flag; each operation has one equation on them.
\<close>

section \<open>The contexts of a run\<close>

definition ctx ::
  "u8 list \<Rightarrow> nat \<Rightarrow> field_t list \<Rightarrow> cursor \<Rightarrow> u16 \<Rightarrow> bool \<Rightarrow> parseContext_t" where
  "ctx bs p fs cu tx e =
     \<lparr>transaction_type = tx, has_empty_pub_key = e, data = bs, ctx_length = of_nat (length bs),
      offset = of_nat p,
      result = \<lparr>num_fields = of_nat (length fs),
        res_fields = fs @ replicate (MAX_FIELD_COUNT - length fs) zero_field\<rparr>,
      current_array = c_array cu, array_index1 = c_index1 cu, array_index2 = c_index2 cu,
      ctx_object_depth = c_depth cu\<rparr>"

lemma ctx_sel [simp]:
  "transaction_type (ctx bs p fs cu tx e) = tx" "has_empty_pub_key (ctx bs p fs cu tx e) = e"
  "data (ctx bs p fs cu tx e) = bs" "current_array (ctx bs p fs cu tx e) = c_array cu"
  "array_index1 (ctx bs p fs cu tx e) = c_index1 cu" "array_index2 (ctx bs p fs cu tx e) = c_index2 cu"
  "ctx_object_depth (ctx bs p fs cu tx e) = c_depth cu"
  by (simp_all add: ctx_def)

lemma ctx_upd [simp]:
  "ctx bs p fs cu tx e\<lparr>transaction_type := t\<rparr> = ctx bs p fs cu t e"
  "ctx bs p fs cu tx e\<lparr>has_empty_pub_key := b\<rparr> = ctx bs p fs cu tx b"
  "ctx bs p fs cu tx e\<lparr>current_array := a\<rparr> = ctx bs p fs (cu\<lparr>c_array := a\<rparr>) tx e"
  "ctx bs p fs cu tx e\<lparr>array_index1 := i\<rparr> = ctx bs p fs (cu\<lparr>c_index1 := i\<rparr>) tx e"
  "ctx bs p fs cu tx e\<lparr>array_index2 := i\<rparr> = ctx bs p fs (cu\<lparr>c_index2 := i\<rparr>) tx e"
  "ctx bs p fs cu tx e\<lparr>ctx_object_depth := i\<rparr> = ctx bs p fs (cu\<lparr>c_depth := i\<rparr>) tx e"
  by (simp_all add: ctx_def)

text \<open>The bounds under which a context stands for what it says.\<close>

definition fits :: "u8 list \<Rightarrow> field_t list \<Rightarrow> bool" where
  "fits bs fs \<longleftrightarrow> length bs \<le> MAX_LEN \<and> length fs \<le> MAX_FIELD_COUNT"

lemma nf_ctx [simp]:
  "length fs \<le> MAX_FIELD_COUNT \<Longrightarrow> nf (ctx bs p fs cu tx e) = length fs"
  by (simp add: ctx_def unat_of_nat_eq)

lemma fields_ctx:
  "res_fields (result (ctx bs p fs cu tx e)) =
     fs @ replicate (MAX_FIELD_COUNT - length fs) zero_field"
  by (simp add: ctx_def)

lemma used_fields_ctx [simp]:
  "length fs \<le> MAX_FIELD_COUNT \<Longrightarrow> used_fields (result (ctx bs p fs cu tx e)) = fs"
  by (simp add: used_fields_def fields_ctx)

lemma pos_ctx:
  "p \<le> length bs \<Longrightarrow> length bs \<le> MAX_LEN \<Longrightarrow> pos (ctx bs p fs cu tx e) = p"
  by (simp add: ctx_def MAX_LEN_def unat_of_nat_eq)

lemma has_data_ctx:
  assumes "p + unat n \<le> length bs" and "0 < p + unat n" and "length bs \<le> MAX_LEN"
  shows "has_data (ctx bs p fs cu tx e) n"
proof -
  have "unat (of_nat p + n :: u32) = p + unat n"
    using assms(1,3) by (simp add: unat_add_noovf unat_of_nat_eq MAX_LEN_def)
  then have "unat (of_nat p + n - 1 :: u32) = p + unat n - 1"
    using assms(2) by (simp add: unat_dec)
  moreover have "p + unat n - 1 < length bs" using assms(1,2) by linarith
  ultimately show ?thesis
    using assms by (simp add: has_data_def ctx_def word_less_nat_alt unat_of_nat_eq MAX_LEN_def)
qed

lemma advance_ctx:
  "ctx bs p fs cu tx e\<lparr>offset := offset (ctx bs p fs cu tx e) + of_nat n\<rparr> = ctx bs (p + n) fs cu tx e"
  by (simp add: ctx_def)

section \<open>Operations\<close>

lemma get_field_ctx [simp]:
  "k < length fs \<Longrightarrow> length fs \<le> MAX_FIELD_COUNT \<Longrightarrow>
   get_field k (ctx bs p fs cu tx e) = (Inr (fs ! k), ctx bs p fs cu tx e)"
  by (simp add: get_field_def fields_ctx nth_append)

lemma upd_field_ctx [simp]:
  "k < length fs \<Longrightarrow> length fs \<le> MAX_FIELD_COUNT \<Longrightarrow>
   upd_field k f (ctx bs p fs cu tx e) = (Inr (), ctx bs p (fs[k := f (fs ! k)]) cu tx e)"
  by (simp add: upd_field_def set_fields_def ctx_def nth_append list_update_append)

lemma field_ptr_ctx [simp]:
  "k < length fs \<Longrightarrow> length fs \<le> MAX_FIELD_COUNT \<Longrightarrow> fdata (fs ! k) = DPtr q \<Longrightarrow>
   field_ptr k (ctx bs p fs cu tx e) = (Inr q, ctx bs p fs cu tx e)"
  by (simp add: field_ptr_def CHECK_def from_union_def return_def)

lemma mem_ctx [simp]:
  "q + n \<le> length bs \<Longrightarrow>
   mem q n (ctx bs p fs cu tx e) = (Inr (take n (drop q bs)), ctx bs p fs cu tx e)"
  by (simp add: mem_def peek_def)

text \<open>A new field, at the cursor's place.\<close>

definition blank :: "cursor \<Rightarrow> field_t" where
  "blank cu = at cu 0 0 DZero 0"

lemma blank_alt:
  "c_array cu = 0 \<Longrightarrow> zero_field\<lparr>object_depth := c_depth cu\<rparr> = blank cu"
  "c_array cu \<noteq> 0 \<Longrightarrow> zero_field\<lparr>array_info := \<lparr>ai_type = c_array cu, index1 = c_index1 cu,
     index2 = c_index2 cu\<rparr>, object_depth := c_depth cu\<rparr> = blank cu"
  by (simp_all add: blank_def at_def zero_field_def)

lemma append_new_field_ctx [simp]:
  assumes "length fs < MAX_FIELD_COUNT"
  shows "append_new_field (ctx bs p fs cu tx e) =
     (Inr (length fs), ctx bs p (fs @ [blank cu]) cu tx e)"
proof -
  have r: "replicate (60 - length fs) zero_field = zero_field # replicate (60 - Suc (length fs)) zero_field"
    using assms by (simp add: Suc_diff_Suc flip: replicate_Suc)
  have n: "unat (of_nat (length fs) :: u8) = length fs"
    using assms by (simp add: unat_of_nat_eq)
  show ?thesis
    using assms n
    by (simp add: append_new_field_def append_array_info_def CHECK_def gets_def throw_def
        modify_def upd_field_def return_def ctx_def set_fields_def r blank_alt nth_append list_update_append)
qed

lemma read_next_byte_ctx:
  assumes "drop p bs = b # rest" and "length bs \<le> MAX_LEN"
  shows "read_next_byte (ctx bs p fs cu tx e) = (Inr b, ctx bs (Suc p) fs cu tx e)"
proof -
  have p: "p < length bs" using assms(1) by (metis drop_all list.distinct(1) not_less)
  then have "has_data (ctx bs p fs cu tx e) 1" using assms(2) by (intro has_data_ctx) simp_all
  moreover have "take 1 (drop p bs) = [b]" using assms(1) by simp
  ultimately show ?thesis
    using p assms(2) advance_ctx [of bs p fs cu tx e 1]
    by (simp add: read_next_byte_def CHECK_def gets_def current_position_def pos_ctx
        advance_position_def modify_def return_def)
qed

lemma peak_next_byte_ctx:
  assumes "drop p bs = b # rest" and "length bs \<le> MAX_LEN"
  shows "peak_next_byte (ctx bs p fs cu tx e) = (Inr b, ctx bs p fs cu tx e)"
proof -
  have p: "p < length bs" using assms(1) by (metis drop_all list.distinct(1) not_less)
  then have "has_data (ctx bs p fs cu tx e) 1" using assms(2) by (intro has_data_ctx) simp_all
  moreover have "take 1 (drop p bs) = [b]" using assms(1) by simp
  ultimately show ?thesis
    using p assms(2)
    by (simp add: peak_next_byte_def CHECK_def gets_def current_position_def pos_ctx return_def)
qed

lemma read_fixed_size_field_ctx:
  assumes "p + unat n \<le> length bs" and "0 < p + unat n" and "length bs \<le> MAX_LEN"
    and "k < length fs" and "length fs \<le> MAX_FIELD_COUNT"
  shows "read_fixed_size_field k n (ctx bs p fs cu tx e) =
     (Inr (), ctx bs (p + unat n) (fs[k := (fs ! k)\<lparr>fdata := DPtr p, fld_length := n\<rparr>]) cu tx e)"
proof -
  have u: "unat (ucast n :: u32) = unat n" by simp
  have "has_data (ctx bs p fs' cu tx e) (ucast n)" for fs'
    using assms by (intro has_data_ctx) simp_all
  then show ?thesis
    using assms advance_ctx [of bs p _ cu tx e "unat n"]
    by (simp add: read_fixed_size_field_def CHECK_def gets_def current_position_def pos_ctx
        advance_position_def modify_def)
qed

section \<open>Headers and lengths\<close>

lemma drop_next: "drop p bs = b # rest \<Longrightarrow> drop (Suc p) bs = rest"
  by (metis drop_Suc drop_tl list.sel(3))

lemma drop_past: "drop p bs = xs @ rest \<Longrightarrow> drop (p + length xs) bs = rest"
  by (metis add.commute append_eq_conv_conj drop_drop)

lemma nibbles:
  fixes t i :: u8
  assumes "t < 16" and "i < 16"
  shows "drop_bit 4 (push_bit 4 t OR i) = t" and "(push_bit 4 t OR i) AND 0x0f = i"
    and "drop_bit 4 (push_bit 4 t) = t" and "push_bit 4 t AND 0x0f = 0" and "drop_bit 4 i = 0"
    and "i AND 0x0f = i"
proof -
  have small: "take_bit 4 x = x" if "x < 16" for x :: u8
    using that less_mask_eq [of x 4] by (simp add: take_bit_eq_mask mask_eq_decr_exp)
  have m: "(0x0f :: u8) = mask 4" by (simp add: mask_eq_decr_exp)
  have d: "drop_bit 4 x = 0" if "x < 16" for x :: u8
    using that small [OF that] by (metis drop_bit_take_bit diff_self_eq_0 take_bit_0)
  have lo: "(push_bit 4 t OR i) AND mask 4 = i"
    using small [OF assms(2)] by (simp add: bit.conj_disj_distrib2 flip: take_bit_eq_mask)
      (simp add: take_bit_push_bit)
  have hi: "drop_bit 4 (push_bit 4 t) = t"
  proof (rule bit_word_eqI)
    fix n assume "n < LENGTH(8)"
    have "\<not> bit t n" if "4 \<le> n"
      using that small [OF assms(1)] by (metis bit_take_bit_iff not_less)
    then show "bit (drop_bit 4 (push_bit 4 t)) n = bit t n"
      by (auto simp: bit_simps not_le [symmetric])
  qed
  show "drop_bit 4 (push_bit 4 t) = t" by (rule hi)
  show "drop_bit 4 (push_bit 4 t OR i) = t" using d [OF assms(2)] hi by (simp add: drop_bit_or)
  show "(push_bit 4 t OR i) AND 0x0f = i" using lo by (simp add: m)
  show "push_bit 4 t AND 0x0f = 0" by (simp add: m flip: take_bit_eq_mask) (simp add: take_bit_push_bit)
  show "drop_bit 4 i = 0" by (rule d [OF assms(2)])
  show "i AND 0x0f = i" using small [OF assms(2)] by (simp add: m flip: take_bit_eq_mask)
qed

lemma read_field_header_ctx:
  assumes "drop p bs = header_bytes t i @ rest" and "t \<noteq> 0" and "i \<noteq> 0"
    and "length bs \<le> MAX_LEN" and "length fs < MAX_FIELD_COUNT"
  shows "read_field_header (length fs) (ctx bs p (fs @ [f]) cu tx e) =
     (Inr (), ctx bs (p + length (header_bytes t i)) (fs @ [f\<lparr>data_type := t, fld_id := i\<rparr>]) cu tx e)"
proof -
  note b0 = read_next_byte_ctx [OF _ assms(4)]
  show ?thesis
  proof (cases "t < 16")
    case t: True
    note nib = nibbles [OF t]
    show ?thesis
    proof (cases "i < 16")
      case True
      with t assms(1) have "drop p bs = (push_bit 4 t OR i) # rest" by (simp add: header_bytes_def)
      from b0 [OF this] t True assms(2,3,5) nib [OF True] show ?thesis
        by (simp add: read_field_header_def read_field_code_def CHECK_def header_bytes_def)
    next
      case False
      with t assms(1) have d: "drop p bs = push_bit 4 t # i # rest" by (simp add: header_bytes_def)
      from b0 [OF d] b0 [OF drop_next [OF d]] t False assms(2,3,5) nib(3,4) [of 0] show ?thesis
        by (simp add: read_field_header_def read_field_code_def CHECK_def header_bytes_def)
    qed
  next
    case t: False
    show ?thesis
    proof (cases "i < 16")
      case True
      with t assms(1) have d: "drop p bs = i # t # rest" by (simp add: header_bytes_def)
      from b0 [OF d] b0 [OF drop_next [OF d]] t True assms(2,3,5) nibbles [of 0 i] show ?thesis
        by (simp add: read_field_header_def read_field_code_def CHECK_def header_bytes_def)
    next
      case False
      with t assms(1) have d: "drop p bs = 0 # t # i # rest" by (simp add: header_bytes_def)
      from b0 [OF d] b0 [OF drop_next [OF d]] b0 [OF drop_next [OF drop_next [OF d]]]
        t False assms(2,3,5) show ?thesis
        by (simp add: read_field_header_def read_field_code_def CHECK_def header_bytes_def)
    qed
  qed
qed

lemma ucast_byte: "n < 256 \<Longrightarrow> ucast (of_nat n :: u8) = (of_nat n :: u16)"
  by (intro unat_eqI) (simp add: unat_of_nat_eq)

lemma read_vl_length_ctx:
  assumes "drop p bs = vl_prefix n @ rest" and "n \<le> MAX_VL" and "length bs \<le> MAX_LEN"
  shows "read_vl_length (ctx bs p fs cu tx e) =
     (Inr (of_nat n), ctx bs (p + length (vl_prefix n)) fs cu tx e)"
proof (cases "n \<le> 192")
  case True
  with assms(1) have "drop p bs = of_nat n # rest" by (simp add: vl_prefix_def)
  note b = read_next_byte_ctx [OF this assms(3)]
  have "ucast (of_nat n :: u8) = (of_nat n :: u16)"
    using True by (intro ucast_byte) simp
  with b True show ?thesis
    by (simp add: read_vl_length_def CHECK_def Let_def return_def vl_prefix_def word_less_nat_alt unat_of_nat_eq)
next
  case False
  let ?m = "n - 193"
  let ?h = "193 + ?m div 256"
  from False assms(1) have d: "drop p bs = of_nat ?h # of_nat (?m mod 256) # rest"
    by (simp add: vl_prefix_def)
  note b = read_next_byte_ctx [OF d assms(3)] read_next_byte_ctx [OF drop_next [OF d] assms(3)]
  have h: "?h \<le> 240" using assms(2) by (simp add: MAX_VL_def)
  have u: "ucast (of_nat ?h :: u8) = (of_nat ?h :: u16)"
    using h by (intro ucast_byte) simp
  have l: "ucast (of_nat (?m mod 256) :: u8) = (of_nat (?m mod 256) :: u16)"
    by (intro ucast_byte) simp
  have c: "193 + (of_nat ?h - 193) * 256 + of_nat (?m mod 256) = (of_nat n :: u16)"
  proof -
    define q r where "q = ?m div 256" and "r = ?m mod 256"
    have "n = 193 + q * 256 + r" using False by (simp add: q_def r_def)
    then have "(of_nat n :: u16) = 193 + of_nat q * 256 + of_nat r" by simp
    then show ?thesis by (simp flip: q_def r_def)
  qed
  from b False h u l c show ?thesis
    by (simp add: read_vl_length_def CHECK_def Let_def return_def vl_prefix_def word_less_nat_alt
        unat_of_nat_eq del: of_nat_add)
qed

section \<open>Values\<close>

lemma drop_plus: "drop p bs = ys \<Longrightarrow> drop (p + n) bs = drop n ys"
  by (metis add.commute drop_drop)

lemma drop_bound: "drop p bs = xs @ rest \<Longrightarrow> xs \<noteq> [] \<Longrightarrow> p + length xs \<le> length bs"
  by (metis append_is_Nil_conv diff_add_inverse2 drop_all le_add2 le_add_diff_inverse length_append
      length_drop linear nat_add_left_cancel_le)

lemma take_at: "drop p bs = xs @ rest \<Longrightarrow> take (length xs) (drop p bs) = xs"
  by simp

lemma at_upd [simp]:
  "at cu t i d n\<lparr>data_type := t'\<rparr> = at cu t' i d n"
  "at cu t i d n\<lparr>fld_id := i'\<rparr> = at cu t i' d n"
  "at cu t i d n\<lparr>fdata := d'\<rparr> = at cu t i d' n"
  "at cu t i d n\<lparr>fld_length := of_nat m\<rparr> = at cu t i d m"
  "at cu t i d n\<lparr>fld_length := numeral w\<rparr> = at cu t i d (numeral w)"
  "data_type (at cu t i d n) = t" "fld_id (at cu t i d n) = i" "fdata (at cu t i d n) = d"
  "fld_length (at cu t i d n) = of_nat n"
  by (simp_all add: at_def)

text \<open>A fixed-size value at \<open>p\<close>, read into the last field.\<close>

lemma read_fixed_at:
  assumes "drop p bs = xs @ rest" and "length bs \<le> MAX_LEN" and "0 < p" and "length xs < 65536"
    and "p \<le> length bs" and "length fs < MAX_FIELD_COUNT" and "n = of_nat (length xs)"
  shows "read_fixed_size_field (length fs) n (ctx bs p (fs @ [at cu t i d l]) cu tx e) =
     (Inr (), ctx bs (p + length xs) (fs @ [at cu t i (DPtr p) (length xs)]) cu tx e)"
proof -
  have u: "unat n = length xs" using assms(4,7) by (simp add: unat_of_nat_eq)
  have "p + unat n \<le> length bs"
    using assms(1,5) u by (cases "xs = []") (simp_all add: drop_bound)
  then show ?thesis
    using assms u by (simp add: read_fixed_size_field_ctx)
qed

lemma make_field_ctx:
  assumes "length fs < MAX_FIELD_COUNT"
  shows "make_field (length fs) t i q n (ctx bs p (fs @ [blank cu]) cu tx e) =
     (Inr (), ctx bs p (fs @ [at cu t i (DPtr q) n]) cu tx e)"
  using assms by (simp add: make_field_def blank_def)

lemma be16_value:
  "be16 w = [a, b] \<Longrightarrow> (ucast b OR push_bit 8 (ucast a) :: u16) = w"
  by (rule bit_word_eqI) (auto simp: be16_def bit_simps)

lemma be32_value:
  "be32 w = [a, b, c, d] \<Longrightarrow>
   (ucast d OR push_bit 8 (ucast c) OR push_bit 16 (ucast b) OR push_bit 24 (ucast a) :: u32) = w"
proof (rule bit_word_eqI)
  fix n assume "be32 w = [a, b, c, d]"
  then show "bit (ucast d OR push_bit 8 (ucast c) OR push_bit 16 (ucast b) OR
      push_bit 24 (ucast a) :: u32) n = bit w n" if "n < LENGTH(32)"
    using that by (cases "n < 8"; cases "n < 16"; cases "n < 24") (auto simp: be32_def bit_simps)
qed

text \<open>What reading the value \<open>v\<close> at \<open>p\<close> into the last field has to do.\<close>

definition reads_value ::
  "(nat \<Rightarrow> unit parse) \<Rightarrow> u8 list \<Rightarrow> nat \<Rightarrow> field_t list \<Rightarrow> cursor \<Rightarrow> u8 \<Rightarrow> wvalue \<Rightarrow> u16 \<Rightarrow> bool \<Rightarrow> bool" where
  "reads_value m bs p fs cu i v tx e \<longleftrightarrow>
     (let q = p + length (value_prefix v) in
      m (length fs) (ctx bs p (fs @ [at cu (value_type v) i DZero 0]) cu tx e) =
      (Inr (), ctx bs (q + length (value_bytes v))
        (fs @ at cu (value_type v) i (value_data q v) (length (value_bytes v)) # parts cu q i v)
        (next_cursor (Field i v) cu) tx e))"

text \<open>Where the value is: at \<open>p\<close>, with room for its fields.\<close>

definition value_at ::
  "u8 list \<Rightarrow> nat \<Rightarrow> field_t list \<Rightarrow> cursor \<Rightarrow> u8 \<Rightarrow> wvalue \<Rightarrow> u8 list \<Rightarrow> bool" where
  "value_at bs p fs cu i v rest \<longleftrightarrow>
     drop p bs = value_prefix v @ value_bytes v @ rest \<and> length bs \<le> MAX_LEN \<and> 0 < p \<and>
     p \<le> length bs \<and> token_ok (Field i v) cu \<and>
     Suc (length fs + length (parts cu p i v)) \<le> MAX_FIELD_COUNT"

lemma cursor_same: "cu\<lparr>c_array := c_array cu\<rparr> = cu"
  by simp

lemma scalar_ctx:
  assumes at: "value_at bs p fs cu i v rest" and "value_prefix v = []" and "value_bytes v \<noteq> []"
    and "length (value_bytes v) < 65536" and n: "n = of_nat (length (value_bytes v))"
  shows "read_fixed_size_field (length fs) n (ctx bs p (fs @ [at cu (value_type v) i DZero 0]) cu tx e) =
     (Inr (), ctx bs (p + length (value_bytes v))
       (fs @ [at cu (value_type v) i (DPtr p) (length (value_bytes v))]) cu tx e)"
    and "take (length (value_bytes v)) (drop p bs) = value_bytes v"
    and "p + length (value_bytes v) \<le> length bs"
proof -
  have d: "drop p bs = value_bytes v @ rest" and l: "length bs \<le> MAX_LEN" "0 < p" "p \<le> length bs"
    "length fs < MAX_FIELD_COUNT"
    using at assms(2) by (simp_all add: value_at_def)
  show "read_fixed_size_field (length fs) n (ctx bs p (fs @ [at cu (value_type v) i DZero 0]) cu tx e) =
     (Inr (), ctx bs (p + length (value_bytes v))
       (fs @ [at cu (value_type v) i (DPtr p) (length (value_bytes v))]) cu tx e)"
    by (rule read_fixed_at [OF d l(1,2) assms(4) l(3,4) n])
  show "take (length (value_bytes v)) (drop p bs) = value_bytes v" by (simp add: d)
  show "p + length (value_bytes v) \<le> length bs" by (rule drop_bound [OF d assms(3)])
qed

lemmas reads = reads_value_def read_field_value_def CHECK_def Let_def

lemma reads_uint8:
  assumes "value_at bs p fs cu i (V_UInt8 w) rest"
  shows "reads_value read_field_value bs p fs cu i (V_UInt8 w) tx e"
  using scalar_ctx(1) [OF assms, where n = 1 and tx = tx and e = e] scalar_ctx(2,3) [OF assms _ _ _ refl] assms
  by (simp add: reads value_at_def)

lemma reads_uint16:
  assumes "value_at bs p fs cu i (V_UInt16 w) rest"
  shows "reads_value read_field_value bs p fs cu i (V_UInt16 w) tx e"
proof -
  obtain a b where ab: "be16 w = [a, b]" by (simp add: be16_def)
  show ?thesis
    using scalar_ctx(1) [OF assms, where n = 2 and tx = tx and e = e] scalar_ctx(2,3) [OF assms _ _ _ refl] assms ab be16_value [OF ab]
    by (simp add: reads value_at_def)
qed

lemma reads_uint32:
  assumes "value_at bs p fs cu i (V_UInt32 w) rest"
  shows "reads_value read_field_value bs p fs cu i (V_UInt32 w) tx e"
proof -
  obtain a b c d where ab: "be32 w = [a, b, c, d]" by (simp add: be32_def)
  show ?thesis
    using scalar_ctx(1) [OF assms, where n = 4 and tx = tx and e = e] scalar_ctx(2,3) [OF assms _ _ _ refl] assms ab be32_value [OF ab]
    by (simp add: reads value_at_def)
qed

lemma reads_hash:
  shows "value_at bs p fs cu i (V_Hash128 xs) rest \<Longrightarrow>
      reads_value read_field_value bs p fs cu i (V_Hash128 xs) tx e"
    and "value_at bs p fs cu i (V_Hash256 xs) rest \<Longrightarrow>
      reads_value read_field_value bs p fs cu i (V_Hash256 xs) tx e"
proof -
  assume a: "value_at bs p fs cu i (V_Hash128 xs) rest"
  then have "length xs = 16" by (simp add: value_at_def)
  with scalar_ctx(1) [OF a, where n = 16 and tx = tx and e = e] a
  show "reads_value read_field_value bs p fs cu i (V_Hash128 xs) tx e"
    by (force simp: reads value_at_def)
next
  assume a: "value_at bs p fs cu i (V_Hash256 xs) rest"
  then have "length xs = 32" by (simp add: value_at_def)
  with scalar_ctx(1) [OF a, where n = 32 and tx = tx and e = e] a
  show "reads_value read_field_value bs p fs cu i (V_Hash256 xs) tx e"
    by (force simp: reads value_at_def)
qed

text \<open>Values with a length prefix.\<close>

lemma reads_vl:
  assumes "value_at bs p fs cu i v rest" and "v = V_Blob xs \<or> v = V_Account xs"
  shows "reads_value read_field_value bs p fs cu i v tx e"
proof -
  have d: "drop p bs = vl_prefix (length xs) @ xs @ rest" and l: "length bs \<le> MAX_LEN" "0 < p" "p \<le> length bs"
    and n: "length fs < MAX_FIELD_COUNT" "length xs \<le> MAX_VL"
    using assms by (auto simp: value_at_def MAX_VL_def)
  have ne: "vl_prefix (length xs) \<noteq> []" by (simp add: vl_prefix_def)
  let ?q = "p + length (vl_prefix (length xs))"
  have "drop ?q bs = xs @ rest" by (rule drop_past [OF d])
  moreover have "?q \<le> length bs" by (rule drop_bound [OF d ne])
  moreover have "length xs < 65536" using n(2) by (simp add: MAX_VL_def)
  ultimately have r: "read_fixed_size_field (length fs) (of_nat (length xs))
      (ctx bs ?q (fs @ [at cu t i DZero 0]) cu tx e) =
      (Inr (), ctx bs (?q + length xs) (fs @ [at cu t i (DPtr ?q) (length xs)]) cu tx e)" for t
    using l n(1) by (intro read_fixed_at) auto
  show ?thesis
    using r read_vl_length_ctx [OF d n(2) l(1)] assms(2) n(1)
    by (auto simp: reads read_variable_length_field_def)
qed

lemma reads_markers:
  shows "value_at bs p fs cu i V_Array rest \<Longrightarrow>
      reads_value read_field_value bs p fs cu i V_Array tx e"
    and "value_at bs p fs cu i V_Object rest \<Longrightarrow>
      reads_value read_field_value bs p fs cu i V_Object tx e"
    and "value_at bs p fs cu i V_PathSet rest \<Longrightarrow>
      reads_value read_field_value bs p fs cu i V_PathSet tx e"
  by (simp_all add: reads value_at_def handle_array_field_def handle_object_field_def
      handle_path_set_field_def modify_def gets_def return_def not_less [symmetric])

text \<open>Amounts, and the fields made of their parts.\<close>

lemma reads_xrp:
  assumes "value_at bs p fs cu i (V_Xrp xs) rest"
  shows "reads_value read_field_value bs p fs cu i (V_Xrp xs) tx e"
proof -
  have l: "length xs = 8" "drop_bit 7 (xs ! 0) = 0" "drop p bs = xs @ rest" "length bs \<le> MAX_LEN"
    "length fs < MAX_FIELD_COUNT"
    using assms by (simp_all add: value_at_def)
  then obtain b xs' where xs: "xs = b # xs'" by (cases xs) auto
  have "peak_next_byte (ctx bs p fs' cu tx e) = (Inr b, ctx bs p fs' cu tx e)" for fs'
    using l xs by (intro peak_next_byte_ctx) auto
  moreover have "read_fixed_size_field (length fs) 8 (ctx bs p (fs @ [at cu STI_AMOUNT i DZero 0]) cu tx e) =
     (Inr (), ctx bs (p + 8) (fs @ [at cu STI_AMOUNT i (DPtr p) 8]) cu tx e)"
    using scalar_ctx(1) [OF assms, where n = 8 and tx = tx and e = e] l by force
  ultimately show ?thesis
    using l xs by (simp add: reads read_amount_def)
qed

lemma append_issued_fields_ctx:
  assumes "take 20 (drop (q + 8) bs) = cur" and "q + 48 \<le> length bs"
    and "\<not> is_all_zeros cur" and "is_valid_currency cur" and "fdata f = DPtr q"
    and "length fs + (if has_non_standard_currency_internal cur then 3 else 2) \<le> MAX_FIELD_COUNT"
  shows "append_issued_fields (length fs) q (ctx bs p (fs @ [f]) cu tx e) =
     (Inr (), ctx bs p (fs @ f #
       (if has_non_standard_currency_internal cur then [currency_at cu (q + 8)] else []) @
       [issuer_at cu (q + 28)]) cu tx e)"
proof -
  have ns: "has_non_standard_currency (length fs) (ctx bs p (fs @ [f]) cu tx e) =
      (Inr (has_non_standard_currency_internal cur), ctx bs p (fs @ [f]) cu tx e)"
    using assms by (simp add: has_non_standard_currency_def CHECK_def return_def split: if_splits)
  show ?thesis
    using assms ns
    by (simp add: append_issued_fields_def CHECK_def return_def make_field_def blank_def nth_append
        list_update_append currency_at_def issuer_at_def split: if_splits)
qed

lemma reads_issued:
  assumes "value_at bs p fs cu i (V_Issued xs) rest"
  shows "reads_value read_field_value bs p fs cu i (V_Issued xs) tx e"
proof -
  let ?cur = "take 20 (drop 8 xs)"
  have l: "length xs = 48" "drop_bit 7 (xs ! 0) \<noteq> 0" "drop p bs = xs @ rest" "length bs \<le> MAX_LEN"
    "\<not> is_all_zeros ?cur" "is_valid_currency ?cur"
    and room: "Suc (length fs + length (parts cu p i (V_Issued xs))) \<le> MAX_FIELD_COUNT"
    using assms by (simp_all add: value_at_def Let_def)
  then obtain b xs' where xs: "xs = b # xs'" by (cases xs) auto
  have "peak_next_byte (ctx bs p fs' cu tx e) = (Inr b, ctx bs p fs' cu tx e)" for fs'
    using l xs by (intro peak_next_byte_ctx) auto
  moreover have "read_fixed_size_field (length fs) 48 (ctx bs p (fs @ [at cu STI_AMOUNT i DZero 0]) cu tx e) =
     (Inr (), ctx bs (p + 48) (fs @ [at cu STI_AMOUNT i (DPtr p) 48]) cu tx e)"
    using scalar_ctx(1) [OF assms, where n = 48 and tx = tx and e = e] l by force
  moreover have "append_issued_fields (length fs) p
      (ctx bs (p + 48) (fs @ [at cu STI_AMOUNT i (DPtr p) 48]) cu tx e) =
     (Inr (), ctx bs (p + 48) (fs @ at cu STI_AMOUNT i (DPtr p) 48 # parts cu p i (V_Issued xs)) cu tx e)"
  proof -
    have "drop (p + 8) bs = drop 8 xs @ rest" using drop_plus [OF l(3), of 8] l(1) by simp
    then have cur: "take 20 (drop (p + 8) bs) = ?cur" using l(1) by simp
    have "p + 48 \<le> length bs" using drop_bound [OF l(3)] l(1) xs by simp
    then show ?thesis
      using append_issued_fields_ctx [OF cur _ l(5,6), of "at cu STI_AMOUNT i (DPtr p) 48" fs]
        room by (simp split: if_splits)
  qed
  ultimately show ?thesis
    using l xs room by (simp add: reads read_amount_def)
qed

lemma reads_issue:
  shows "value_at bs p fs cu i (V_Issue cur iss) rest \<Longrightarrow>
      reads_value read_field_value bs p fs cu i (V_Issue cur iss) tx e"
    and "value_at bs p fs cu i V_IssueXrp rest \<Longrightarrow>
      reads_value read_field_value bs p fs cu i V_IssueXrp tx e"
proof -
  assume a: "value_at bs p fs cu i (V_Issue cur iss) rest"
  then have l: "length cur = 20" "length iss = 20" "\<not> is_all_zeros cur" "drop p bs = (cur @ iss) @ rest"
      "length bs \<le> MAX_LEN" "0 < p" "length fs + 2 \<le> MAX_FIELD_COUNT"
    by (simp_all add: value_at_def)
  then have b: "p + 40 \<le> length bs" using drop_bound [OF l(4)] by force
  have z: "take 20 (drop p bs) = cur" using l(1,4) by simp
  have r: "read_fixed_size_field (length fs) 40 (ctx bs p (fs @ [at cu STI_ISSUE i DZero 0]) cu tx e) =
     (Inr (), ctx bs (p + 40) (fs @ [at cu STI_ISSUE i (DPtr p) 40]) cu tx e)"
    using scalar_ctx(1) [OF a, where n = 40 and tx = tx and e = e] l by force
  have "has_data (ctx bs p fs' cu tx e) 20" for fs'
    using b l by (intro has_data_ctx) simp_all
  with a l r z b show "reads_value read_field_value bs p fs cu i (V_Issue cur iss) tx e"
    by (simp add: reads read_issue_def gets_def current_position_def pos_ctx make_field_def blank_def
        nth_append list_update_append issuer_at_def)
next
  assume a: "value_at bs p fs cu i V_IssueXrp rest"
  then have l: "drop p bs = replicate 20 0 @ rest" "length bs \<le> MAX_LEN" "0 < p" "length fs < MAX_FIELD_COUNT"
    by (simp_all add: value_at_def)
  then have b: "p + 20 \<le> length bs" using drop_bound [OF l(1)] by force
  have z: "is_all_zeros (take 20 (drop p bs))" by (simp add: l(1) is_all_zeros_def list_all_iff)
  have r: "read_fixed_size_field (length fs) 20 (ctx bs p (fs @ [at cu STI_ISSUE i DZero 0]) cu tx e) =
     (Inr (), ctx bs (p + 20) (fs @ [at cu STI_ISSUE i (DPtr p) 20]) cu tx e)"
    using scalar_ctx(1) [OF a, where n = 20 and tx = tx and e = e] l by force
  have "has_data (ctx bs p fs' cu tx e) 20" for fs'
    using b l by (intro has_data_ctx) simp_all
  with l r z b show "reads_value read_field_value bs p fs cu i V_IssueXrp tx e"
    by (simp add: reads read_issue_def gets_def current_position_def pos_ctx)
qed

text \<open>The entries of a vector of hashes.\<close>

lemma vector256_entries_ctx:
  assumes "Suc (length fs + k + left) \<le> MAX_FIELD_COUNT" and "fdata f = DPtr q" and "fld_id f = i"
  shows "vector256_entries (length fs) k left
      (ctx bs p (fs @ f # map (entry_at cu i q) [0..<k]) cu tx e) =
     (Inr (), ctx bs p (fs @ f # map (entry_at cu i q) [0..<k + left]) cu tx e)"
  using assms(1)
proof (induction left arbitrary: k)
  case 0
  then show ?case by (simp add: return_def)
next
  case (Suc left)
  let ?es = "map (entry_at cu i q) [0..<k]"
  have n: "length (fs @ f # ?es) = Suc (length fs + k)" by simp
  have app: "append_new_field (ctx bs p (fs @ f # ?es) cu tx e) =
      (Inr (Suc (length fs + k)), ctx bs p (fs @ f # ?es @ [blank cu]) cu tx e)"
    using append_new_field_ctx [of "fs @ f # ?es" bs p cu tx e] Suc.prems by simp
  have "vector256_entries (length fs) k (Suc left) (ctx bs p (fs @ f # ?es) cu tx e) =
      vector256_entries (length fs) (Suc k) left
        (ctx bs p (fs @ f # ?es @ [entry_at cu i q k]) cu tx e)"
    using Suc.prems assms(2,3)
    by (simp add: CHECK_def app make_field_def nth_append list_update_append blank_def entry_at_def Let_def)
  also have "?es @ [entry_at cu i q k] = map (entry_at cu i q) [0..<Suc k]" by simp
  finally show ?case using Suc.IH [of "Suc k"] Suc.prems by simp
qed

lemma length_concat_same: "list_all (\<lambda>h. length h = n) hs \<Longrightarrow> length (concat hs) = length hs * n"
  by (induction hs) auto

lemma reads_vector256:
  assumes "value_at bs p fs cu i (V_Vector256 hs) rest"
  shows "reads_value read_field_value bs p fs cu i (V_Vector256 hs) tx e"
proof -
  let ?n = "length hs * 32"
  have ll: "length (concat hs) = ?n"
    using assms by (intro length_concat_same) (simp add: value_at_def)
  have d: "drop p bs = vl_prefix ?n @ concat hs @ rest" and l: "length bs \<le> MAX_LEN" "0 < p"
    "length (concat hs) = ?n" "length hs \<le> 60" and room: "Suc (length fs + length hs) \<le> MAX_FIELD_COUNT"
    using assms ll by (simp_all add: value_at_def)
  have n: "length fs < MAX_FIELD_COUNT" "?n \<le> MAX_VL" "?n < 65536"
    using room l(4) by (simp_all add: MAX_VL_def)
  have ne: "vl_prefix ?n \<noteq> []" by (simp add: vl_prefix_def)
  let ?q = "p + length (vl_prefix ?n)"
  have "drop ?q bs = concat hs @ rest" by (rule drop_past [OF d])
  moreover have "?q \<le> length bs" by (rule drop_bound [OF d ne])
  ultimately have r: "read_fixed_size_field (length fs) (of_nat ?n)
      (ctx bs ?q (fs @ [at cu STI_VECTOR256 i DZero 0]) cu tx e) =
      (Inr (), ctx bs (?q + ?n) (fs @ [at cu STI_VECTOR256 i (DPtr ?q) ?n]) cu tx e)"
    using l n read_fixed_at [of ?q bs "concat hs" rest fs "of_nat ?n" cu STI_VECTOR256 i DZero 0 tx e]
    by simp
  have u: "unat (of_nat ?n :: u16) = ?n" by (rule unat_of_nat_eq) (use n(3) in simp)
  have z: "(of_nat ?n :: u16) mod 32 = 0"
    by (intro unat_eqI) (simp add: unat_mod u del: of_nat_mult)
  have c: "unat ((of_nat ?n :: u16) div 32) = length hs"
    by (simp add: unat_div u del: of_nat_mult)
  have c': "uint ((of_nat ?n :: u16) div 32) = int (length hs)"
    using arg_cong [OF c, of int] by (simp del: of_nat_mult)
  have nf: "uint (num_fields (result (ctx bs ?q (fs @ [f]) cu tx e))) = int (length fs) + 1" for f
    using arg_cong [OF nf_ctx [of "fs @ [f]" bs ?q cu tx e], of int] n(1) by (simp del: nf_ctx)
  have "vector256_entries (length fs) 0 (length hs)
      (ctx bs (?q + ?n) (fs @ [at cu STI_VECTOR256 i (DPtr ?q) ?n]) cu tx e) =
     (Inr (), ctx bs (?q + ?n) (fs @ at cu STI_VECTOR256 i (DPtr ?q) ?n #
       map (entry_at cu i ?q) [0..<length hs]) cu tx e)"
    using vector256_entries_ctx [of fs 0 "length hs" "at cu STI_VECTOR256 i (DPtr ?q) ?n" ?q i] room
    by simp
  with r z c c' nf read_vl_length_ctx [OF d n(2) l(1)] l(3) n(1) room show ?thesis
    by (simp add: reads read_vector256_field_def gets_def del: of_nat_mult)
qed

lemma reads_any:
  "value_at bs p fs cu i v rest \<Longrightarrow> reads_value read_field_value bs p fs cu i v tx e"
  by (cases v)
    (simp_all add: reads_uint8 reads_uint16 reads_uint32 reads_hash reads_xrp reads_issued reads_vl
      reads_vector256 reads_issue reads_markers)

section \<open>Tokens\<close>

lemma place_at [simp]:
  "ai_type (array_info (at cu t i d n)) = c_array cu" "object_depth (at cu t i d n) = c_depth cu"
  by (simp_all add: at_def)

lemma post_process_field_ctx:
  assumes "value_ok v" and "type_ok (Field i v) cu tx" and "length (fs @ f # gs) \<le> MAX_FIELD_COUNT"
    and f: "f = at cu (value_type v) i (value_data q v) (length (value_bytes v))"
  shows "post_process_field (length fs) (ctx bs p (fs @ f # gs) (next_cursor (Field i v) cu) tx e) =
     (Inr (), ctx bs p (fs @ f # gs) (next_cursor (Field i v) cu) (next_type (Field i v) tx)
        (next_empty (Field i v) cu e))"
proof -
  have vl: "(of_nat (length xs) :: u16) = 0 \<longleftrightarrow> xs = []" if "length xs \<le> MAX_VL" for xs :: "u8 list"
  proof
    assume "(of_nat (length xs) :: u16) = 0"
    then have "unat (of_nat (length xs) :: u16) = 0" by simp
    moreover have "unat (of_nat (length xs) :: u16) = length xs"
      by (rule unat_of_nat_eq) (use that in \<open>simp add: MAX_VL_def\<close>)
    ultimately show "xs = []" by simp
  qed simp
  show ?thesis
    using assms by (cases v)
      (auto simp: post_process_field_def CHECK_def is_transaction_type_field_def gets_def
        from_union_def return_def modify_def Let_def vl split: if_splits)
qed

lemma value_type_nz [simp]: "value_type v \<noteq> 0"
  by (cases v) simp_all

lemma header_nonempty [simp]: "header_bytes t i \<noteq> []"
  by (simp add: header_bytes_def)

lemma length_parts: "length (parts cu q i v) = length (parts cu p i v)"
  by (cases v) simp_all

lemma read_header_value:
  assumes d: "drop p bs = header_bytes (value_type v) i @ value_prefix v @ value_bytes v @ rest"
    and l: "length bs \<le> MAX_LEN" and ok: "token_ok (Field i v) cu"
    and room: "Suc (length fs + length (parts cu 0 i v)) \<le> MAX_FIELD_COUNT"
  shows "CHECK (read_field_header (length fs)) (\<lambda>_. read_field_value (length fs))
      (ctx bs p (fs @ [blank cu]) cu tx e) =
     (Inr (), ctx bs (p + length (token_bytes (Field i v)))
        (fs @ token_fields cu (p + token_skip (Field i v)) (Field i v)) (next_cursor (Field i v) cu) tx e)"
proof -
  let ?t = "value_type v"
  let ?q = "p + length (header_bytes ?t i)"
  have n: "length fs < MAX_FIELD_COUNT" using room by simp
  have h: "read_field_header (length fs) (ctx bs p (fs @ [blank cu]) cu tx e) =
      (Inr (), ctx bs ?q (fs @ [at cu ?t i DZero 0]) cu tx e)"
    using ok read_field_header_ctx [OF d _ _ l n] by (simp add: blank_def)
  have "drop ?q bs = value_prefix v @ value_bytes v @ rest" by (rule drop_past [OF d])
  moreover have "?q \<le> length bs" by (rule drop_bound [OF d header_nonempty])
  moreover have "0 < ?q" by simp
  ultimately have "value_at bs ?q fs cu i v rest"
    using l ok room length_parts [of cu ?q i v 0] by (simp add: value_at_def)
  from reads_any [OF this, of tx e] h show ?thesis
    by (simp add: CHECK_def reads_value_def Let_def add.assoc)
qed

lemma read_field_token:
  assumes d: "drop p bs = header_bytes (value_type v) i @ value_prefix v @ value_bytes v @ rest"
    and l: "length bs \<le> MAX_LEN" and ok: "token_ok (Field i v) cu" "type_ok (Field i v) cu tx"
    and room: "Suc (length fs + length (parts cu 0 i v)) \<le> MAX_FIELD_COUNT"
  shows "read_field (length fs) (ctx bs p (fs @ [blank cu]) cu tx e) =
     (Inr (), ctx bs (p + length (token_bytes (Field i v)))
        (fs @ token_fields cu (p + token_skip (Field i v)) (Field i v)) (next_cursor (Field i v) cu)
        (next_type (Field i v) tx) (next_empty (Field i v) cu e))"
proof -
  have "length (fs @ token_fields cu (p + token_skip (Field i v)) (Field i v)) \<le> MAX_FIELD_COUNT"
    using room length_parts [of cu "p + token_skip (Field i v)" i v 0] by simp
  with post_process_field_ctx [OF _ ok(2) _ refl] show ?thesis
    using ok(1) read_header_value [OF d l ok(1) room, of tx e]
    by (simp add: read_field_def gets_def CHECK_def)
qed

text \<open>Path items.\<close>

lemma path_step_ctx:
  assumes "drop p bs = xs @ rest" and "length xs = 20" and "length bs \<le> MAX_LEN" and "0 < p"
    and "length fs < MAX_FIELD_COUNT"
  shows "read_fixed_size_field (length fs) 20 (ctx bs p (fs @ [at cu t i d 0]) cu tx e) =
     (Inr (), ctx bs (p + 20) (fs @ [at cu t i (DPtr p) 20]) cu tx e)"
proof -
  have "p + 20 \<le> length bs" using drop_bound [OF assms(1)] assms(2) by force
  then show ?thesis using assms read_fixed_at [OF assms(1), of fs 20 cu t i d 0 tx e] by simp
qed

lemma post_process_field_path:
  assumes "k < length fs" and "length fs \<le> MAX_FIELD_COUNT" and "data_type (fs ! k) \<in> {STI_ACCOUNT, STI_CURRENCY, STI_PATHSET}"
    and "data_type (fs ! k) = STI_ACCOUNT \<longrightarrow> fld_length (fs ! k) = 20"
  shows "post_process_field k (ctx bs p fs cu tx e) = (Inr (), ctx bs p fs cu tx e)"
  using assms by (auto simp: post_process_field_def CHECK_def return_def)

lemma issuer_step_ctx:
  assumes "drop p bs = xs @ rest" and "length xs = 20" and "length bs \<le> MAX_LEN" and "0 < p"
    and "length fs < MAX_FIELD_COUNT"
  shows "handle_path_step (length fs) 0x20 (ctx bs p (fs @ [at cu t i d 0]) cu tx e) =
     (Inr (), ctx bs (p + 20) (fs @ [issuer_at cu p]) cu tx e)"
  using path_step_ctx [OF assms] assms(5)
  by (subst handle_path_step.simps) (simp add: CHECK_def issuer_at_def)

fun is_path :: "token \<Rightarrow> bool" where
  "is_path (Field i v) \<longleftrightarrow> False"
| "is_path _ \<longleftrightarrow> True"

lemma handle_path_step_token:
  assumes "drop p bs = xs @ rest" and "length bs \<le> MAX_LEN" and "0 < p"
    and "length fs + length (token_fields cu p t) \<le> MAX_FIELD_COUNT"
    and "token_ok t cu" and "is_path t" and "t \<noteq> Path_Next" and "t \<noteq> Path_End"
    and "token_bytes t = b # xs"
  shows "handle_path_step (length fs) b (ctx bs p (fs @ [at cu STI_PATHSET 0 DZero 0]) cu tx e) =
     (Inr (), ctx bs (p + length xs) (fs @ token_fields cu p t) cu tx e)"
proof (cases "\<exists>c a. t = Path_Both c a")
  case True
  then obtain c a where t: "t = Path_Both c a" by blast
  then have l: "length c = 20" "length a = 20" "b = 0x30" "xs = c @ a"
    using assms by auto
  have d: "drop p bs = c @ a @ rest" using assms(1) l by simp
  have d2: "drop (p + 20) bs = a @ rest" using drop_past [OF d] l(1) by simp
  show ?thesis
    using path_step_ctx [OF d l(1) assms(2,3), of fs cu STI_PATHSET 0 DZero tx e]
      issuer_step_ctx [OF d2 l(2) assms(2), of "fs @ [at cu STI_PATHSET 0 (DPtr p) 20]" cu 0 0 DZero tx e]
      assms(4) t l
    by (subst handle_path_step.simps) (simp add: CHECK_def currency_at_def blank_def add.commute [of 40 p])
next
  case False
  then have l: "length xs = 20" using assms(5-9) by (cases t) auto
  have n: "length fs < MAX_FIELD_COUNT" using assms(4,6) by (cases t) auto
  note r = path_step_ctx [OF assms(1) l assms(2,3) n, of cu STI_PATHSET 0 DZero tx e]
  show ?thesis
    using r assms False l n
    by (subst handle_path_step.simps, cases t) (auto simp: CHECK_def currency_at_def issuer_at_def)
qed

lemma path_token_fields:
  assumes "is_path t"
  shows "data_type (hd (token_fields cu p t)) \<in> {STI_ACCOUNT, STI_CURRENCY, STI_PATHSET}"
    and "data_type (hd (token_fields cu p t)) = STI_ACCOUNT \<longrightarrow>
      fld_length (hd (token_fields cu p t)) = 20"
    and "next_type t tx = tx" and "next_empty t cu e = e" and "token_skip t = 1"
    and "token_fields cu p t \<noteq> []"
  using assms by (cases t; simp add: currency_at_def issuer_at_def)+

lemma read_field_path:
  assumes d: "drop p bs = token_bytes t @ rest" and l: "length bs \<le> MAX_LEN"
    and ok: "token_ok t cu" and t: "is_path t"
    and room: "length fs + length (token_fields cu (Suc p) t) \<le> MAX_FIELD_COUNT"
  shows "read_field (length fs) (ctx bs p (fs @ [blank cu]) cu tx e) =
     (Inr (), ctx bs (p + length (token_bytes t)) (fs @ token_fields cu (Suc p) t) (next_cursor t cu) tx e)"
proof -
  obtain b xs where bx: "token_bytes t = b # xs" using t by (cases t) auto
  with d have d1: "drop p bs = b # xs @ rest" by simp
  have n: "length fs < MAX_FIELD_COUNT" using room t by (cases t) auto
  have a: "c_array cu = ARRAY_PATHSET" using ok t by (cases t) auto
  note rb = read_next_byte_ctx [OF d1 l, of "fs @ [at cu STI_PATHSET 0 DZero 0]" cu tx e]
  have h: "handle_path_field (length fs) (ctx bs p (fs @ [blank cu]) cu tx e) =
      (Inr (), ctx bs (p + length (token_bytes t)) (fs @ token_fields cu (Suc p) t) (next_cursor t cu) tx e)"
  proof (cases "t = Path_Next \<or> t = Path_End")
    case True
    then show ?thesis
      using rb bx n ok
      by (auto simp: handle_path_field_def CHECK_def gets_def modify_def return_def blank_def not_less [symmetric])
  next
    case False
    then have b: "b \<noteq> PATHSET_NEXT" "b \<noteq> PATHSET_END" using bx t by (cases t; auto)+
    have c: "\<not> c_index2 cu > MAX_STEP_COUNT" and nc: "next_cursor t cu = cu\<lparr>c_index2 := c_index2 cu + 1\<rparr>"
      using ok t False by (cases t; auto simp: not_less)+
    have "handle_path_step (length fs) b (ctx bs (Suc p) (fs @ [at cu STI_PATHSET 0 DZero 0]) cu tx e) =
        (Inr (), ctx bs (Suc p + length xs) (fs @ token_fields cu (Suc p) t) cu tx e)"
      using drop_next [OF d1] l room ok t False bx by (intro handle_path_step_token) auto
    with rb b c nc bx n show ?thesis
      by (simp add: handle_path_field_def CHECK_def gets_def modify_def blank_def)
  qed
  let ?fs = "fs @ token_fields cu (Suc p) t"
  have k: "length fs < length ?fs" and f: "?fs ! length fs = hd (token_fields cu (Suc p) t)"
    using path_token_fields(6) [OF t] by (simp_all add: nth_append hd_conv_nth)
  have "post_process_field (length fs) (ctx bs q ?fs cu' tx e) = (Inr (), ctx bs q ?fs cu' tx e)" for q cu'
    using path_token_fields(1,2) [OF t, of cu "Suc p"] k room
    by (intro post_process_field_path) (simp_all add: f del: insert_iff)
  with h a show ?thesis by (simp add: read_field_def CHECK_def gets_def)
qed

section \<open>One turn of the loop\<close>

lemma remove_last_field_ctx:
  assumes "length fs < MAX_FIELD_COUNT"
  shows "remove_last_field (length fs) (ctx bs p (fs @ [f]) cu tx e) = (Inr (), ctx bs p fs cu tx e)"
proof -
  let ?n = "num_fields (result (ctx bs p (fs @ [f]) cu tx e))"
  have n: "unat ?n = Suc (length fs)" using assms nf_ctx [of "fs @ [f]" bs p cu tx e] by simp
  then have "?n \<noteq> 0" by auto
  moreover have "?n - 1 = of_nat (length fs)" by (simp add: ctx_def)
  moreover have "replicate (60 - length fs) zero_field = zero_field # replicate (60 - Suc (length fs)) zero_field"
    using assms by (simp add: Suc_diff_Suc flip: replicate_Suc)
  ultimately show ?thesis
    using assms n
    by (simp add: remove_last_field_def CHECK_def gets_def modify_def set_fields_def)
      (simp add: ctx_def)
qed

lemma token_fields_ne [simp]: "token_fields cu q t \<noteq> []"
  by (cases t) simp_all

lemma hidden_alone:
  assumes "is_field_hidden (hd (token_fields cu q t))"
  shows "\<exists>f. token_fields cu q t = [f]"
proof (cases t)
  case (Field i v)
  with assms have "\<not> may_add_fields (value_type v)" using hidden_adds_nothing by fastforce
  then have "parts cu q i v = []" by (cases v) (simp_all add: may_add_fields_def)
  with Field show ?thesis by simp
next
  case (Path_Both a b)
  with assms have False using hidden_adds_nothing [OF assms] by (simp add: currency_at_def may_add_fields_def)
  then show ?thesis ..
qed simp_all

lemma length_parts_any: "length (parts cu q i v) = length (parts cu' p i v)"
  by (cases v) simp_all

lemma length_token_fields: "length (token_fields cu q t) = field_count t"
  by (cases t) (simp_all add: field_count_def length_parts_any)

lemma read_field_any:
  assumes "drop p bs = token_bytes t @ rest" and "length bs \<le> MAX_LEN"
    and "token_ok t cu" and "type_ok t cu tx" and "length fs + field_count t \<le> MAX_FIELD_COUNT"
  shows "read_field (length fs) (ctx bs p (fs @ [blank cu]) cu tx e) =
     (Inr (), ctx bs (p + length (token_bytes t)) (fs @ token_fields cu (p + token_skip t) t)
       (next_cursor t cu) (next_type t tx) (next_empty t cu e))"
proof (cases "is_path t")
  case True
  then show ?thesis
    using read_field_path [OF assms(1-3) True, of fs tx e] assms(5) path_token_fields [OF True]
    by (simp add: length_token_fields)
next
  case False
  then obtain i v where t: "t = Field i v" by (cases t) auto
  show ?thesis
    using read_field_token [of p bs v i rest cu tx fs e] assms t length_token_fields [of cu 0 t]
    by simp
qed

lemma parse_one_field_ctx:
  assumes "drop p bs = token_bytes t @ rest" and "length bs \<le> MAX_LEN"
    and "token_ok t cu" and "type_ok t cu tx" and "length fs + field_count t \<le> MAX_FIELD_COUNT"
  shows "parse_one_field (ctx bs p fs cu tx e) =
     (Inr (), ctx bs (p + length (token_bytes t)) (fs @ shown (token_fields cu (p + token_skip t) t))
       (next_cursor t cu) (next_type t tx) (next_empty t cu e))"
proof -
  let ?new = "token_fields cu (p + token_skip t) t"
  have n: "length fs < MAX_FIELD_COUNT"
    using assms(5) length_token_fields [of cu 0 t] token_fields_ne [of cu 0 t]
    by (cases "token_fields cu 0 t") auto
  have l: "length (fs @ ?new) \<le> MAX_FIELD_COUNT" using assms(5) by (simp add: length_token_fields)
  have f: "(fs @ ?new) ! length fs = hd ?new" by (simp add: nth_append hd_conv_nth)
  note g = get_field_ctx [OF _ l, of "length fs"]
  show ?thesis
  proof (cases "is_field_hidden (hd ?new)")
    case True
    then obtain x where x: "?new = [x]" using hidden_alone by blast
    then show ?thesis
      using True g f n read_field_any [OF assms, of e]
      by (simp add: parse_one_field_def CHECK_def remove_last_field_ctx shown_def)
  next
    case False
    then show ?thesis
      using g f n read_field_any [OF assms, of e]
      by (simp add: parse_one_field_def CHECK_def return_def shown_def)
  qed
qed

section \<open>All tokens\<close>

lemma hidden_anywhere:
  "is_field_hidden (hd (token_fields cu q t)) = is_field_hidden (hd (token_fields cu 0 t))"
proof (cases t)
  case (Field i v)
  then show ?thesis
    by (cases v) (simp_all add: is_field_hidden_def HIDE_def is_flag_hidden_def is_flag_def)
qed (simp_all add: is_field_hidden_def HIDE_def is_flag_hidden_def is_flag_def issuer_at_def currency_at_def)

lemma length_shown: "length (shown (token_fields cu q t)) = shown_count cu t"
  by (simp add: shown_def shown_count_def length_token_fields hidden_anywhere [of cu q])

lemma token_bytes_ne [simp]: "token_bytes t \<noteq> []"
  by (cases t) simp_all

lemma bytes_Cons: "bytes (t # ts) = token_bytes t @ bytes ts"
  by (simp add: bytes_def)

text \<open>The loop on a list of tokens at the position, whatever follows.\<close>

lemma parse_loop_prefix:
  assumes "drop p bs = bytes ts @ rest" and "length bs \<le> MAX_LEN"
    and "run_ok cu tx (length fs) ts" and "length fs \<le> MAX_FIELD_COUNT"
  shows "parse_loop (ctx bs p fs cu tx e) =
     parse_loop (ctx bs (p + length (bytes ts)) (fs @ all_fields cu p ts) (end_cursor cu ts)
       (end_type tx ts) (end_empty cu e ts)) \<and> length (fs @ all_fields cu p ts) \<le> MAX_FIELD_COUNT"
  using assms
proof (induction ts arbitrary: p fs cu tx e)
  case Nil
  then show ?case by (simp add: bytes_def)
next
  case (Cons t ts)
  have d: "drop p bs = token_bytes t @ bytes ts @ rest" using Cons.prems(1) by (simp add: bytes_Cons)
  have le: "p + length (token_bytes t) \<le> length bs" by (rule drop_bound [OF d token_bytes_ne])
  then have lt: "p < length bs" using token_bytes_ne [of t] by (cases "token_bytes t") auto
  have small: "unat (of_nat (length bs) :: u32) = length bs" "unat (of_nat p :: u32) = p"
    using Cons.prems(2) lt by (simp_all add: MAX_LEN_def unat_of_nat_eq)
  then have off: "offset (ctx bs p fs cu tx e) < ctx_length (ctx bs p fs cu tx e)"
    using lt by (simp add: ctx_def word_less_nat_alt)
  let ?fs = "fs @ shown (token_fields cu (p + token_skip t) t)"
  have step: "parse_one_field (ctx bs p fs cu tx e) =
      (Inr (), ctx bs (p + length (token_bytes t)) ?fs (next_cursor t cu) (next_type t tx) (next_empty t cu e))"
    using Cons.prems(2,3) by (intro parse_one_field_ctx [OF d]) simp_all
  have "length ?fs \<le> MAX_FIELD_COUNT"
    using Cons.prems(3,4) by (simp add: length_shown shown_count_def)
  note ih = Cons.IH [OF drop_past [OF d] Cons.prems(2) _ this, of "next_cursor t cu" "next_type t tx"
      "next_empty t cu e"]
  have "run_ok (next_cursor t cu) (next_type t tx) (length ?fs) ts"
    using Cons.prems(3) by (simp add: length_shown)
  note ih = ih [OF this]
  have "parse_loop (ctx bs p fs cu tx e) =
      parse_loop (ctx bs (p + length (token_bytes t)) ?fs (next_cursor t cu) (next_type t tx) (next_empty t cu e))"
    using step off by (subst parse_loop.simps) auto
  with ih show ?case by (simp add: bytes_Cons add.assoc)
qed

lemma parse_loop_end: "parse_loop (ctx bs (length bs) fs cu tx e) = Some (Inr (), ctx bs (length bs) fs cu tx e)"
  by (subst parse_loop.simps) (simp add: ctx_def)

section \<open>The end of the parse\<close>

lemma has_field_ctx:
  assumes "length fs \<le> MAX_FIELD_COUNT"
  shows "has_field (ctx bs p fs cu tx e) t i True = outside_arrays t i fs"
    and "has_field (ctx bs p fs cu tx e) t i False = list_ex (\<lambda>f. data_type f = t \<and> fld_id f = i) fs"
  using assms by (simp_all add: has_field_def outside_arrays_def conj_assoc)

lemma sort_result_ctx:
  assumes "length fs \<le> MAX_FIELD_COUNT"
  shows "sort_result (ctx bs p fs cu tx e) = (Inr (), ctx bs p (sort_key get_priority_score fs) cu tx e)"
proof -
  let ?r = "result (ctx bs p fs cu tx e)"
  let ?n = "unat (num_fields ?r)"
  have n: "?n = length fs" using assms by (rule nf_ctx)
  then have "?n \<le> length (res_fields ?r)" using assms by (simp add: fields_ctx)
  from sort_fields_sort_key [OF this] obtain r
    where r: "sort_fields ?r = Some r" "num_fields r = num_fields ?r"
      "length (res_fields r) = length (res_fields ?r)"
      "used_fields r = sort_key get_priority_score (used_fields ?r)"
      "drop ?n (res_fields r) = drop ?n (res_fields ?r)"
    by blast
  have "res_fields r = take ?n (res_fields r) @ drop ?n (res_fields r)" by simp
  also have "take ?n (res_fields r) = sort_key get_priority_score fs"
    using r(2,4) assms by (simp add: used_fields_def fields_ctx n)
  also have "drop ?n (res_fields r) = replicate (60 - length fs) zero_field"
    using r(5) by (simp add: fields_ctx n)
  finally have "r = \<lparr>num_fields = of_nat (length fs),
      res_fields = sort_key get_priority_score fs @ replicate (60 - length fs) zero_field\<rparr>"
    using r(2) by (cases r) (simp add: ctx_def)
  then show ?thesis using r(1) by (simp add: sort_result_def) (simp add: ctx_def)
qed

lemma find_flags_ctx:
  assumes "\<forall>f \<in> set fs. is_top_level_flags f \<longrightarrow> (\<exists>v. fdata f = DU32 v)"
  shows "\<exists>v d. find_flags_loop fs None = Some (v, d) \<and>
     (flags_fine tx fs \<longleftrightarrow> \<not> (d \<or> (case v of Some w \<Rightarrow> has_unknown_flags tx w | None \<Rightarrow> False)))"
proof (cases "filter is_top_level_flags fs")
  case Nil
  then have "\<forall>f \<in> set fs. \<not> is_top_level_flags f" by (simp add: filter_empty_conv)
  with Nil show ?thesis
    by (intro exI [of _ None] exI [of _ False])
      (simp add: find_flags_loop_filter flags_fine_def list_all_iff)
next
  case (Cons f rest)
  then have mem: "f \<in> set (filter is_top_level_flags fs)" by simp
  then obtain v where v: "fdata f = DU32 v" using assms by auto
  have only: "\<forall>g \<in> set fs. is_top_level_flags g \<longrightarrow> g = f" if "rest = []"
  proof -
    have "set (filter is_top_level_flags fs) = {f}" using Cons that by simp
    then show ?thesis by auto
  qed
  have "flags_fine tx fs \<longleftrightarrow> rest = [] \<and> \<not> has_unknown_flags tx v"
  proof (cases "rest = []")
    case True
    have "(\<forall>g \<in> set fs. is_top_level_flags g \<longrightarrow>
        (case fdata g of DU32 v \<Rightarrow> \<not> has_unknown_flags tx v | _ \<Rightarrow> False)) \<longleftrightarrow>
        \<not> has_unknown_flags tx v"
    proof
      assume "\<forall>g \<in> set fs. is_top_level_flags g \<longrightarrow>
        (case fdata g of DU32 v \<Rightarrow> \<not> has_unknown_flags tx v | _ \<Rightarrow> False)"
      then have "case fdata f of DU32 v \<Rightarrow> \<not> has_unknown_flags tx v | _ \<Rightarrow> False" using mem by simp
      then show "\<not> has_unknown_flags tx v" by (simp add: v)
    next
      assume "\<not> has_unknown_flags tx v"
      then show "\<forall>g \<in> set fs. is_top_level_flags g \<longrightarrow>
        (case fdata g of DU32 v \<Rightarrow> \<not> has_unknown_flags tx v | _ \<Rightarrow> False)"
        using only [OF True] v by (intro ballI impI) (drule (1) bspec, simp)
    qed
    then show ?thesis using Cons True by (simp add: flags_fine_def list_all_iff)
  next
    case False
    then show ?thesis using Cons by (cases rest) (simp_all add: flags_fine_def)
  qed
  then show ?thesis
    using Cons v by (intro exI [of _ "Some v"] exI [of _ "rest \<noteq> []"]) (simp add: find_flags_loop_filter)
qed

lemma flags_fine_sorted: "flags_fine tx (sort_key k fs) = flags_fine tx fs"
  by (simp add: flags_fine_def list_all_iff filter_sort)

lemma final_checks_ctx:
  assumes "length fs \<le> MAX_FIELD_COUNT"
    and "\<forall>f \<in> set fs. is_top_level_flags f \<longrightarrow> (\<exists>v. fdata f = DU32 v)"
    and "outside_arrays STI_UINT16 XRP_UINT16_TRANSACTION_TYPE fs"
    and "outside_arrays STI_ACCOUNT XRP_ACCOUNT_ACCOUNT fs"
  shows "final_checks (ctx bs p fs cu tx e) = (verdict tx fs, ctx bs p fs cu tx e)"
proof -
  obtain v d where v: "find_flags_loop fs None = Some (v, d)"
    and f: "flags_fine tx fs \<longleftrightarrow> \<not> (d \<or> (case v of Some w \<Rightarrow> has_unknown_flags tx w | None \<Rightarrow> False))"
    using find_flags_ctx [OF assms(2)] by blast
  show ?thesis
    using assms(1,3,4) v
    by (cases v) (simp_all add: final_checks_def CHECK_def gets_def throw_def return_def from_union_def
        find_top_level_flags_value_def verdict_def f)
qed

lemma set_shown: "set (shown fs) \<subseteq> set fs"
  by (simp add: shown_def)

lemma flags_are_u32:
  "f \<in> set (all_fields cu p ts) \<Longrightarrow> is_top_level_flags f \<Longrightarrow> \<exists>v. fdata f = DU32 v"
proof (induction ts arbitrary: cu p)
  case (Cons t ts)
  have "\<exists>v. fdata f = DU32 v" if "f \<in> set (token_fields cu q t)" for q
  proof (cases t)
    case (Field i v)
    then show ?thesis
      using that Cons.prems(2)
      by (cases v) (auto simp: is_top_level_flags_def issuer_at_def currency_at_def entry_at_def Let_def
          split: if_splits)
  qed (use that Cons.prems(2) in \<open>auto simp: is_top_level_flags_def issuer_at_def currency_at_def\<close>)
  with Cons show ?case using set_shown by fastforce
qed simp

lemma post_process_transaction_ctx:
  assumes "length (review_fields ts) \<le> MAX_FIELD_COUNT"
  shows "post_process_transaction (ctx bs p (all_fields start 0 ts) (end_cursor start ts)
      (end_type TRANSACTION_INVALID ts) e) =
    (Inr (), ctx bs p (review_fields ts) (end_cursor start ts) (end_type TRANSACTION_INVALID ts) e)"
  using assms
  by (auto simp: post_process_transaction_def CHECK_def gets_def return_def has_field_ctx
      review_fields_def Let_def blank_def split: if_splits)

lemma verdict_sorted: "verdict tx (sort_key k fs) = verdict tx fs"
  by (simp add: verdict_def flags_fine_sorted outside_arrays_def list_all_iff list_ex_iff)

lemma finish_parse_ctx:
  assumes "length (review_fields ts) \<le> MAX_FIELD_COUNT"
  defines "tx \<equiv> end_type TRANSACTION_INVALID ts" and "cu \<equiv> end_cursor start ts"
  shows "finish_parse (ctx bs p (all_fields start 0 ts) cu tx e) =
    (verdict tx (review_fields ts),
     ctx bs p (if verdict tx (review_fields ts) = Inl NOT_SUPPORTED then review_fields ts
       else sort_key get_priority_score (review_fields ts)) cu tx e)"
proof -
  let ?fs = "review_fields ts"
  let ?s = "sort_key get_priority_score ?fs"
  have u32: "\<forall>f \<in> set ?s. is_top_level_flags f \<longrightarrow> (\<exists>v. fdata f = DU32 v)"
    using flags_are_u32 [of _ start 0 ts]
    by (auto simp: review_fields_def Let_def is_top_level_flags_def split: if_splits)
  note post = post_process_transaction_ctx [OF assms(1), of bs p e, folded tx_def cu_def]
  show ?thesis
  proof (cases "outside_arrays STI_UINT16 XRP_UINT16_TRANSACTION_TYPE ?fs \<and>
      outside_arrays STI_ACCOUNT XRP_ACCOUNT_ACCOUNT ?fs")
    case True
    then have o: "outside_arrays STI_UINT16 XRP_UINT16_TRANSACTION_TYPE ?s"
      "outside_arrays STI_ACCOUNT XRP_ACCOUNT_ACCOUNT ?s"
      by (simp_all add: outside_arrays_def list_ex_iff)
    have "verdict tx ?fs \<noteq> Inl NOT_SUPPORTED" using True by (simp add: verdict_def)
    moreover have "final_checks (ctx bs p ?s cu tx e) = (verdict tx ?fs, ctx bs p ?s cu tx e)"
      using final_checks_ctx [OF _ u32 o, of bs p cu tx e] assms(1) by (simp add: verdict_sorted)
    ultimately show ?thesis
      using True post assms(1)
      by (simp add: finish_parse_def CHECK_def gets_def has_field_ctx sort_result_ctx)
  next
    case False
    then show ?thesis
      using post assms(1)
      by (auto simp: finish_parse_def CHECK_def gets_def has_field_ctx throw_def verdict_def)
  qed
qed

lemma init_is_ctx:
  "init_context bs (of_nat (length bs))\<lparr>transaction_type := tx, has_empty_pub_key := e, ctx_object_depth := 0\<rparr> =
   ctx bs 0 [] start tx e"
  by (simp add: init_context_def ctx_def zero_result_def start_def)

lemma parse_tx_tokens:
  assumes "run_ok start TRANSACTION_INVALID 0 ts" and "length (bytes ts) \<le> MAX_LEN"
    and "length (review_fields ts) \<le> MAX_FIELD_COUNT"
  shows "\<exists>d. parse_tx (init_context (bytes ts) (of_nat (length (bytes ts)))) =
      Some (verdict (end_type TRANSACTION_INVALID ts) (review_fields ts), d) \<and>
    transaction_type d = end_type TRANSACTION_INVALID ts \<and>
    has_empty_pub_key d = end_empty start False ts \<and>
    (verdict (end_type TRANSACTION_INVALID ts) (review_fields ts) \<noteq> Inl NOT_SUPPORTED \<longrightarrow>
       used_fields (result d) = sort_key get_priority_score (review_fields ts))"
proof -
  have "parse_loop (ctx (bytes ts) 0 [] start TRANSACTION_INVALID False) =
      Some (Inr (), ctx (bytes ts) (length (bytes ts)) (all_fields start 0 ts) (end_cursor start ts)
        (end_type TRANSACTION_INVALID ts) (end_empty start False ts))"
    using parse_loop_prefix [of 0 "bytes ts" ts "[]" start TRANSACTION_INVALID "[]" False] assms(1,2)
    by (simp add: parse_loop_end)
  then show ?thesis
    using assms(3) finish_parse_ctx [OF assms(3), of "bytes ts" "length (bytes ts)" "end_empty start False ts"]
    by (simp add: parse_tx_def parse_tx_internal_def init_is_ctx)
qed

text \<open>
  C4. Functional correctness of the parser. On the bytes of any list of tokens that follows the
  grammar and fits the field array, \<open>parse_tx\<close> answers exactly the verdict of the specification,
  and when it is not a rejection the review holds exactly the fields of the tokens, in review order.
\<close>

theorem parse_tx_correct:
  assumes "run_ok start TRANSACTION_INVALID 0 ts" and "length (bytes ts) \<le> MAX_LEN"
    and "length (review_fields ts) \<le> MAX_FIELD_COUNT"
  shows "\<exists>d. parse_tx (init_context (bytes ts) (of_nat (length (bytes ts)))) =
      Some (verdict (end_type TRANSACTION_INVALID ts) (review_fields ts), d) \<and>
    transaction_type d = end_type TRANSACTION_INVALID ts \<and>
    has_empty_pub_key d = end_empty start False ts \<and>
    (verdict (end_type TRANSACTION_INVALID ts) (review_fields ts) \<noteq> Inl NOT_SUPPORTED \<longrightarrow>
       used_fields (result d) = sort_key get_priority_score (review_fields ts))"
  using assms by (rule parse_tx_tokens)

text \<open>The tokens of the payment of \<open>payment_example\<close>.\<close>

definition payment_tokens :: "token list" where
  "payment_tokens =
     (let key = take 33 (drop 33 payment_example);
          acc = take 20 (drop 68 payment_example) in
      [Field 2 (V_UInt16 TRANSACTION_PAYMENT), Field 2 (V_UInt32 0), Field 4 (V_UInt32 3),
       Field 1 (V_Xrp [0x40, 0, 0, 0, 0, 0x0f, 0x42, 0x40]),
       Field 8 (V_Xrp [0x40, 0, 0, 0, 0, 0, 0, 0x0f]),
       Field 3 (V_Blob key), Field 1 (V_Account acc), Field 3 (V_Account acc)])"

lemma payment_tokens_fit:
  "bytes payment_tokens = payment_example" "run_ok start TRANSACTION_INVALID 0 payment_tokens"
  "verdict (end_type TRANSACTION_INVALID payment_tokens) (review_fields payment_tokens) = Inr ()"
  "length (review_fields payment_tokens) = 5"
  by code_simp+

theorem parse_tx_correct_witness:
  "\<exists>d. parse_tx (init_context payment_example 110) = Some (Inr (), d) \<and>
     used_fields (result d) = sort_key get_priority_score (review_fields payment_tokens)"
proof -
  have "length payment_example = 110" by (simp add: payment_example_def)
  then show ?thesis
    using parse_tx_correct [of payment_tokens] payment_tokens_fit by (auto simp: MAX_LEN_def)
qed

text \<open>
  C33. One transaction type. A TransactionType field that is nested, or that follows one whose
  value was kept, ends the parse with the demand for blind signing, whatever bytes follow it.
\<close>

theorem second_type_forces_blind_signing:
  assumes "run_ok start TRANSACTION_INVALID 0 ts" and "length (all_fields start 0 ts) < MAX_FIELD_COUNT"
    and "c_array (end_cursor start ts) \<noteq> ARRAY_PATHSET"
    and "\<not> type_ok (Field XRP_UINT16_TRANSACTION_TYPE (V_UInt16 w)) (end_cursor start ts)
            (end_type TRANSACTION_INVALID ts)"
    and "bs = bytes ts @ token_bytes (Field XRP_UINT16_TRANSACTION_TYPE (V_UInt16 w)) @ rest"
    and "length bs \<le> MAX_LEN"
  shows "\<exists>d. parse_tx (init_context bs (of_nat (length bs))) = Some (Inl BLIND_SIGN_REQUIRED, d)"
proof -
  let ?t = "Field XRP_UINT16_TRANSACTION_TYPE (V_UInt16 w)"
  let ?p = "length (bytes ts)" and ?fs = "all_fields start 0 ts"
  let ?cu = "end_cursor start ts" and ?tx = "end_type TRANSACTION_INVALID ts"
  let ?e = "end_empty start False ts"
  have loop: "parse_loop (ctx bs 0 [] start TRANSACTION_INVALID False) =
      parse_loop (ctx bs ?p ?fs ?cu ?tx ?e)"
    using parse_loop_prefix [of 0 bs ts "token_bytes ?t @ rest" start TRANSACTION_INVALID "[]" False]
      assms(1,5,6) by simp
  have d: "drop ?p bs = header_bytes (value_type (V_UInt16 w)) 2 @ value_prefix (V_UInt16 w) @
      value_bytes (V_UInt16 w) @ rest"
    using assms(5) by simp
  let ?c = "ctx bs (?p + length (token_bytes ?t)) (?fs @ token_fields ?cu (?p + token_skip ?t) ?t) ?cu ?tx ?e"
  have r: "CHECK (read_field_header (length ?fs)) (\<lambda>_. read_field_value (length ?fs))
      (ctx bs ?p (?fs @ [blank ?cu]) ?cu ?tx ?e) = (Inr (), ?c)"
    using read_header_value [OF d assms(6), of ?cu ?fs ?tx ?e] assms(2,3) by simp
  have "post_process_field (length ?fs) ?c = (Inl BLIND_SIGN_REQUIRED, ?c)"
    using assms(2,4)
    by (auto simp: post_process_field_def CHECK_def is_transaction_type_field_def gets_def throw_def Let_def)
  then have one: "parse_one_field (ctx bs ?p ?fs ?cu ?tx ?e) = (Inl BLIND_SIGN_REQUIRED, ?c)"
    using r assms(2,3)
    by (simp add: parse_one_field_def read_field_def CHECK_def gets_def)
  have "?p < length bs" using assms(5) token_bytes_ne [of ?t] by (cases "token_bytes ?t") auto
  then have "offset (ctx bs ?p ?fs ?cu ?tx ?e) < ctx_length (ctx bs ?p ?fs ?cu ?tx ?e)"
    using assms(6) by (simp add: ctx_def word_less_nat_alt unat_of_nat_eq MAX_LEN_def)
  then have "parse_loop (ctx bs ?p ?fs ?cu ?tx ?e) = Some (Inl BLIND_SIGN_REQUIRED, ?c)"
    using one by (subst parse_loop.simps) auto
  with loop show ?thesis
    by (simp add: parse_tx_def parse_tx_internal_def init_is_ctx)
qed

theorem second_type_forces_blind_signing_witness:
  "\<exists>d. parse_tx (init_context (payment_example @ [0x12, 0, 3]) 113) = Some (Inl BLIND_SIGN_REQUIRED, d)"
proof -
  have "run_ok start TRANSACTION_INVALID 0 payment_tokens"
    "length (all_fields start 0 payment_tokens) < MAX_FIELD_COUNT"
    "c_array (end_cursor start payment_tokens) \<noteq> ARRAY_PATHSET"
    "\<not> type_ok (Field XRP_UINT16_TRANSACTION_TYPE (V_UInt16 3)) (end_cursor start payment_tokens)
        (end_type TRANSACTION_INVALID payment_tokens)"
    "payment_example @ [0x12, 0, 3] =
       bytes payment_tokens @ token_bytes (Field XRP_UINT16_TRANSACTION_TYPE (V_UInt16 3)) @ []"
    by code_simp+
  from second_type_forces_blind_signing [OF this] show ?thesis
    by (simp add: payment_example_def MAX_LEN_def)
qed

end
