(* ===== verification/Parser_Limits.thy ===== *)
theory Parser_Limits
  imports Parser_Correct
begin

text \<open>
  Two transactions the checks of \<open>xrp_parse.c\<close> let through although its comments rule them out:
  a second transaction type after one whose value is \<open>TRANSACTION_INVALID\<close>, and a transaction
  type inside 256 open objects, where the depth counter, a \<open>uint8_t\<close>, is zero again.
\<close>

section \<open>A transaction type after an invalid one\<close>

lemma two_types_fields:
  "all_fields start 0 [Field 2 (V_UInt16 TRANSACTION_INVALID), Field 2 (V_UInt16 w), Field 1 (V_Account a)] =
     [at start STI_UINT16 2 (DU16 TRANSACTION_INVALID) 2, at start STI_UINT16 2 (DU16 w) 2,
      at start STI_ACCOUNT 1 (DPtr 8) (length a)]" if "length a = 20"
  using that
  by (simp add: shown_def is_field_hidden_def HIDE_def is_flag_hidden_def is_flag_def header_bytes_def
      vl_prefix_def be16_def) (simp add: eval_nat_numeral)

lemma supported_type:
  "is_supported_transaction_type w \<Longrightarrow> w \<noteq> TRANSACTION_INVALID"
  by (auto simp: is_supported_transaction_type_def)

text \<open>
  C35. The comment of \<open>post_process_field\<close> says a later TransactionType forces blind signing. It
  does not when the first one is \<open>0xFFFF\<close>: then the second is taken, and the
  transaction is clear-signed with both shown.
\<close>

theorem invalid_type_is_replaced:
  assumes "is_supported_transaction_type w" and "w \<noteq> TRANSACTION_SET_REGULAR_KEY" and "length a = 20"
  defines "bs \<equiv> bytes [Field 2 (V_UInt16 TRANSACTION_INVALID), Field 2 (V_UInt16 w), Field 1 (V_Account a)]"
  shows "\<exists>d. parse_tx (init_context bs (of_nat (length bs))) = Some (Inr (), d) \<and>
     transaction_type d = w \<and>
     map fdata (filter is_transaction_type_field (used_fields (result d))) =
       [DU16 TRANSACTION_INVALID, DU16 w]"
proof -
  let ?ts = "[Field 2 (V_UInt16 TRANSACTION_INVALID), Field 2 (V_UInt16 w), Field 1 (V_Account a)]"
  have ok: "run_ok start TRANSACTION_INVALID 0 ?ts"
    using assms(3) by (simp add: start_def field_count_def shown_count_def is_field_hidden_def HIDE_def
        is_flag_hidden_def is_flag_def)
  have ty: "end_type TRANSACTION_INVALID ?ts = w" by simp
  have fs: "review_fields ?ts = [at start STI_UINT16 2 (DU16 TRANSACTION_INVALID) 2,
      at start STI_UINT16 2 (DU16 w) 2, at start STI_ACCOUNT 1 (DPtr 8) (length a)]"
    using assms(2) two_types_fields [OF assms(3), of w] ty by (simp add: review_fields_def Let_def)
  have v: "verdict w (review_fields ?ts) = Inr ()"
    using assms(1) supported_type [OF assms(1)]
    by (simp add: fs verdict_def outside_arrays_def flags_fine_def is_top_level_flags_def start_def
        is_field_recognized_def resolve_field_name_switch_def uint16_names_def account_names_def)
  have "length (bytes ?ts) \<le> MAX_LEN" using assms(3)
    by (simp add: bytes_def MAX_LEN_def header_bytes_def vl_prefix_def be16_def)
  from parse_tx_tokens [OF ok this] fs v ty obtain d
    where "parse_tx (init_context bs (of_nat (length bs))) = Some (Inr (), d)"
      and "transaction_type d = w"
      and "used_fields (result d) = sort_key get_priority_score (review_fields ?ts)"
    by (auto simp: bs_def)
  then show ?thesis
    by (auto simp: fs get_priority_score_def is_transaction_type_field_def is_normal_account_field_def)
qed

theorem invalid_type_is_replaced_witness:
  "\<exists>d. parse_tx (init_context ([0x12, 0xff, 0xff, 0x12, 0, 0, 0x81, 20] @ replicate 20 7) 28) =
     Some (Inr (), d) \<and> transaction_type d = TRANSACTION_PAYMENT"
proof -
  have "bytes [Field 2 (V_UInt16 TRANSACTION_INVALID), Field 2 (V_UInt16 TRANSACTION_PAYMENT),
      Field 1 (V_Account (replicate 20 7))] =
      [0x12, 0xff, 0xff, 0x12, 0, 0, 0x81, 20] @ replicate 20 7"
    by code_simp
  then show ?thesis
    using invalid_type_is_replaced [of TRANSACTION_PAYMENT "replicate 20 7"]
    by (auto simp: is_supported_transaction_type_def)
qed

section \<open>Deep nesting\<close>

text \<open>\<open>n\<close> objects, each the only member of an array of its own, none of them closed.\<close>

definition deep :: "nat \<Rightarrow> token list" where
  "deep n = concat (replicate n [Field 9 V_Array, Field 10 V_Object])"

definition inside :: "nat \<Rightarrow> cursor \<Rightarrow> cursor" where
  "inside n cu =
     (if n = 0 then cu
      else \<lparr>c_array = 9, c_index1 = 1, c_index2 = 0, c_depth = c_depth cu + of_nat n\<rparr>)"

lemma deep_Suc: "deep (Suc n) = Field 9 V_Array # Field 10 V_Object # deep n"
  by (simp add: deep_def)

lemma inside_Suc:
  "inside n (cu\<lparr>c_array := 9, c_index2 := 0, c_index1 := 1, c_depth := c_depth cu + 1\<rparr>) =
   inside (Suc n) cu"
  by (cases cu) (simp add: inside_def)

lemma hidden_markers [simp]:
  "is_field_hidden (at cu STI_ARRAY i d k)" "is_field_hidden (at cu STI_OBJECT i d k)"
  by (simp_all add: is_field_hidden_def)

lemma deep_run:
  assumes "c_array cu \<noteq> ARRAY_PATHSET" and "k < MAX_FIELD_COUNT"
  shows "run_ok cu tx k (deep n @ ts) = run_ok (inside n cu) tx k ts"
    and "all_fields cu p (deep n @ ts) = all_fields (inside n cu) (p + 2 * n) ts"
    and "end_type tx (deep n @ ts) = end_type tx ts"
  using assms(1)
proof (induction n arbitrary: cu p)
  case 0
  {
    case 1
    then show ?case by (simp add: deep_def inside_def)
  next
    case 2
    then show ?case by (simp add: deep_def inside_def)
  next
    case 3
    then show ?case by (simp add: deep_def)
  }
next
  case (Suc n)
  {
    case 1
    then show ?case
      using Suc(1) [of "next_cursor (Field 10 V_Object) (next_cursor (Field 9 V_Array) cu)"] assms(2)
      by (simp add: deep_Suc inside_Suc field_count_def shown_count_def)
  next
    case 2
    then show ?case
      using Suc(2) [of "next_cursor (Field 10 V_Object) (next_cursor (Field 9 V_Array) cu)"]
      by (simp add: deep_Suc inside_Suc shown_def header_bytes_def)
  next
    case 3
    then show ?case
      using Suc(3) [of cu] by (simp add: deep_Suc)
  }
qed

definition buried :: "u16 \<Rightarrow> u8 list \<Rightarrow> token list" where
  "buried w a = deep 256 @ [Field 1 V_Array, Field 2 (V_UInt16 w), Field 1 (V_Account a)]"

lemma length_bytes_deep: "length (bytes (deep n @ ts)) = 2 * n + length (bytes ts)"
  by (induction n) (simp_all add: deep_def bytes_def header_bytes_def)

lemma at_two: "at cu t i d (Suc (Suc 0)) = at cu t i d 2"
  by (simp add: numeral_2_eq_2)

lemma buried_ok:
  assumes "length a = 20"
  shows "run_ok start TRANSACTION_INVALID 0 (buried w a)" and "end_type TRANSACTION_INVALID (buried w a) = w"
    and "\<exists>p cu. all_fields start 0 (buried w a) =
      [at cu STI_UINT16 2 (DU16 w) 2, at cu STI_ACCOUNT 1 (DPtr p) 20] \<and> c_array cu = 0"
    and "length (bytes (buried w a)) \<le> MAX_LEN"
proof -
  have s: "c_array start \<noteq> ARRAY_PATHSET" by (simp add: start_def)
  note d = deep_run [OF s, of 0]
  show "run_ok start TRANSACTION_INVALID 0 (buried w a)"
    using assms d(1) by (simp add: buried_def inside_def start_def field_count_def shown_count_def
        is_field_hidden_def HIDE_def is_flag_hidden_def is_flag_def)
  show "end_type TRANSACTION_INVALID (buried w a) = w"
    using d(3) by (simp add: buried_def)
  show "\<exists>p cu. all_fields start 0 (buried w a) =
      [at cu STI_UINT16 2 (DU16 w) 2, at cu STI_ACCOUNT 1 (DPtr p) 20] \<and> c_array cu = 0"
    using assms d(2) [of 0 256] by (simp add: buried_def shown_def is_field_hidden_def HIDE_def is_flag_hidden_def
        is_flag_def be16_def at_two) (rule exI, rule exI, (rule conjI, rule refl)+, simp)
  show "length (bytes (buried w a)) \<le> MAX_LEN"
    using assms by (simp add: buried_def length_bytes_deep)
      (simp add: bytes_def header_bytes_def vl_prefix_def be16_def MAX_LEN_def)
qed

text \<open>
  C36. The depth is a \<open>uint8_t\<close> that \<open>handle_object_field\<close> increments without a limit of its own:
  inside 256 open objects it is zero, and a transaction whose TransactionType and Account
  stand there is taken for a top-level one and clear-signed.
\<close>

theorem depth_counter_wraps:
  assumes "is_supported_transaction_type w" and "w \<noteq> TRANSACTION_SET_REGULAR_KEY" and "length a = 20"
  shows "\<exists>d. parse_tx (init_context (bytes (buried w a)) (of_nat (length (bytes (buried w a))))) =
      Some (Inr (), d) \<and> transaction_type d = w"
proof -
  obtain p cu where fs: "all_fields start 0 (buried w a) =
      [at cu STI_UINT16 2 (DU16 w) 2, at cu STI_ACCOUNT 1 (DPtr p) 20]" and cu: "c_array cu = 0"
    using buried_ok(3) [OF assms(3), of w] by blast
  note ty = buried_ok(2) [OF assms(3), of w]
  have r: "review_fields (buried w a) =
      [at cu STI_UINT16 2 (DU16 w) 2, at cu STI_ACCOUNT 1 (DPtr p) 20]"
    using assms(2) by (simp add: review_fields_def Let_def fs ty)
  have "verdict w (review_fields (buried w a)) = Inr ()"
    using assms(1) supported_type [OF assms(1)] cu
    by (simp add: r verdict_def outside_arrays_def flags_fine_def is_top_level_flags_def
        is_field_recognized_def resolve_field_name_switch_def uint16_names_def account_names_def)
  then show ?thesis
    using parse_tx_tokens [OF buried_ok(1,4) [OF assms(3), of w]] ty r by auto
qed

theorem depth_counter_wraps_witness:
  "\<exists>d. parse_tx (init_context (bytes (buried TRANSACTION_PAYMENT (replicate 20 7))) 538) = Some (Inr (), d) \<and>
     transaction_type d = TRANSACTION_PAYMENT"
proof -
  have "length (bytes (buried TRANSACTION_PAYMENT (replicate 20 7))) = 538"
    by (simp add: buried_def length_bytes_deep)
      (simp add: bytes_def header_bytes_def vl_prefix_def be16_def)
  then show ?thesis
    using depth_counter_wraps [of TRANSACTION_PAYMENT "replicate 20 7"]
    by (auto simp: is_supported_transaction_type_def)
qed

end
