(* ===== verification/Parser_Reads.thy ===== *)
theory Parser_Reads
  imports Parser_Safety
begin

text \<open>
  What the parser keeps of what it reads: the fields of the whole transaction, in the order of its
  bytes, against the fields left for the review. The ones that are dropped are of the kinds
  listed in \<open>never_shown\<close>, and no other.
\<close>

section \<open>The fields of a transaction\<close>

text \<open>Reading one field, up to the point where the loop decides whether to hide it.\<close>

definition read_one :: "unit parse" where
  "read_one = CHECK append_new_field read_field"

text \<open>
  \<open>reads c fss c'\<close>: the loop goes from \<open>c\<close> to \<open>c'\<close> and reads the groups of fields \<open>fss\<close> on the way.
  A group is what one turn of the loop writes to the table before it hides anything: the field
  itself, followed by the parts it was split into (currency and issuer of an amount, entries of
  a vector, elements of a path).
\<close>

inductive reads :: "parseContext_t \<Rightarrow> field_t list list \<Rightarrow> parseContext_t \<Rightarrow> bool" where
  reads_end: "reads c [] c"
| reads_turn: "read_one c = (Inr (), e) \<Longrightarrow> parse_one_field c = (Inr (), d) \<Longrightarrow> reads d fss c' \<Longrightarrow>
     reads c (drop (nf c) (used_fields (result e)) # fss) c'"

text \<open>
  The fields a review leaves out (specification): the markers of arrays, objects and path sets;
  at the top level of arrays, the sequence number, the last ledger and the signer's public key;
  and flags without a bit, or with the canonical-signature bit alone.
\<close>

definition never_shown :: "field_t \<Rightarrow> bool" where
  "never_shown f \<longleftrightarrow>
     data_type f \<in> {STI_ARRAY, STI_OBJECT, STI_PATHSET} \<or>
     ai_type (array_info f) = ARRAY_NONE \<and>
       (data_type f, fld_id f) \<in> {(STI_UINT32, XRP_UINT32_SEQUENCE),
         (STI_UINT32, XRP_UINT32_LAST_LEDGER_SEQUENCE), (STI_VL, XRP_VL_SIGNING_PUB_KEY)} \<or>
     data_type f = STI_UINT32 \<and>
       fld_id f \<in> {XRP_UINT32_FLAGS, XRP_UINT32_SET_FLAG, XRP_UINT32_CLEAR_FLAG} \<and>
       data_u32 (fdata f) \<in> {Some 0, Some 0x80000000}"

lemma hidden_iff_never_shown: "is_field_hidden f \<longleftrightarrow> never_shown f"
  by (cases "fdata f")
    (auto simp: is_field_hidden_def HIDE_def is_flag_hidden_def is_flag_def never_shown_def)

section \<open>One turn of the loop\<close>

lemma removed_used_fields:
  assumes "remove_last_field k c = (Inr (), d)" and "ctx_inv {} c" and "nf c = k + 1"
  shows "used_fields (result d) = take k (used_fields (result c))"
proof -
  have "wp (remove_last_field k) (\<lambda>_ d. used_fields (result d) = take k (used_fields (result c))) (\<lambda>_ _. True) c"
    by (rule remove_last_field_wp [OF assms(2,3)])
      (use assms(3) in \<open>auto simp: used_fields_def take_update_cancel min_def\<close>)
  with assms(1) show ?thesis by (simp add: wp_def)
qed

lemma turn_reads:
  assumes "ctx_inv {} c" and "parse_one_field c = (Inr (), d)"
  obtains e fs where "read_one c = (Inr (), e)" and "fs = drop (nf c) (used_fields (result e))" and "fs \<noteq> []"
    and "used_fields (result d) = used_fields (result c) @ (if never_shown (hd fs) then [] else fs)"
proof -
  let ?k = "nf c"
  have append: "append_new_field c = (Inr ?k, appended c)" and room: "?k < MAX_FIELD_COUNT"
    using assms(2) append_new_field_eq [OF inv_ctx_ok [OF assms(1)]]
    by (auto simp: parse_one_field_def CHECK_def split: if_splits)
  note a = appended_ok [OF inv_ctx_ok [OF assms(1)] room] nf_appended [OF inv_ctx_ok [OF assms(1)] room]
  have inv: "ctx_inv {?k} (appended c)" using a(4) [OF assms(1)] by simp
  obtain e where e: "read_field ?k (appended c) = (Inr (), e)"
    and rest: "CHECK (get_field ?k) (\<lambda>f. if is_field_hidden f then remove_last_field ?k else return ()) e = (Inr (), d)"
    using assms(2) append by (auto simp: parse_one_field_def CHECK_def split: prod.splits sum.splits)
  have read: "read_one c = (Inr (), e)" using append e by (simp add: read_one_def CHECK_def)
  have fr: "field_read ?k (appended c) e"
    using read_field_wp [OF inv] e a(6) by (simp add: wp_def)
  then have i: "ctx_inv {} e" and more: "nf e = ?k + 1 \<or> may_add_fields (data_type (slot e ?k))"
    and le: "?k + 1 \<le> nf e" and same: "\<And>j. j < ?k \<Longrightarrow> slot e j = slot (appended c) j"
    using a(6) by (auto simp: field_read_def frame_def)
  have ok: "nf e \<le> length (res_fields (result e))" "nf c \<le> length (res_fields (result c))"
    using i assms(1) by (simp_all add: ctx_inv_def ctx_ok_def)
  let ?fs = "drop ?k (used_fields (result e))"
  have len: "length (used_fields (result e)) = nf e" "length (used_fields (result c)) = ?k"
    using ok by (simp_all add: used_fields_def)
  then have ne: "?fs \<noteq> []" using le by simp
  have hd: "hd ?fs = slot e ?k"
    using le len ok by (simp add: hd_drop_conv_nth used_fields_def)
  have front: "take ?k (used_fields (result e)) = used_fields (result c)"
  proof (rule nth_equalityI)
    fix j assume "j < length (take ?k (used_fields (result e)))"
    then have j: "j < ?k" by simp
    then have "slot e j = slot c j" using same a(2) [of ?k] by (simp add: frame_def)
    with j le show "take ?k (used_fields (result e)) ! j = used_fields (result c) ! j"
      by (simp add: used_fields_def)
  qed (use len le in simp)
  have "used_fields (result d) = used_fields (result c) @ (if is_field_hidden (hd ?fs) then [] else ?fs)"
  proof (cases "is_field_hidden (slot e ?k)")
    case True
    then have "remove_last_field ?k e = (Inr (), d)"
      using rest ok le by (simp add: CHECK_def get_field_def)
    moreover have "nf e = ?k + 1" using more hidden_adds_nothing [OF True] by simp
    ultimately have "used_fields (result d) = take ?k (used_fields (result e))"
      using removed_used_fields i by blast
    with True hd front show ?thesis by simp
  next
    case False
    then have "d = e" using rest ok le by (simp add: CHECK_def get_field_def return_def)
    with False hd front show ?thesis by (metis append_take_drop_id)
  qed
  with that [OF read refl ne] show ?thesis unfolding hidden_iff_never_shown by blast
qed

section \<open>The whole transaction\<close>

definition kept :: "field_t list list \<Rightarrow> field_t list" where
  "kept fss = concat (filter (\<lambda>fs. \<not> never_shown (hd fs)) fss)"

lemma loop_reads:
  "parse_loop c = Some (Inr (), c') \<Longrightarrow> ctx_inv {} c \<Longrightarrow>
   \<exists>fss. reads c fss c' \<and> [] \<notin> set fss \<and> used_fields (result c') = used_fields (result c) @ kept fss"
proof (induction "unat (ctx_length c) - pos c" arbitrary: c rule: less_induct)
  case less
  show ?case
  proof (cases "offset c = ctx_length c")
    case True
    then have "c' = c" using less.prems(1) by (subst (asm) parse_loop.simps) simp
    then show ?thesis by (intro exI [of _ "[]"]) (simp add: reads_end kept_def)
  next
    case False
    with less.prems(1) obtain d where d: "parse_one_field c = (Inr (), d)" "parse_loop d = Some (Inr (), c')"
      by (subst (asm) parse_loop.simps) (auto split: if_splits prod.splits sum.splits)
    then have "turn c d" using parse_one_field_wp [OF less.prems(2)] by (simp add: wp_def)
    then have i: "ctx_inv {} d" and "unat (ctx_length d) - pos d < unat (ctx_length c) - pos c"
      by (auto simp: turn_def ctx_inv_def ctx_ok_def)
    from less.hyps [OF this(2) d(2) i] obtain fss where fss: "reads d fss c'" "[] \<notin> set fss"
      "used_fields (result c') = used_fields (result d) @ kept fss" by blast
    obtain e fs where e: "read_one c = (Inr (), e)" "fs = drop (nf c) (used_fields (result e))" "fs \<noteq> []"
      "used_fields (result d) = used_fields (result c) @ (if never_shown (hd fs) then [] else fs)"
      by (rule turn_reads [OF less.prems(2) d(1)])
    have "reads c (fs # fss) c'" unfolding e(2) by (rule reads_turn [OF e(1) d(1) fss(1)])
    with fss e show ?thesis by (intro exI [of _ "fs # fss"]) (simp add: kept_def)
  qed
qed

text \<open>A SetRegularKey without a RegularKey removes the key; the review shows that as an empty one.\<close>

definition lacks_regular_key :: "u16 \<Rightarrow> field_t list \<Rightarrow> bool" where
  "lacks_regular_key tx fs \<longleftrightarrow> tx = TRANSACTION_SET_REGULAR_KEY \<and>
     (\<forall>f \<in> set fs. \<not> (data_type f = STI_ACCOUNT \<and> fld_id f = XRP_ACCOUNT_REGULAR_KEY))"

definition no_regular_key :: "parseContext_t \<Rightarrow> field_t list" where
  "no_regular_key c =
     (if lacks_regular_key (transaction_type c) (used_fields (result c))
      then [(new_field_at c)\<lparr>data_type := STI_ACCOUNT, fld_id := XRP_ACCOUNT_REGULAR_KEY, fdata := DZero\<rparr>]
      else [])"

lemma post_process_fields:
  assumes "ctx_ok c"
  shows "wp post_process_transaction (\<lambda>_ d. used_fields (result d) = used_fields (result c) @ no_regular_key c \<and>
     transaction_type d = transaction_type c \<and> ctx_ok d) (\<lambda>_ _. True) c"
proof -
  have lacks: "lacks_regular_key (transaction_type c) (used_fields (result c)) \<longleftrightarrow>
      transaction_type c = TRANSACTION_SET_REGULAR_KEY \<and> \<not> has_field c STI_ACCOUNT 8 False"
    by (auto simp: lacks_regular_key_def has_field_def list_ex_iff)
  have room: "nf c < length (res_fields (result c))" if "nf c < MAX_FIELD_COUNT"
    using that assms by (simp add: ctx_ok_def)
  let ?g = "\<lambda>f :: field_t. f\<lparr>data_type := STI_ACCOUNT, fld_id := XRP_ACCOUNT_REGULAR_KEY, fdata := DZero\<rparr>"
  have "wp append_new_field (\<lambda>n. wp (upd_field n ?g)
      (\<lambda>_ d. used_fields (result d) = used_fields (result c) @ [?g (new_field_at c)] \<and>
         transaction_type d = transaction_type c \<and> ctx_ok d) (\<lambda>_ _. True)) (\<lambda>_ _. True) c"
  proof (rule append_new_field_wp [OF assms])
    fix d assume d: "d = appended c" "nf c < MAX_FIELD_COUNT" "ctx_ok d" "nf d = nf c + 1"
    show "wp (upd_field (nf c) ?g) (\<lambda>_ d. used_fields (result d) = used_fields (result c) @ [?g (new_field_at c)] \<and>
         transaction_type d = transaction_type c \<and> ctx_ok d) (\<lambda>_ _. True) d"
      by (rule upd_field_wp [OF d(3)])
        (use d room nf_appended [OF assms d(2)] in
         \<open>auto simp: appended_def used_fields_def take_Suc_conv_app_nth\<close>)
  qed simp
  then show ?thesis
    using assms unfolding post_process_transaction_def no_regular_key_def lacks
    by (auto simp: wp_rules)
qed

lemma finish_fields:
  assumes "finish_parse c = (Inr (), d)" and "ctx_inv {} c"
  shows "mset (used_fields (result d)) = mset (used_fields (result c)) + mset (no_regular_key c)"
    and "transaction_type d = transaction_type c"
proof -
  obtain e where e: "post_process_transaction c = (Inr (), e)"
    and rest: "CHECK sort_result (\<lambda>_. final_checks) e = (Inr (), d)"
    using assms(1) by (auto simp: finish_parse_def CHECK_def gets_def throw_def split: prod.splits sum.splits if_splits)
  have f: "used_fields (result e) = used_fields (result c) @ no_regular_key c" "transaction_type e = transaction_type c"
    using post_process_fields [OF inv_ctx_ok [OF assms(2)]] e by (simp_all add: wp_def)
  have inv: "ctx_inv {} e"
    using post_process_transaction_wp [OF assms(2), of "\<lambda>_. ctx_inv {}"] e by (simp add: wp_def)
  obtain r where r: "sort_fields (result e) = Some r" "final_checks (e\<lparr>result := r\<rparr>) = (Inr (), d)"
    using rest by (auto simp: CHECK_def sort_result_def split: option.splits)
  have "wp final_checks (\<lambda>_ d. d = e\<lparr>result := r\<rparr>) (\<lambda>_ _. True) (e\<lparr>result := r\<rparr>)"
    by (simp add: final_checks_def wp_rules split: option.split prod.split)
  with r(2) have "d = e\<lparr>result := r\<rparr>" by (simp add: wp_def)
  with f ctx_inv_sorted(2) [OF inv r(1)] show
    "mset (used_fields (result d)) = mset (used_fields (result c)) + mset (no_regular_key c)"
    "transaction_type d = transaction_type c" by simp_all
qed

text \<open>
  C13. What clear signing implies. When \<open>parse_tx\<close> returns success, all bytes were read, the
  transaction type is a supported one, there is a TransactionType and an Account outside arrays, every
  field of the review has a name, at most one top-level Flags field is shown and it passes
  \<open>has_unknown_flags\<close> (only known bits, for the types with a flag table), and the
  fields are sorted for the review. And nothing else is left out: the fields of the review are
  exactly the fields read from the first byte to the last but those of the kinds in
  \<open>never_shown\<close>, with one empty regular key when a SetRegularKey has none.
\<close>

theorem parse_tx_clear_signable:
  assumes "unat len \<le> length bytes" and "unat len \<le> MAX_LEN"
    and "parse_tx (init_context bytes len) = Some (Inr (), d)"
  shows "clear_signable d \<and>
     (\<exists>fss c. reads ((init_context bytes len)\<lparr>transaction_type := TRANSACTION_INVALID\<rparr>) fss c \<and>
        offset c = len \<and> [] \<notin> set fss \<and>
        (if lacks_regular_key (transaction_type d) (kept fss)
         then \<exists>k. data_type k = STI_ACCOUNT \<and> fld_id k = XRP_ACCOUNT_REGULAR_KEY \<and> fdata k = DZero \<and>
           mset (used_fields (result d)) = add_mset k (mset (kept fss))
         else mset (used_fields (result d)) = mset (kept fss)))"
proof -
  let ?c = "(init_context bytes len)\<lparr>transaction_type := TRANSACTION_INVALID\<rparr>"
  have start: "(init_context bytes len)\<lparr>transaction_type := TRANSACTION_INVALID, has_empty_pub_key := False,
      ctx_object_depth := 0\<rparr> = ?c" and none: "used_fields (result ?c) = []"
    by (simp_all add: init_context_def zero_result_def used_fields_def)
  have inv: "ctx_inv {} ?c" using init_context_inv [OF assms(1,2)] by (rule inv_ctx_upd)
  obtain r c where l: "parse_loop ?c = Some (r, c)" "ends_well ?c r c" using parse_loop_ends [OF inv] by blast
  with assms(3) have r: "r = Inr ()" and fin: "finish_parse c = (Inr (), d)"
    by (auto simp: parse_tx_def parse_tx_internal_def start split: sum.splits)
  with l have c: "ctx_inv {} c" "offset c = len" by (auto simp: ends_well_def init_context_def)
  obtain fss where fss: "reads ?c fss c" "[] \<notin> set fss" "used_fields (result c) = kept fss"
    using loop_reads [OF _ inv] l(1) r none by auto
  note f = finish_fields [OF fin c(1), unfolded fss(3)]
  have "clear_signable d" using parse_tx_ends [OF init_context_inv [OF assms(1,2)]] assms(3) by auto
  moreover have "if lacks_regular_key (transaction_type d) (kept fss)
      then \<exists>k. data_type k = STI_ACCOUNT \<and> fld_id k = XRP_ACCOUNT_REGULAR_KEY \<and> fdata k = DZero \<and>
        mset (used_fields (result d)) = add_mset k (mset (kept fss))
      else mset (used_fields (result d)) = mset (kept fss)"
    using f by (auto simp: no_regular_key_def fss(3))
  ultimately show ?thesis using fss c(2) by blast
qed

theorem parse_tx_clear_signable_witness:
  "\<exists>d fss c. parse_tx (init_context payment_example 110) = Some (Inr (), d) \<and> clear_signable d \<and>
     reads ((init_context payment_example 110)\<lparr>transaction_type := TRANSACTION_INVALID\<rparr>) fss c \<and>
     offset c = 110 \<and> mset (used_fields (result d)) = mset (kept fss) \<and> length (kept fss) = 5"
proof -
  have "case parse_tx (init_context payment_example 110) of
      Some (Inr _, d) \<Rightarrow> transaction_type d = TRANSACTION_PAYMENT \<and> length (used_fields (result d)) = 5
    | _ \<Rightarrow> False" by code_simp
  from parsed_resultE [OF this] obtain d where d: "parse_tx (init_context payment_example 110) = Some (Inr (), d)"
    "transaction_type d = TRANSACTION_PAYMENT" "length (used_fields (result d)) = 5" by blast
  have "unat (110 :: u32) \<le> length payment_example" "unat (110 :: u32) \<le> MAX_LEN"
    by (simp_all add: payment_example_def MAX_LEN_def)
  note parse_tx_clear_signable [OF this d(1)]
  moreover have "\<not> lacks_regular_key (transaction_type d) fs" for fs by (simp add: d(2) lacks_regular_key_def)
  ultimately show ?thesis using d(1,3) by (metis size_mset)
qed

end
