(* ===== verification/Decimal.thy ===== *)
theory Decimal
  imports Complex_Main Readers
begin

text \<open>
  Decimal text: the digit loop \<open>amount.c\<close> and \<open>xrp_helpers.c\<close> share, and the specification
  of the formatters that print numbers, a reader of decimal text that refuses everything that
  is not an optional minus sign, digits and an optional fraction.
\<close>

section \<open>The digit loop\<close>

text \<open>
  \<open>write_digits k value base i buf\<close>: the \<open>k\<close> turns left of the loop that writes the digits of
  \<open>value\<close> from index \<open>i\<close> on, \<open>base\<close> being the power of ten of the next digit. A division by
  zero has no meaning.
\<close>

fun write_digits :: "nat \<Rightarrow> u64 \<Rightarrow> u64 \<Rightarrow> nat \<Rightarrow> string \<Rightarrow> string option" where
  "write_digits 0 value base i buf = Some buf"
| "write_digits (Suc k) value base i buf =
     (if base = 0 then None
      else Option.bind (poke buf i [int_to_number_char (value div base mod 10)])
             (write_digits k value (base div 10) (i + 1)))"

text \<open>The \<open>k\<close> last decimal digits of \<open>n\<close>, with leading zeros (specification).\<close>

fun dec_digits :: "nat \<Rightarrow> nat \<Rightarrow> string" where
  "dec_digits 0 n = []"
| "dec_digits (Suc k) n = digit_char (n div 10 ^ k mod 10) # dec_digits k n"

lemma length_dec_digits [simp]: "length (dec_digits k n) = k"
  by (induction k) auto

lemma set_dec_digits: "c \<in> set (dec_digits k n) \<Longrightarrow> is_digit c"
  by (induction k) auto

lemma digits_dec_digits [simp]: "list_all is_digit (dec_digits k n)"
  using set_dec_digits by (auto simp: list_all_iff)

lemma NUL_notin_dec_digits [simp]: "NUL \<notin> set (dec_digits k n)"
  using set_dec_digits NUL_not_digit by blast

lemma dec_val_dec_digits: "dec_val (dec_digits k n) = n mod 10 ^ k"
proof (induction k)
  case (Suc k)
  have "n mod 10 ^ Suc k = 10 ^ k * (n div 10 ^ k mod 10) + n mod 10 ^ k"
    by (simp only: power_Suc mult.commute [of 10] mod_mult2_eq)
  with Suc show ?case by simp
qed simp

lemma int_to_number_digit:
  "int_to_number_char (v mod 10) = digit_char (unat v mod 10)"
proof -
  have u: "unat (v mod 10) = unat v mod 10" by (simp add: unat_mod)
  then have "\<not> v mod 10 > 9" by (simp add: word_less_nat_alt)
  then show ?thesis by (simp add: int_to_number_char_def digit_char_def u)
qed

lemma unat_pow10:
  "k < 20 \<Longrightarrow> unat (10 ^ k :: u64) = 10 ^ k"
proof -
  assume "k < 20"
  then have "(10::nat) ^ k \<le> 10 ^ 19" by (intro power_increasing) simp_all
  then have "(10::nat) ^ k < 2 ^ LENGTH(64)" by simp
  from unat_of_nat_eq [OF this] show ?thesis by simp
qed

lemma pow10_div: "k < 19 \<Longrightarrow> (10 ^ Suc k :: u64) div 10 = 10 ^ k"
proof (rule unat_eqI)
  assume "k < 19"
  then show "unat ((10 ^ Suc k :: u64) div 10) = unat (10 ^ k :: u64)"
    by (simp del: power_Suc add: unat_div unat_pow10) simp
qed

lemma write_digits_spec:
  assumes "k < 20" and "i + Suc k \<le> length buf"
  shows "write_digits (Suc k) value (10 ^ k) i buf =
     Some (take i buf @ dec_digits (Suc k) (unat value) @ drop (i + Suc k) buf)"
  using assms
proof (induction k arbitrary: i buf)
  case 0
  then show ?case by (simp add: poke_def int_to_number_digit)
next
  case (Suc k)
  let ?d = "digit_char (unat value div 10 ^ Suc k mod 10)"
  let ?buf = "take i buf @ ?d # drop (Suc i) buf"
  have nz: "(10 ^ Suc k :: u64) \<noteq> 0"
    using Suc.prems(1) unat_pow10 [of "Suc k"] by (metis power_eq_0_iff unat_0 zero_neq_numeral)
  have d: "int_to_number_char (value div 10 ^ Suc k mod 10) = ?d"
    using Suc.prems(1) by (simp only: int_to_number_digit unat_div unat_pow10)
  have p: "poke buf i [?d] = Some ?buf" using Suc.prems by (simp add: poke_def)
  have "write_digits (Suc (Suc k)) value (10 ^ Suc k) i buf =
      write_digits (Suc k) value (10 ^ k) (i + 1) ?buf"
    using Suc.prems nz pow10_div [of k] d p by (simp del: power_Suc write_digits.simps add: write_digits.simps(2) [of "Suc k"])
  also have "\<dots> = Some (take (i + 1) ?buf @ dec_digits (Suc k) (unat value) @ drop (i + 1 + Suc k) ?buf)"
    using Suc.prems by (intro Suc.IH) simp_all
  finally show ?case using Suc.prems by (simp add: add.commute [of i])
qed

text \<open>How many digits a number has, none for zero (specification).\<close>

fun num_digits :: "nat \<Rightarrow> nat" where
  "num_digits n = (if n = 0 then 0 else Suc (num_digits (n div 10)))"

declare num_digits.simps [simp del]

lemma num_digits_0 [simp]: "num_digits 0 = 0"
  by (simp add: num_digits.simps)

lemma num_digits_eq_0 [simp]: "num_digits n = 0 \<longleftrightarrow> n = 0"
  by (simp add: num_digits.simps [of n])

lemma num_digits_le_iff: "num_digits n \<le> k \<longleftrightarrow> n < 10 ^ k"
proof (induction n arbitrary: k rule: num_digits.induct)
  case (1 n)
  show ?case
  proof (cases "n = 0 \<or> k = 0")
    case True
    then show ?thesis by (auto simp: Suc_le_eq)
  next
    case False
    then obtain j where k: "k = Suc j" by (cases k) auto
    from False k 1 [of j] show ?thesis
      by (simp add: num_digits.simps [of n] div_less_iff_less_mult mult.commute)
  qed
qed

lemma less_pow_num_digits: "n < 10 ^ num_digits n"
  by (simp flip: num_digits_le_iff)

lemma dec_val_num_digits [simp]: "dec_val (dec_digits (num_digits n) n) = n"
  by (simp add: dec_val_dec_digits less_pow_num_digits)

lemma dec_digits_head:
  assumes "0 < n"
  shows "hd (dec_digits (num_digits n) n) \<noteq> CHR ''0''"
proof -
  from assms obtain k where k: "num_digits n = Suc k" by (cases "num_digits n") auto
  have "10 ^ k \<le> n" using k num_digits_le_iff [of n k] by simp
  moreover have "n < 10 ^ Suc k" using less_pow_num_digits [of n] k by simp
  ultimately have "0 < n div 10 ^ k" "n div 10 ^ k < 10"
    by (simp_all add: div_greater_zero_iff div_less_iff_less_mult)
  moreover from this have "digit_char (n div 10 ^ k) \<noteq> CHR ''0''"
    using digit_val_char [of "n div 10 ^ k"] by (auto simp: digit_val_def)
  ultimately show ?thesis using k by simp
qed

lemma base_le_iff:
  "k < 20 \<Longrightarrow> (10 ^ k :: u64) \<le> v \<longleftrightarrow> k < num_digits (unat v)"
  using num_digits_le_iff [of "unat v" k] by (simp add: word_le_nat_alt unat_pow10 not_le [symmetric])

section \<open>Reading decimal text\<close>

definition read_unsigned_decimal :: "string \<Rightarrow> rat option" where
  "read_unsigned_decimal s =
     (let whole = takeWhile is_digit s; rest = dropWhile is_digit s in
      if whole = [] then None
      else case rest of
        [] \<Rightarrow> Some (of_nat (dec_val whole))
      | c # fraction \<Rightarrow>
          if c = CHR ''.'' \<and> fraction \<noteq> [] \<and> list_all is_digit fraction
          then Some (of_nat (dec_val whole) + of_nat (dec_val fraction) / 10 ^ length fraction)
          else None)"

definition read_decimal :: "string \<Rightarrow> rat option" where
  "read_decimal s =
     (case s of
        [] \<Rightarrow> None
      | c # t \<Rightarrow> if c = CHR ''-'' then map_option uminus (read_unsigned_decimal t)
                 else read_unsigned_decimal s)"

lemma not_digit_point [simp]: "\<not> is_digit CHR ''.''"
  by (simp add: is_digit_def)

lemma not_digit_minus [simp]: "\<not> is_digit CHR ''-''"
  by (simp add: is_digit_def)

lemma is_digit_zero [simp]: "is_digit CHR ''0''"
  by (simp add: is_digit_def)

lemma NUL_notin_digits: "list_all is_digit s \<Longrightarrow> NUL \<notin> set s"
  by (auto simp: list_all_iff)

lemma takeWhile_digits [simp]: "list_all is_digit s \<Longrightarrow> takeWhile is_digit s = s"
  by (induction s) auto

lemma dropWhile_digits [simp]: "list_all is_digit s \<Longrightarrow> dropWhile is_digit s = []"
  by (induction s) auto

lemma takeWhile_point [simp]:
  "list_all is_digit s \<Longrightarrow> takeWhile is_digit (s @ CHR ''.'' # t) = s"
  by (induction s) auto

lemma dropWhile_point [simp]:
  "list_all is_digit s \<Longrightarrow> dropWhile is_digit (s @ CHR ''.'' # t) = CHR ''.'' # t"
  by (induction s) auto

lemma read_whole:
  "list_all is_digit s \<Longrightarrow> s \<noteq> [] \<Longrightarrow> read_unsigned_decimal s = Some (of_nat (dec_val s))"
  by (simp add: read_unsigned_decimal_def)

lemma read_point:
  "list_all is_digit s \<Longrightarrow> s \<noteq> [] \<Longrightarrow> list_all is_digit t \<Longrightarrow> t \<noteq> [] \<Longrightarrow>
   read_unsigned_decimal (s @ CHR ''.'' # t) =
     Some (of_nat (dec_val s) + of_nat (dec_val t) / 10 ^ length t)"
  by (simp add: read_unsigned_decimal_def)

lemma read_decimal_unsigned:
  "list_all is_digit s \<Longrightarrow> s \<noteq> [] \<Longrightarrow> read_decimal (s @ t) = read_unsigned_decimal (s @ t)"
  by (cases s) (auto simp: read_decimal_def)

lemma read_decimal_minus:
  "read_decimal (CHR ''-'' # t) = map_option uminus (read_unsigned_decimal t)"
  by (simp add: read_decimal_def)

section \<open>Dropping the zeros at the end of a fraction\<close>

definition strip_zeros :: "string \<Rightarrow> string" where
  "strip_zeros s = rev (dropWhile (\<lambda>c. c = CHR ''0'') (rev s))"

text \<open>The text of a number with whole part and fraction, as short as it gets.\<close>

definition trim_text :: "string \<Rightarrow> string \<Rightarrow> string" where
  "trim_text whole fraction =
     (if strip_zeros fraction = [] then whole else whole @ CHR ''.'' # strip_zeros fraction)"

lemma strip_zeros_split:
  "s = strip_zeros s @ replicate (length s - length (strip_zeros s)) CHR ''0''"
proof -
  let ?d = "dropWhile (\<lambda>c. c = CHR ''0'') (rev s)"
  let ?t = "takeWhile (\<lambda>c. c = CHR ''0'') (rev s)"
  have s: "s = strip_zeros s @ rev ?t"
    using takeWhile_dropWhile_id [of "\<lambda>c. c = CHR ''0''" "rev s"]
    unfolding strip_zeros_def by (simp flip: rev_append)
  then have "length s = length (strip_zeros s) + length ?t"
    by (metis length_append length_rev)
  moreover have "replicate (length (rev ?t)) CHR ''0'' = rev ?t"
    by (rule replicate_length_same) (auto dest: set_takeWhileD)
  ultimately show ?thesis using s by simp
qed

lemma length_strip_zeros: "length (strip_zeros s) \<le> length s"
  using length_dropWhile_le [of "\<lambda>c. c = CHR ''0''" "rev s"] by (simp add: strip_zeros_def)

lemma set_strip_zeros: "set (strip_zeros s) \<subseteq> set s"
  by (auto simp: strip_zeros_def dest: set_dropWhileD)

lemma digits_strip_zeros [simp]: "list_all is_digit s \<Longrightarrow> list_all is_digit (strip_zeros s)"
  using set_strip_zeros by (auto simp: list_all_iff)

lemma strip_zeros_snoc [simp]:
  "strip_zeros (s @ [c]) = (if c = CHR ''0'' then strip_zeros s else s @ [c])"
  by (simp add: strip_zeros_def)

lemma strip_zeros_Nil [simp]: "strip_zeros [] = []"
  by (simp add: strip_zeros_def)

lemma dec_val_strip_zeros:
  "dec_val s = dec_val (strip_zeros s) * 10 ^ (length s - length (strip_zeros s))"
  by (subst strip_zeros_split) (simp add: dec_val_append)

lemma fraction_strip_zeros:
  "(of_nat (dec_val s) / 10 ^ length s :: rat) =
     of_nat (dec_val (strip_zeros s)) / 10 ^ length (strip_zeros s)"
proof -
  have "(10::rat) ^ length s = 10 ^ (length s - length (strip_zeros s)) * 10 ^ length (strip_zeros s)"
    using length_strip_zeros [of s] by (simp flip: power_add)
  then show ?thesis by (subst dec_val_strip_zeros) simp
qed

lemma read_trim_text:
  assumes "list_all is_digit s" and "s \<noteq> []" and "list_all is_digit t"
  shows "read_unsigned_decimal (trim_text s t) =
     Some (of_nat (dec_val s) + of_nat (dec_val t) / 10 ^ length t)"
proof (cases "strip_zeros t = []")
  case True
  then have "(of_nat (dec_val t) / 10 ^ length t :: rat) = 0"
    using fraction_strip_zeros [of t] by simp
  with True assms show ?thesis by (simp add: trim_text_def read_whole)
next
  case False
  with assms show ?thesis
    by (simp add: trim_text_def read_point fraction_strip_zeros [of t])
qed

lemma read_decimal_trim_text:
  assumes "list_all is_digit s" and "s \<noteq> []" and "list_all is_digit t"
  shows "read_decimal (trim_text s t) =
     Some (of_nat (dec_val s) + of_nat (dec_val t) / 10 ^ length t)"
  using read_trim_text [OF assms] read_decimal_unsigned [of s "[]"] read_decimal_unsigned [OF assms(1,2)] assms
  by (auto simp: trim_text_def)

lemma trim_text_prefix: "\<exists>z. s @ CHR ''.'' # t = trim_text s t @ z"
proof (cases "strip_zeros t = []")
  case False
  have "s @ CHR ''.'' # t = trim_text s t @ replicate (length t - length (strip_zeros t)) CHR ''0''"
    using False strip_zeros_split [of t] by (simp add: trim_text_def)
  then show ?thesis by blast
qed (simp add: trim_text_def)

lemma length_trim_text: "length (trim_text s t) \<le> length s + 1 + length t"
  using length_strip_zeros [of t] by (simp add: trim_text_def)

lemma NUL_notin_trim_text [simp]:
  "NUL \<notin> set s \<Longrightarrow> NUL \<notin> set t \<Longrightarrow> NUL \<notin> set (trim_text s t)"
  using set_strip_zeros by (auto simp: trim_text_def)

end
