(* ===== verification/Percentage.thy ===== *)
theory Percentage
  imports Decimal
begin

text \<open>
  \<open>src/src/xrp/percentage.c\<close>: transfer rates and qualities, shown as percentages with up to
  seven decimals.
\<close>

section \<open>The code\<close>

abbreviation (input) DENOMINATOR :: u32 where "DENOMINATOR \<equiv> 10000000"

definition is_percentage :: "field_t \<Rightarrow> bool" where
  "is_percentage field \<longleftrightarrow>
     data_type field = STI_UINT32 \<and>
     (fld_id field = XRP_UINT32_TRANSFER_RATE \<or> fld_id field = XRP_UINT32_QUALITY_IN \<or>
      fld_id field = XRP_UINT32_QUALITY_OUT)"

text \<open>The loop of \<open>remove_redundant_decimals\<close>: where it leaves \<open>end\<close>.\<close>

fun redundant_end :: "string \<Rightarrow> nat \<Rightarrow> nat" where
  "redundant_end buf 0 = 0"
| "redundant_end buf (Suc e) =
     (let c = buf ! Suc e in
      if c = CHR ''0'' \<or> c = NUL then redundant_end buf e
      else if c = CHR ''.'' then e else Suc e)"

definition remove_redundant_decimals :: "string \<Rightarrow> string option" where
  "remove_redundant_decimals dst =
     Option.bind (strlen dst) (\<lambda>n. poke dst (redundant_end dst n + 1) [NUL])"

definition format_percentage_internal :: "string \<Rightarrow> u32 \<Rightarrow> string option" where
  "format_percentage_internal dst value =
     (let decimal_part = value mod DENOMINATOR;
          integer_part = (value - decimal_part) div DENOMINATOR in
      Option.bind (snprintf dst 0 (length dst)
          (print_dec (unat integer_part) @ ''.'' @ print_dec_pad 7 (unat decimal_part))) (\<lambda>dst.
      Option.bind (remove_redundant_decimals dst) (\<lambda>dst.
      Option.bind (strlen dst) (\<lambda>total_length.
      strncpy dst total_length '' %'' (length dst - total_length)))))"

definition format_transfer_rate :: "string \<Rightarrow> u32 \<Rightarrow> string option" where
  "format_transfer_rate dst value =
     (if value = 0 then strncpy dst 0 ''0 %'' (length dst)
      else if value < 1000000000 then strncpy dst 0 ''Invalid value'' (length dst)
      else format_percentage_internal dst (value - 1000000000))"

definition format_quality :: "string \<Rightarrow> u32 \<Rightarrow> string option" where
  "format_quality dst value =
     (if value = 0 then strncpy dst 0 ''100 %'' (length dst)
      else format_percentage_internal dst value)"

definition format_percentage :: "field_t \<Rightarrow> string \<Rightarrow> string option" where
  "format_percentage field dst =
     Option.bind (data_u32 (fdata field)) (\<lambda>value.
       if fld_id field = XRP_UINT32_TRANSFER_RATE then format_transfer_rate dst value
       else format_quality dst value)"

section \<open>What it shows\<close>

lemma redundant_end_spec:
  assumes "0 < W" and "buf ! W = CHR ''.''" and "list_all is_digit s"
    and "\<forall>i < length s. buf ! (W + 1 + i) = s ! i"
  shows "redundant_end buf (W + length s) =
     (if strip_zeros s = [] then W - 1 else W + length (strip_zeros s))"
  using assms(3,4)
proof (induction s rule: rev_induct)
  case Nil
  from assms(1,2) show ?case by (cases W) simp_all
next
  case (snoc c s)
  have "list_all is_digit s" "\<forall>i < length s. buf ! (W + 1 + i) = s ! i"
    using snoc.prems by (auto simp: nth_append dest: spec [of _ i for i])
  then have IH: "redundant_end buf (W + length s) =
     (if strip_zeros s = [] then W - 1 else W + length (strip_zeros s))" by (rule snoc.IH)
  have "buf ! Suc (W + length s) = c" using snoc.prems(2) by (auto simp: nth_append dest: spec [of _ "length s"])
  moreover have "is_digit c" using snoc.prems(1) by simp
  then have "c \<noteq> CHR ''.''" "c \<noteq> NUL" by auto
  ultimately show ?case using IH by (simp add: Let_def)
qed

lemma print_dec_pad_digits: "list_all is_digit (print_dec_pad w n)"
  using print_dec_digits by (auto simp: print_dec_pad_def list_all_iff)

lemma dec_val_print_dec_pad [simp]: "dec_val (print_dec_pad w n) = n"
  by (simp add: print_dec_pad_def dec_val_append)

lemma length_print_dec_pad: "0 < w \<Longrightarrow> n < 10 ^ w \<Longrightarrow> length (print_dec_pad w n) = w"
  using length_print_dec [of n w] by (simp add: print_dec_pad_def)

text \<open>The text of a number of ten-millionths (specification).\<close>

definition percent_text :: "nat \<Rightarrow> string" where
  "percent_text v = trim_text (print_dec (v div 10 ^ 7)) (print_dec_pad 7 (v mod 10 ^ 7)) @ '' %''"

lemma read_percent_text:
  "\<exists>t. percent_text v = t @ '' %'' \<and> read_decimal t = Some (of_nat v / 10 ^ 7)"
proof -
  let ?i = "print_dec (v div 10 ^ 7)" and ?d = "print_dec_pad 7 (v mod 10 ^ 7)"
  have "length ?d = 7" by (simp add: length_print_dec_pad)
  moreover have "list_all is_digit ?i" using print_dec_digits by (auto simp: list_all_iff)
  ultimately have "read_decimal (trim_text ?i ?d) = Some (of_nat (v div 10 ^ 7) + of_nat (v mod 10 ^ 7) / 10 ^ 7)"
    using read_decimal_trim_text [of ?i ?d] by (simp add: print_dec_pad_digits)
  also have "of_nat (v div 10 ^ 7) + of_nat (v mod 10 ^ 7) / 10 ^ 7 =
      (of_nat (v div 10 ^ 7 * 10 ^ 7 + v mod 10 ^ 7) / 10 ^ 7 :: rat)"
    by (simp only: of_nat_add of_nat_mult add_divide_distrib) simp
  also have "v div 10 ^ 7 * 10 ^ 7 + v mod 10 ^ 7 = v" by (rule div_mult_mod_eq)
  finally show ?thesis by (auto simp: percent_text_def)
qed

lemma format_percentage_internal_spec:
  assumes "24 \<le> n"
  shows "format_percentage_internal (replicate n NUL) value = Some (padded n (percent_text (unat value)))"
proof -
  let ?v = "unat value"
  define w where "w = print_dec (?v div 10 ^ 7)"
  define f where "f = print_dec_pad 7 (?v mod 10 ^ 7)"
  let ?s = "w @ CHR ''.'' # f"
  let ?t = "trim_text w f"
  have m: "unat (value mod DENOMINATOR) = ?v mod 10 ^ 7" by (simp add: unat_mod)
  have i: "unat ((value - value mod DENOMINATOR) div DENOMINATOR) = ?v div 10 ^ 7"
  proof -
    have "unat (value - value mod DENOMINATOR) = ?v - ?v mod 10 ^ 7"
      using m by (simp add: unat_sub word_le_nat_alt)
    also have "\<dots> = ?v div 10 ^ 7 * 10 ^ 7" by (simp add: minus_mod_eq_div_mult)
    finally show ?thesis by (simp add: unat_div)
  qed
  have lf: "length f = 7" by (simp add: f_def length_print_dec_pad)
  have "?v div 10 ^ 7 \<le> ?v" "?v < 4294967296" by (rule div_le_dividend, rule unat_u32_less)
  then have "?v div 10 ^ 7 < 10000000000" by linarith
  then have "?v div 10 ^ 7 < 10 ^ 10" by simp
  then have lw: "length w \<le> 10" unfolding w_def by (rule length_print_dec) simp
  have w0: "0 < length w" by (simp add: w_def)
  have dw: "list_all is_digit w" unfolding w_def using print_dec_digits by (auto simp: list_all_iff)
  have df: "list_all is_digit f" unfolding f_def by (rule print_dec_pad_digits)
  have nn: "NUL \<notin> set w" "NUL \<notin> set f" using dw df by (auto simp: list_all_iff)
  have p1: "snprintf (replicate n NUL) 0 n ?s = Some (padded n ?s)"
    using snprintf_padded [of "[]" ?s n] lf lw assms by (simp add: padded_def)
  have len: "strlen (padded n ?s) = Some (length w + 1 + 7)"
    using nn lf lw assms by simp
  have e: "redundant_end (padded n ?s) (length w + 1 + 7) + 1 = length ?t"
  proof -
    have "padded n ?s ! Suc (length w + 7) = NUL"
      using lf lw assms by (simp add: padded_def nth_append)
    then have "redundant_end (padded n ?s) (length w + 1 + 7) = redundant_end (padded n ?s) (length w + length f)"
      by (simp add: lf numeral_eq_Suc)
    also have "\<dots> = (if strip_zeros f = [] then length w - 1 else length w + length (strip_zeros f))"
      using w0 df by (intro redundant_end_spec) (auto simp: padded_def nth_append)
    finally show ?thesis using w0 by (simp add: trim_text_def)
  qed
  obtain z where z: "?s = ?t @ z"
    using trim_text_prefix by blast
  have lt: "length ?t \<le> 18" using arg_cong [OF z, of length] lf lw by simp
  define buf where "buf = take (length ?t) (padded n ?s) @ NUL # drop (length ?t + 1) (padded n ?s)"
  have ls: "length (padded n ?s) = n" using lf lw assms by simp
  have p2: "poke (padded n ?s) (length ?t) [NUL] = Some buf"
    using lt ls assms by (simp add: poke_def buf_def)
  have rm: "remove_redundant_decimals (padded n ?s) = Some buf"
    by (simp only: remove_redundant_decimals_def len e p2 Option.bind.bind_lunit)
  have b: "buf = ?t @ NUL # drop (length ?t + 1) (padded n ?s)"
    unfolding buf_def by (simp add: padded_def z)
  have ct: "cstr buf = ?t" using nn by (simp add: b)
  have lb: "length buf = n" using length_poke [OF p2] ls by simp
  have "strlen buf = Some (length ?t)" using ct by (simp add: strlen_def b)
  moreover have "strncpy buf (length ?t) '' %'' (n - length ?t) = Some (padded n (?t @ '' %''))"
  proof -
    obtain r where r: "buf = ?t @ NUL # r" using b by blast
    have "n = length ?t + 1 + length r" using lb by (simp add: r)
    moreover have "4 \<le> length r" using calculation lt assms by simp
    ultimately show ?thesis by (simp add: strncpy_def poke_def r padded_def)
  qed
  ultimately show ?thesis
    unfolding format_percentage_internal_def Let_def m i
    by (simp add: w_def [symmetric] f_def [symmetric] p1 rm lb percent_text_def del: power_numeral)
qed

text \<open>The whole formatter (specification).\<close>

definition percentage_text :: "u8 \<Rightarrow> u32 \<Rightarrow> string" where
  "percentage_text i v =
     (if i = XRP_UINT32_TRANSFER_RATE
      then if v = 0 then ''0 %''
           else if unat v < 10 ^ 9 then ''Invalid value'' else percent_text (unat v - 10 ^ 9)
      else if v = 0 then ''100 %'' else percent_text (unat v))"

lemma NUL_notin_percent_text [simp]: "NUL \<notin> set (percent_text v)"
  using NUL_notin_digits print_dec_pad_digits by (auto simp: percent_text_def)

lemma length_percent_text: "v < 2 ^ 32 \<Longrightarrow> length (percent_text v) \<le> 20"
proof -
  assume "v < 2 ^ 32"
  then have "v div 10 ^ 7 < 10 ^ 10" by simp
  then have "length (print_dec (v div 10 ^ 7)) \<le> 10" by (rule length_print_dec) simp
  moreover have "length (print_dec_pad 7 (v mod 10 ^ 7)) = 7" by (simp add: length_print_dec_pad)
  ultimately show ?thesis
    using length_trim_text [of "print_dec (v div 10 ^ 7)" "print_dec_pad 7 (v mod 10 ^ 7)"]
    by (simp add: percent_text_def)
qed

lemma percentage_text_props:
  "NUL \<notin> set (percentage_text i v)" "percentage_text i v \<noteq> []" "length (percentage_text i v) \<le> 20"
proof -
  show "NUL \<notin> set (percentage_text i v)" by (simp add: percentage_text_def)
  show "percentage_text i v \<noteq> []" by (simp add: percentage_text_def percent_text_def)
  have "unat v - 10 ^ 9 < 4294967296" using unat_u32_less [of v] by linarith
  then have "unat v - 10 ^ 9 < 2 ^ 32" by simp
  from length_percent_text [OF this] length_percent_text [of "unat v"]
  show "length (percentage_text i v) \<le> 20" by (simp add: percentage_text_def)
qed

lemma format_percentage_spec:
  assumes "fdata field = DU32 v" and "24 \<le> n"
  shows "format_percentage field (replicate n NUL) = Some (padded n (percentage_text (fld_id field) v))"
proof -
  have sub: "unat (v - 1000000000) = unat v - 10 ^ 9" if "\<not> v < 1000000000"
    using that by (simp add: unat_sub not_less)
  have lt: "v < 1000000000 \<longleftrightarrow> unat v < 10 ^ 9" by (simp add: word_less_nat_alt)
  show ?thesis
    using assms sub lt format_percentage_internal_spec [OF assms(2)]
    by (simp add: format_percentage_def format_transfer_rate_def format_quality_def percentage_text_def
      strncpy_whole_fits)
qed

lemma read_percent_constants: "read_decimal ''0'' = Some 0" "read_decimal ''100'' = Some 100"
  by code_simp+

text \<open>
  C26. Percentages read back, for every 32-bit value. A transfer rate is shown as its excess over a
  billion in ten-millionths, and a quality as its value in ten-millionths; the text before the
  percent sign reads back as exactly that number. The ledger's default zero stands for no fee and is
  shown as 0 percent for a transfer rate and as 100 percent for a quality. The other transfer rates
  below a billion have no meaning and are shown as an invalid value.
\<close>

theorem percentage_reads_back:
  assumes "fdata field = DU32 v" and "24 \<le> n"
  shows "if fld_id field = XRP_UINT32_TRANSFER_RATE \<and> v \<noteq> 0 \<and> unat v < 10 ^ 9
     then format_percentage field (replicate n NUL) = Some (padded n ''Invalid value'')
     else \<exists>t. format_percentage field (replicate n NUL) = Some (padded n (t @ '' %'')) \<and>
       read_decimal t = Some
         (if fld_id field = XRP_UINT32_TRANSFER_RATE
          then if v = 0 then 0 else of_nat (unat v - 10 ^ 9) / 10 ^ 7
          else if v = 0 then 100 else of_nat (unat v) / 10 ^ 7)"
proof -
  note shows_text = format_percentage_spec [OF assms]
  consider (invalid) "fld_id field = XRP_UINT32_TRANSFER_RATE" "v \<noteq> 0" "unat v < 10 ^ 9"
    | (no_fee) "v = 0" | (rate) "fld_id field = XRP_UINT32_TRANSFER_RATE" "v \<noteq> 0" "\<not> unat v < 10 ^ 9"
    | (quality) "fld_id field \<noteq> XRP_UINT32_TRANSFER_RATE" "v \<noteq> 0" by blast
  then show ?thesis
  proof cases
    case invalid
    with shows_text show ?thesis by (simp add: percentage_text_def)
  next
    case no_fee
    let ?t = "if fld_id field = XRP_UINT32_TRANSFER_RATE then ''0'' else ''100''"
    have "percentage_text (fld_id field) v = ?t @ '' %''" using no_fee by (simp add: percentage_text_def)
    with shows_text no_fee read_percent_constants show ?thesis by (intro iffD2 [OF if_bool_eq_conj] conjI impI exI [of _ ?t]) simp_all
  next
    case rate
    with shows_text read_percent_text [of "unat v - 10 ^ 9"] show ?thesis by (auto simp: percentage_text_def)
  next
    case quality
    with shows_text read_percent_text [of "unat v"] show ?thesis by (auto simp: percentage_text_def)
  qed
qed

theorem percentage_reads_back_witness:
  "(\<exists>t. format_percentage
      (zero_field\<lparr>data_type := STI_UINT32, fld_id := XRP_UINT32_TRANSFER_RATE, fdata := DU32 1012500000\<rparr>)
      (replicate 128 NUL) = Some (padded 128 (t @ '' %'')) \<and> read_decimal t = Some (125 / 100)) \<and>
   format_percentage
      (zero_field\<lparr>data_type := STI_UINT32, fld_id := XRP_UINT32_TRANSFER_RATE, fdata := DU32 999999999\<rparr>)
      (replicate 128 NUL) = Some (padded 128 ''Invalid value'') \<and>
   (\<exists>t. format_percentage
      (zero_field\<lparr>data_type := STI_UINT32, fld_id := XRP_UINT32_QUALITY_IN, fdata := DU32 0\<rparr>)
      (replicate 128 NUL) = Some (padded 128 (t @ '' %'')) \<and> read_decimal t = Some 100)"
  using percentage_reads_back [of
      "zero_field\<lparr>data_type := STI_UINT32, fld_id := XRP_UINT32_TRANSFER_RATE, fdata := DU32 1012500000\<rparr>"
      1012500000 128]
    percentage_reads_back [of
      "zero_field\<lparr>data_type := STI_UINT32, fld_id := XRP_UINT32_TRANSFER_RATE, fdata := DU32 999999999\<rparr>"
      999999999 128]
    percentage_reads_back [of
      "zero_field\<lparr>data_type := STI_UINT32, fld_id := XRP_UINT32_QUALITY_IN, fdata := DU32 0\<rparr>" 0 128]
  by simp

end
