(* ===== verification/Time_Format.thy ===== *)
theory Time_Format
  imports Field_Types C_Strings "HOL-Library.Signed_Division"
begin

text \<open>
  \<open>src/src/xrp/time.c\<close>: times are counted in seconds from 2000-01-01 and shown as a date and
  time of day. The code's \<open>long long\<close> and \<open>int\<close> are \<open>int\<close> here, with the division and remainder
  of C (\<open>sdiv\<close>, \<open>smod\<close>); no value of it leaves its type for a 32-bit time.
\<close>

section \<open>The code\<close>

abbreviation (input) RIPPLE_EPOCH_OFFSET :: int where "RIPPLE_EPOCH_OFFSET \<equiv> 946684800"
abbreviation (input) LEAPOCH :: int where "LEAPOCH \<equiv> 946684800 + 86400 * (31 + 29)"
abbreviation (input) FINAL_EPOCH_OFFSET :: int where
  "FINAL_EPOCH_OFFSET \<equiv> RIPPLE_EPOCH_OFFSET - LEAPOCH"
abbreviation (input) DAYS_PER_400Y :: int where "DAYS_PER_400Y \<equiv> 365 * 400 + 97"
abbreviation (input) DAYS_PER_100Y :: int where "DAYS_PER_100Y \<equiv> 365 * 100 + 24"
abbreviation (input) DAYS_PER_4Y :: int where "DAYS_PER_4Y \<equiv> 365 * 4 + 1"
abbreviation (input) INT_MIN :: int where "INT_MIN \<equiv> - (2 ^ 31)"
abbreviation (input) INT_MAX :: int where "INT_MAX \<equiv> 2 ^ 31 - 1"

record tm_mini_t =
  tm_sec :: int
  tm_min :: int
  tm_hour :: int
  tm_mday :: int
  tm_mon :: int
  tm_year :: int

definition is_time :: "field_t \<Rightarrow> bool" where
  "is_time field \<longleftrightarrow>
     data_type field = STI_UINT32 \<and>
     (fld_id field = XRP_UINT32_EXPIRATION \<or> fld_id field = XRP_UINT32_CANCEL_AFTER \<or>
      fld_id field = XRP_UINT32_FINISH_AFTER)"

definition is_time_delta :: "field_t \<Rightarrow> bool" where
  "is_time_delta field \<longleftrightarrow> data_type field = STI_UINT32 \<and> fld_id field = XRP_UINT32_SETTLE_DELAY"

definition days_in_month :: "int list" where
  "days_in_month = [31, 30, 31, 30, 31, 31, 30, 31, 30, 31, 31, 29]"

text \<open>The loop over the months from March on; \<open>None\<close> if it reads beyond the table.\<close>

fun month_loop :: "int list \<Rightarrow> int \<Rightarrow> int \<Rightarrow> (int \<times> int) option" where
  "month_loop [] months remdays = None"
| "month_loop (d # ds) months remdays =
     (if d \<le> remdays then month_loop ds (months + 1) (remdays - d) else Some (months, remdays))"

text \<open>\<open>None\<close> where the code returns \<open>-1\<close> and leaves \<open>tm\<close> alone.\<close>

definition ripple_epoch_to_tm :: "int \<Rightarrow> tm_mini_t option" where
  "ripple_epoch_to_tm t =
     (if t < INT_MIN * 31622400 \<or> t > INT_MAX * 31622400 then None
      else
        let secs = t + FINAL_EPOCH_OFFSET;
            days = secs sdiv 86400;
            remsecs = secs smod 86400;
            (remsecs, days) = (if remsecs < 0 then (remsecs + 86400, days - 1) else (remsecs, days));
            qc_cycles = days sdiv DAYS_PER_400Y;
            remdays = days smod DAYS_PER_400Y;
            (remdays, qc_cycles) = (if remdays < 0 then (remdays + DAYS_PER_400Y, qc_cycles - 1)
                                    else (remdays, qc_cycles));
            c_cycles = remdays sdiv DAYS_PER_100Y;
            c_cycles = (if c_cycles = 4 then c_cycles - 1 else c_cycles);
            remdays = remdays - c_cycles * DAYS_PER_100Y;
            q_cycles = remdays sdiv DAYS_PER_4Y;
            q_cycles = (if q_cycles = 25 then q_cycles - 1 else q_cycles);
            remdays = remdays - q_cycles * DAYS_PER_4Y;
            remyears = remdays sdiv 365;
            remyears = (if remyears = 4 then remyears - 1 else remyears);
            remdays = remdays - remyears * 365;
            years = remyears + 4 * q_cycles + 100 * c_cycles + 400 * qc_cycles in
        Option.bind (month_loop days_in_month 0 remdays) (\<lambda>(months, remdays).
          if years + 100 > INT_MAX \<or> years + 100 < INT_MIN then None
          else
            let year = years + 100;
                mon = months + 2;
                (mon, year) = (if mon \<ge> 12 then (mon - 12, year + 1) else (mon, year)) in
            Some \<lparr>tm_sec = remsecs smod 60, tm_min = (remsecs sdiv 60) smod 60,
                  tm_hour = remsecs sdiv 3600, tm_mday = remdays + 1, tm_mon = mon,
                  tm_year = year\<rparr>))"

text \<open>\<open>%u\<close> reads its argument as \<open>unsigned int\<close>; every number printed is non-negative.\<close>

definition print_time :: "tm_mini_t \<Rightarrow> string \<Rightarrow> string option" where
  "print_time tm dst =
     (let u = (\<lambda>i. nat (i mod 2 ^ 32)) in
      snprintf dst 0 (length dst)
        (print_dec (u (tm_year tm + 1900)) @ ''-'' @ print_dec_pad 2 (u (tm_mon tm + 1)) @ ''-'' @
         print_dec_pad 2 (u (tm_mday tm)) @ '' '' @ print_dec_pad 2 (u (tm_hour tm)) @ '':'' @
         print_dec_pad 2 (u (tm_min tm)) @ '':'' @ print_dec_pad 2 (u (tm_sec tm)) @ '' UTC''))"

text \<open>
  \<open>format_time\<close> ignores the error of \<open>ripple_epoch_to_tm\<close>; it would then print an uninitialised
  \<open>tm\<close>, which has no meaning here.
\<close>

definition format_time :: "field_t \<Rightarrow> string \<Rightarrow> string option" where
  "format_time field dst =
     Option.bind (data_u32 (fdata field)) (\<lambda>value.
     Option.bind (ripple_epoch_to_tm (uint value)) (\<lambda>tm. print_time tm dst))"

definition format_time_delta :: "field_t \<Rightarrow> string \<Rightarrow> string option" where
  "format_time_delta field dst =
     Option.bind (data_u32 (fdata field)) (\<lambda>value.
     snprintf dst 0 (length dst) (print_dec (unat value) @ '' s''))"

section \<open>The calendar\<close>

text \<open>The Gregorian calendar (specification): the days from 2000-01-01 to a date.\<close>

definition leap :: "int \<Rightarrow> bool" where
  "leap y \<longleftrightarrow> 4 dvd y \<and> (100 dvd y \<longrightarrow> 400 dvd y)"

definition month_days :: "int \<Rightarrow> nat \<Rightarrow> int" where
  "month_days y m = [31, if leap y then 29 else 28, 31, 30, 31, 30, 31, 31, 30, 31, 30, 31] ! (m - 1)"

definition days_since_2000 :: "int \<Rightarrow> nat \<Rightarrow> int \<Rightarrow> int" where
  "days_since_2000 y m d =
     (\<Sum>k < nat (y - 2000). if leap (2000 + int k) then 366 else 365) +
     (\<Sum>i < m - 1. month_days y (i + 1)) + (d - 1)"

text \<open>A time of the calendar, and the seconds from 2000-01-01 00:00:00 to it.\<close>

definition valid_time :: "tm_mini_t \<Rightarrow> bool" where
  "valid_time tm \<longleftrightarrow>
     100 \<le> tm_year tm \<and> 0 \<le> tm_mon tm \<and> tm_mon tm < 12 \<and>
     1 \<le> tm_mday tm \<and> tm_mday tm \<le> month_days (tm_year tm + 1900) (nat (tm_mon tm + 1)) \<and>
     0 \<le> tm_hour tm \<and> tm_hour tm < 24 \<and> 0 \<le> tm_min tm \<and> tm_min tm < 60 \<and>
     0 \<le> tm_sec tm \<and> tm_sec tm < 60"

definition seconds_since_2000 :: "tm_mini_t \<Rightarrow> int" where
  "seconds_since_2000 tm =
     86400 * days_since_2000 (tm_year tm + 1900) (nat (tm_mon tm + 1)) (tm_mday tm) +
     3600 * tm_hour tm + 60 * tm_min tm + tm_sec tm"

lemma leap_iff: "leap (2000 + int n) \<longleftrightarrow> n mod 4 = 0 \<and> (n mod 100 = 0 \<longrightarrow> n mod 400 = 0)"
proof -
  have "k dvd 2000 + int n \<longleftrightarrow> n mod nat k = 0" if "0 < k" "k dvd 2000" for k
  proof -
    have "k dvd 2000 + int n \<longleftrightarrow> k dvd int n" using that(2) by (simp add: dvd_add_right_iff)
    also have "\<dots> \<longleftrightarrow> nat k dvd n" using that(1) by (simp add: nat_dvd_iff)
    finally show ?thesis by (simp add: dvd_eq_mod_eq_0)
  qed
  from this [of 4] this [of 100] this [of 400] show ?thesis by (simp add: leap_def)
qed

lemma year_start:
  "(\<Sum>k < n. if leap (2000 + int k) then 366 else (365 :: int)) + int ((n + 99) div 100) =
     365 * int n + int ((n + 3) div 4) + int ((n + 399) div 400)"
proof (induction n)
  case (Suc n)
  have step: "(Suc n + (m - 1)) div m = (n + (m - 1)) div m + (if n mod m = 0 then 1 else 0)"
    if "0 < m" for m
    using that div_Suc [of "n + (m - 1)" m] by simp
  have mm: "n mod 400 = 0 \<Longrightarrow> n mod 100 = 0" "n mod 100 = 0 \<Longrightarrow> n mod 4 = 0"
    using mod_mod_cancel [of 100 400 n] mod_mod_cancel [of 4 100 n] by simp_all
  show ?case
    using Suc step [of 4] step [of 100] step [of 400] mm by (simp add: leap_iff split: if_split)
qed simp

lemma sdiv_pos: "0 \<le> a \<Longrightarrow> 0 < b \<Longrightarrow> a sdiv b = (a div b :: int)"
  by (cases "a = 0") (simp_all add: signed_divide_int_def sgn_if)

lemma smod_pos: "0 \<le> a \<Longrightarrow> 0 < b \<Longrightarrow> a smod b = (a mod b :: int)"
  using minus_sdiv_mult_eq_smod [of a b] by (simp add: sdiv_pos minus_div_mult_eq_mod)

lemma floor_fixup:
  fixes a b :: int
  assumes "0 < b"
  shows "(if a smod b < 0 then (a smod b + b, a sdiv b - 1) else (a smod b, a sdiv b)) = (a mod b, a div b)"
proof (cases "0 \<le> a")
  case True
  moreover have "\<not> a mod b < 0" using assms by (simp add: not_less)
  ultimately show ?thesis using assms by (simp add: sdiv_pos smod_pos)
next
  case False
  then have d: "a sdiv b = - ((- a) div b)" using assms by (simp add: signed_divide_int_def)
  have m: "a smod b = - ((- a) mod b)"
    using minus_sdiv_mult_eq_smod [of a b] by (simp add: d minus_div_mult_eq_mod [symmetric])
  show ?thesis unfolding d m
    using assms pos_mod_bound [OF assms, of a] pos_mod_sign [OF assms, of a]
    by (auto simp: zmod_zminus1_eq_if zdiv_zminus1_eq_if)
qed

section \<open>From days to dates\<close>

text \<open>The centuries, four-year cycles and years in a number of days from 1 March 2000.\<close>

lemma year_split:
  fixes rd :: int
  assumes "0 \<le> rd" and "rd < DAYS_PER_400Y"
    and "c = (if rd div DAYS_PER_100Y = 4 then rd div DAYS_PER_100Y - 1 else rd div DAYS_PER_100Y)"
    and "r1 = rd - c * DAYS_PER_100Y"
    and "q = (if r1 div DAYS_PER_4Y = 25 then r1 div DAYS_PER_4Y - 1 else r1 div DAYS_PER_4Y)"
    and "r2 = r1 - q * DAYS_PER_4Y"
    and "y = (if r2 div 365 = 4 then r2 div 365 - 1 else r2 div 365)"
    and "r = r2 - y * 365"
  shows "0 \<le> c \<and> c < 4 \<and> 0 \<le> q \<and> q < 25 \<and> 0 \<le> y \<and> y < 4 \<and> 0 \<le> r \<and> r < 366 \<and>
     0 \<le> r1 \<and> 0 \<le> r2 \<and>
     rd = 36524 * c + 1461 * q + 365 * y + r \<and> (r = 365 \<longrightarrow> y = 3 \<and> (q = 24 \<longrightarrow> c = 3))"
proof -
  have c: "0 \<le> c" "c < 4" "0 \<le> r1" "r1 \<le> 36524" "r1 = 36524 \<longrightarrow> c = 3"
    using assms(1-4) by (auto split: if_splits)
  have q: "0 \<le> q" "q < 25" "0 \<le> r2" "r2 \<le> 1460" "r2 = 1460 \<and> q = 24 \<longrightarrow> r1 = 36524"
    using c assms(5,6) by (auto split: if_splits)
  have y: "0 \<le> y" "y < 4" "0 \<le> r" "r \<le> 365" "r = 365 \<longrightarrow> y = 3 \<and> r2 = 1460"
    using q assms(7,8) by (auto split: if_splits)
  from c q y assms(4,6,8) show ?thesis by auto
qed

lemma month_loop_spec:
  assumes "0 \<le> r" and "r < sum_list ds" and "\<forall>d \<in> set ds. 0 < d"
  shows "\<exists>j d. month_loop ds k r = Some (k + int j, d) \<and> j < length ds \<and> 0 \<le> d \<and> d < ds ! j \<and>
     r = sum_list (take j ds) + d"
  using assms
proof (induction ds arbitrary: k r)
  case (Cons e ds)
  show ?case
  proof (cases "e \<le> r")
    case True
    with Cons.prems Cons.IH [of "r - e" "k + 1"] obtain j d where
      "month_loop ds (k + 1) (r - e) = Some (k + 1 + int j, d)" "j < length ds" "0 \<le> d" "d < ds ! j"
      "r - e = sum_list (take j ds) + d" by auto
    with True show ?thesis by (intro exI [of _ "Suc j"] exI [of _ d]) simp
  next
    case False
    with Cons.prems show ?thesis by (intro exI [of _ 0] exI [of _ r]) simp
  qed
qed simp

lemma month_start:
  assumes "j < 10"
  shows "(\<Sum>i < j + 2. month_days y (i + 1)) = (if leap y then 60 else 59) + sum_list (take j days_in_month)"
proof -
  from assms have "j \<in> {0, 1, 2, 3, 4, 5, 6, 7, 8, 9}" by auto
  then show ?thesis
    by (auto simp: month_days_def days_in_month_def numeral_eq_Suc)
qed

lemma month_length:
  assumes "j < 10"
  shows "month_days y (j + 3) = days_in_month ! j"
proof -
  from assms have "j \<in> {0, 1, 2, 3, 4, 5, 6, 7, 8, 9}" by auto
  then show ?thesis
    by (auto simp: month_days_def days_in_month_def numeral_eq_Suc)
qed

text \<open>The first day of the year after \<open>2000 + Y\<close>.\<close>

lemma year_start_next:
  assumes "Y = y + 4 * q + 100 * c" and "y < 4" and "q < 25" and "c < 4"
  shows "(\<Sum>k < Suc Y. if leap (2000 + int k) then 366 else (365 :: int)) =
     365 * int Y + 366 + 24 * int c + int q"
proof -
  have "(Suc Y + 99) div 100 = c + 1" "(Suc Y + 3) div 4 = q + 25 * c + 1" "(Suc Y + 399) div 400 = 1"
    using assms by auto
  with year_start [of "Suc Y"] show ?thesis by simp
qed

text \<open>
  The date of a day: in year \<open>Y\<close> counted from March, month \<open>j\<close> from March, day \<open>d\<close> from zero.
\<close>

lemma date_of:
  assumes "Y = y + 4 * q + 100 * c" and "y < 4" and "q < 25" and "c < 4"
    and "j < 12" and "0 \<le> d" and "d < days_in_month ! j" and "r = sum_list (take j days_in_month) + d"
    and "r = 365 \<longrightarrow> y = 3 \<and> (q = 24 \<longrightarrow> c = 3)"
    and "m = (if j < 10 then j + 3 else j - 9)" and "yr = 2000 + int Y + (if j < 10 then 0 else 1)"
  shows "days_since_2000 yr m (d + 1) = 60 + 365 * int Y + 24 * int c + int q + r \<and>
     d + 1 \<le> month_days yr m"
proof -
  note S = year_start_next [OF assms(1-4)]
  consider "j < 10" | "j = 10" | "j = 11" using assms(5) by linarith
  then show ?thesis
  proof cases
    case 1
    have "days_since_2000 yr m (d + 1) =
        (\<Sum>k < Y. if leap (2000 + int k) then 366 else 365) + (\<Sum>i < j + 2. month_days yr (i + 1)) + d"
      using 1 by (simp add: days_since_2000_def assms(10,11))
    also have "\<dots> = (\<Sum>k < Suc Y. if leap (2000 + int k) then 366 else 365) - 306 + r"
      unfolding month_start [OF 1] using 1 assms(8,11) by simp
    finally show ?thesis using S 1 assms(7,10) by (simp add: month_length)
  next
    case 2
    have "sum_list (take 10 days_in_month) = 306" "days_in_month ! 10 = 31"
      by (simp_all add: days_in_month_def)
    with 2 S assms(7,8,10,11) show ?thesis
      by (simp add: days_since_2000_def month_days_def nat_add_distrib)
  next
    case 3
    have t: "sum_list (take 11 days_in_month) = 337" "days_in_month ! 11 = 29"
      by (simp_all add: days_in_month_def)
    have leap: "leap yr" if "d = 28"
    proof -
      have "r = 365" using that 3 t(1) assms(8) by simp
      then have y: "y = 3" "q = 24 \<longrightarrow> c = 3" using assms(9) by simp_all
      then have Y: "Suc Y = 4 * (q + 1) + 100 * c" using assms(1) by simp
      have "Suc Y mod 4 = 0" unfolding Y by presburger
      moreover have "Suc Y mod 400 = 0" if "Suc Y mod 100 = 0"
      proof -
        have "4 * (q + 1) mod 100 = 0" using that unfolding Y by simp
        then have "q = 24" using assms(3) by presburger
        then show ?thesis using y(2) by (simp add: Y)
      qed
      ultimately have "leap (2000 + int (Suc Y))" unfolding leap_iff by blast
      then show ?thesis using 3 assms(11) by (simp add: algebra_simps)
    qed
    have d: "d \<le> 28" using 3 t assms(7) by simp
    have "d + 1 \<le> month_days yr m"
      using leap d 3 assms(10) by (cases "d = 28") (auto simp: month_days_def)
    with 3 t S assms(8,10,11) show ?thesis
      by (simp add: days_since_2000_def month_days_def nat_add_distrib)
  qed
qed

lemma ripple_epoch_to_tm_parts:
  assumes "0 \<le> t" and "t < 2 ^ 32"
    and "days = (t + FINAL_EPOCH_OFFSET) div 86400" and "rs = (t + FINAL_EPOCH_OFFSET) mod 86400"
    and "rd = days mod DAYS_PER_400Y"
    and "c = (if rd div DAYS_PER_100Y = 4 then rd div DAYS_PER_100Y - 1 else rd div DAYS_PER_100Y)"
    and "r1 = rd - c * DAYS_PER_100Y"
    and "q = (if r1 div DAYS_PER_4Y = 25 then r1 div DAYS_PER_4Y - 1 else r1 div DAYS_PER_4Y)"
    and "r2 = r1 - q * DAYS_PER_4Y"
    and "y = (if r2 div 365 = 4 then r2 div 365 - 1 else r2 div 365)"
    and "r = r2 - y * 365"
    and "years = y + 4 * q + 100 * c + 400 * (days div DAYS_PER_400Y)"
    and "month_loop days_in_month 0 r = Some (months, d)"
    and "- 1 \<le> years" and "years < 10 ^ 6"
  shows "ripple_epoch_to_tm t =
     Some \<lparr>tm_sec = rs mod 60, tm_min = rs div 60 mod 60, tm_hour = rs div 3600, tm_mday = d + 1,
       tm_mon = (if months + 2 \<ge> 12 then months + 2 - 12 else months + 2),
       tm_year = (if months + 2 \<ge> 12 then years + 100 + 1 else years + 100)\<rparr>"
proof -
  have rd: "0 \<le> rd" "rd < DAYS_PER_400Y" using assms(5) by simp_all
  have pos: "0 \<le> r1" "0 \<le> r2" using year_split [OF rd assms(6-11)] by blast+
  have rs: "0 \<le> rs" using assms(4) by simp
  have div: "rd sdiv DAYS_PER_100Y = rd div DAYS_PER_100Y" "r1 sdiv DAYS_PER_4Y = r1 div DAYS_PER_4Y"
    "r2 sdiv 365 = r2 div 365" "rs smod 60 = rs mod 60" "rs sdiv 3600 = rs div 3600"
    "(rs sdiv 60) smod 60 = rs div 60 mod 60"
    using rd pos rs by (simp_all add: sdiv_pos smod_pos pos_imp_zdiv_nonneg_iff)
  have floors: "(if (a :: int) smod 86400 < 0 then (a smod 86400 + 86400, a sdiv 86400 - 1)
      else (a smod 86400, a sdiv 86400)) = (a mod 86400, a div 86400)"
    "(if (a :: int) smod DAYS_PER_400Y < 0 then (a smod DAYS_PER_400Y + DAYS_PER_400Y, a sdiv DAYS_PER_400Y - 1)
      else (a smod DAYS_PER_400Y, a sdiv DAYS_PER_400Y)) = (a mod DAYS_PER_400Y, a div DAYS_PER_400Y)" for a
    by (rule floor_fixup, simp)+
  have ok: "\<not> (t < INT_MIN * 31622400 \<or> t > INT_MAX * 31622400)"
    "\<not> (years + 100 > INT_MAX \<or> years + 100 < INT_MIN)"
    using assms(1,2,14,15) by simp_all
  show ?thesis
    unfolding ripple_epoch_to_tm_def Let_def if_not_P [OF ok(1)] floors prod.case
    unfolding assms(3,4) [symmetric] unfolding assms(5) [symmetric]
    unfolding div unfolding assms(6) [symmetric] unfolding assms(7) [symmetric]
    unfolding div unfolding assms(8) [symmetric] unfolding assms(9) [symmetric]
    unfolding div unfolding assms(10) [symmetric] unfolding assms(11,12) [symmetric]
    unfolding assms(13) Option.bind.bind_lunit prod.case if_not_P [OF ok(2)] div
    by simp
qed

lemma ripple_epoch_to_tm_spec:
  assumes "0 \<le> t" and "t < 2 ^ 32"
  shows "\<exists>tm. ripple_epoch_to_tm t = Some tm \<and> valid_time tm \<and> seconds_since_2000 tm = t \<and>
     tm_year tm < 1000"
proof -
  define days where "days = (t + FINAL_EPOCH_OFFSET) div 86400"
  define rs where "rs = (t + FINAL_EPOCH_OFFSET) mod 86400"
  define rd where "rd = days mod DAYS_PER_400Y"
  define c where "c = (if rd div DAYS_PER_100Y = 4 then rd div DAYS_PER_100Y - 1 else rd div DAYS_PER_100Y)"
  define r1 where "r1 = rd - c * DAYS_PER_100Y"
  define q where "q = (if r1 div DAYS_PER_4Y = 25 then r1 div DAYS_PER_4Y - 1 else r1 div DAYS_PER_4Y)"
  define r2 where "r2 = r1 - q * DAYS_PER_4Y"
  define y where "y = (if r2 div 365 = 4 then r2 div 365 - 1 else r2 div 365)"
  define r where "r = r2 - y * 365"
  define years where "years = y + 4 * q + 100 * c + 400 * (days div DAYS_PER_400Y)"
  have rd: "0 \<le> rd" "rd < DAYS_PER_400Y" by (simp_all add: rd_def)
  note split = year_split [OF rd c_def r1_def q_def r2_def y_def r_def]
  have r: "0 \<le> r" "r < 366" using split by blast+
  have "r < sum_list days_in_month" using r(2) by (simp add: days_in_month_def)
  moreover have "\<forall>d \<in> set days_in_month. 0 < d" by (simp add: days_in_month_def)
  moreover have len: "length days_in_month = 12" by (simp add: days_in_month_def)
  ultimately obtain j d where loop: "month_loop days_in_month 0 r = Some (int j, d)"
    and j: "j < 12" "0 \<le> d" "d < days_in_month ! j" "r = sum_list (take j days_in_month) + d"
    using month_loop_spec [OF r(1), of days_in_month 0] unfolding len by auto
  have days: "-60 \<le> days" "days < 49651" using assms by (simp_all add: days_def)
  have rs: "0 \<le> rs" "rs < 86400" and t: "t = 86400 * (days + 60) + rs"
    by (simp_all add: rs_def days_def)
  define yr where "yr = 2000 + years + (if j < 10 then 0 else 1)"
  define m where "m = (if j < 10 then j + 3 else j - 9)"
  have cal: "- 1 \<le> years \<and> years < 700 \<and> 2000 \<le> yr \<and> days_since_2000 yr m (d + 1) = 60 + days \<and>
      d + 1 \<le> month_days yr m"
  proof (cases "0 \<le> days")
    case True
    have qc: "days div DAYS_PER_400Y = 0" "rd = days" using True days(2) by (simp_all add: rd_def)
    have years: "0 \<le> years" "years < 400" "nat years = nat y + 4 * nat q + 100 * nat c"
      using split qc by (auto simp: years_def nat_add_distrib nat_mult_distrib)
    have "days_since_2000 yr m (d + 1) = 60 + 365 * int (nat years) + 24 * int (nat c) + int (nat q) + r \<and>
        d + 1 \<le> month_days yr m"
      using split j years by (intro date_of [of "nat years" "nat y" "nat q" "nat c" j]) (auto simp: m_def yr_def)
    moreover have "365 * years + 24 * c + q + r = days"
      using split qc by (simp add: years_def)
    ultimately show ?thesis using years split qc(2) by (simp add: yr_def)
  next
    case False
    have qc: "days div DAYS_PER_400Y = - 1"
      by (rule int_div_pos_eq [of _ _ _ "days + DAYS_PER_400Y"]) (use days False in simp_all)
    then have qc: "days div DAYS_PER_400Y = - 1" "rd = days + DAYS_PER_400Y"
      using div_mult_mod_eq [of days DAYS_PER_400Y] by (simp_all add: rd_def)
    have c: "c = 3" using split qc(2) days(1) by linarith
    have q: "q = 24" using split qc(2) days(1) c by linarith
    have y: "y = 3" using split qc(2) days(1) c q by linarith
    have rv: "r = days + 366" using c q y qc by (simp add: r_def r2_def r1_def)
    have yv: "years = - 1" using c q y qc by (simp add: years_def)
    have "sum_list (take j days_in_month) + days_in_month ! j \<le> 306" if "j < 10"
    proof -
      from that have "j \<in> {0, 1, 2, 3, 4, 5, 6, 7, 8, 9}" by auto
      then show ?thesis by (auto simp: days_in_month_def)
    qed
    then have "\<not> j < 10" using rv days(1) j(3,4) by fastforce
    then consider "j = 10" | "j = 11" using j(1) by linarith
    then show ?thesis
      by cases (use j(3,4) rv yv False days(1) in
        \<open>simp_all add: m_def yr_def days_since_2000_def month_days_def days_in_month_def leap_def\<close>)
  qed
  define tm where "tm = \<lparr>tm_sec = rs mod 60, tm_min = rs div 60 mod 60, tm_hour = rs div 3600,
       tm_mday = d + 1, tm_mon = (if int j + 2 \<ge> 12 then int j + 2 - 12 else int j + 2),
       tm_year = (if int j + 2 \<ge> 12 then years + 100 + 1 else years + 100)\<rparr>"
  have "years < 10 ^ 6" using cal by simp
  then have run: "ripple_epoch_to_tm t = Some tm"
    unfolding tm_def using cal
    by (intro ripple_epoch_to_tm_parts [OF assms days_def rs_def rd_def c_def r1_def q_def r2_def
      y_def r_def years_def loop]) simp_all
  have yr: "tm_year tm + 1900 = yr" and m: "nat (tm_mon tm + 1) = m" and mon: "0 \<le> tm_mon tm" "tm_mon tm < 12"
    using j(1) by (auto simp: tm_def yr_def m_def)
  have hms: "3600 * (rs div 3600) + 60 * (rs div 60 mod 60) + rs mod 60 = rs"
  proof -
    have "rs div 3600 = rs div 60 div 60" by (simp add: zdiv_zmult2_eq)
    then show ?thesis
      using div_mult_mod_eq [of "rs div 60" 60] div_mult_mod_eq [of rs 60] by linarith
  qed
  have sec: "seconds_since_2000 tm = t"
    unfolding seconds_since_2000_def yr m using cal t hms by (simp add: tm_def)
  have "0 \<le> rs div 3600" "rs div 3600 < 24" using rs by (auto simp: pos_imp_zdiv_nonneg_iff)
  then have valid: "valid_time tm"
    unfolding valid_time_def yr m using cal mon yr j(2) by (simp add: tm_def)
  show ?thesis using run valid sec cal yr by (auto simp: yr_def)
qed

section \<open>What is shown\<close>

text \<open>The text of a time (specification).\<close>

definition time_text :: "tm_mini_t \<Rightarrow> string" where
  "time_text tm =
     print_dec (nat (tm_year tm + 1900)) @ ''-'' @ print_dec_pad 2 (nat (tm_mon tm + 1)) @ ''-'' @
     print_dec_pad 2 (nat (tm_mday tm)) @ '' '' @ print_dec_pad 2 (nat (tm_hour tm)) @ '':'' @
     print_dec_pad 2 (nat (tm_min tm)) @ '':'' @ print_dec_pad 2 (nat (tm_sec tm)) @ '' UTC''"

lemma month_days_range: "1 \<le> m \<Longrightarrow> m \<le> 12 \<Longrightarrow> month_days y m \<le> 31"
proof -
  assume "1 \<le> m" "m \<le> 12"
  then have "m = 1 \<or> m = 2 \<or> m = 3 \<or> m = 4 \<or> m = 5 \<or> m = 6 \<or> m = 7 \<or> m = 8 \<or> m = 9 \<or>
    m = 10 \<or> m = 11 \<or> m = 12" by presburger
  then show ?thesis by (elim disjE) (simp_all add: month_days_def numeral_eq_Suc)
qed

lemma valid_time_mday: "valid_time tm \<Longrightarrow> tm_mday tm \<le> 31"
proof -
  assume v: "valid_time tm"
  then have "1 \<le> nat (tm_mon tm + 1)" "nat (tm_mon tm + 1) \<le> 12"
    by (simp_all add: valid_time_def nat_le_iff le_nat_iff)
  from month_days_range [OF this, of "tm_year tm + 1900"] v show ?thesis by (simp add: valid_time_def)
qed

lemma time_text_props:
  assumes "valid_time tm" and "tm_year tm < 1000"
  shows "length (time_text tm) \<le> 23" and "NUL \<notin> set (time_text tm)" and "time_text tm \<noteq> []"
proof -
  note d = valid_time_mday [OF assms(1)]
  have "nat (tm_year tm + 1900) < 10 ^ 4" using assms by simp
  then have "length (print_dec (nat (tm_year tm + 1900))) \<le> 4" by (rule length_print_dec) simp
  moreover have two: "length (print_dec_pad 2 (nat i)) = 2" if "i < 100" for i
    using that length_print_dec [of "nat i" 2] by (simp add: print_dec_pad_def)
  ultimately show "length (time_text tm) \<le> 23"
    using assms d by (simp add: time_text_def valid_time_def)
  show "NUL \<notin> set (time_text tm)" by (auto simp: time_text_def print_dec_pad_def)
  show "time_text tm \<noteq> []" by (simp add: time_text_def)
qed

lemma print_time_spec:
  assumes "valid_time tm" and "tm_year tm < 1000" and "24 \<le> n"
  shows "print_time tm (replicate n NUL) = Some (padded n (time_text tm))"
proof -
  note d = valid_time_mday [OF assms(1)]
  have u: "nat (i mod 2 ^ 32) = nat i" if "0 \<le> i" "i < 3000" for i :: int using that by simp
  have us: "nat ((tm_year tm + 1900) mod 2 ^ 32) = nat (tm_year tm + 1900)"
    "nat ((tm_mon tm + 1) mod 2 ^ 32) = nat (tm_mon tm + 1)" "nat (tm_mday tm mod 2 ^ 32) = nat (tm_mday tm)"
    "nat (tm_hour tm mod 2 ^ 32) = nat (tm_hour tm)" "nat (tm_min tm mod 2 ^ 32) = nat (tm_min tm)"
    "nat (tm_sec tm mod 2 ^ 32) = nat (tm_sec tm)"
    using assms(1,2) d by (auto simp: valid_time_def intro!: u)
  show ?thesis
    using snprintf_padded [of "[]" "time_text tm" n] time_text_props [OF assms(1,2)] assms(3)
    unfolding print_time_def Let_def us time_text_def [symmetric] by (simp add: padded_def)
qed

text \<open>What the times of the wire are shown as.\<close>

lemma format_time_spec:
  assumes "fdata field = DU32 v" and "24 \<le> n"
  shows "\<exists>tm. format_time field (replicate n NUL) = Some (padded n (time_text tm)) \<and>
     valid_time tm \<and> seconds_since_2000 tm = uint v \<and> tm_year tm < 1000"
proof -
  have "0 \<le> uint v" "uint v < 2 ^ 32" using uint_lt2p [of v] by simp_all
  from ripple_epoch_to_tm_spec [OF this] obtain tm where
    "ripple_epoch_to_tm (uint v) = Some tm" "valid_time tm" "seconds_since_2000 tm = uint v"
    "tm_year tm < 1000" by blast
  with print_time_spec [of tm n] assms show ?thesis by (auto simp: format_time_def)
qed

text \<open>
  C19. Times are the right dates. For each of the \<open>2 ^ 32\<close> times, \<open>format_time\<close> shows a date and time
  of day of the Gregorian calendar, with its leap years and months, that lies exactly that many
  seconds after 2000-01-01 00:00:00. The code reads no month beyond its table and never
  prints a time it has not computed.
\<close>

theorem times_are_right:
  assumes "fdata field = DU32 v" and "24 \<le> n"
  shows "\<exists>tm. format_time field (replicate n NUL) = Some (padded n (time_text tm)) \<and>
     valid_time tm \<and> seconds_since_2000 tm = uint v"
  using format_time_spec [OF assms] by blast

theorem times_are_right_witness:
  "\<exists>tm. format_time (zero_field\<lparr>data_type := STI_UINT32, fld_id := XRP_UINT32_EXPIRATION, fdata := DU32 762220800\<rparr>)
      (replicate 128 NUL) = Some (padded 128 (time_text tm)) \<and>
     valid_time tm \<and> seconds_since_2000 tm = 762220800"
  using times_are_right [of
      "zero_field\<lparr>data_type := STI_UINT32, fld_id := XRP_UINT32_EXPIRATION, fdata := DU32 762220800\<rparr>"
      762220800 128]
  by simp

end
