(* ===== verification/Base58.thy ===== *)
theory Base58
  imports Readers
begin

text \<open>
  The base58 encoder of \<open>src/src/xrp/xrp_helpers.c\<close> and what it computes: the digits of the
  input's number in base 58, with the XRP alphabet, after one \<open>r\<close> for every leading zero
  byte. The encoder's early exit from its inner loop is part of the model; that it never
  loses a digit is the point of the proof.
\<close>

section \<open>The code\<close>

abbreviation (input) XRP_ADDRESS_SIZE :: nat where "XRP_ADDRESS_SIZE \<equiv> 41"

definition bas_e58_alphabet :: string where
  "bas_e58_alphabet = ''rpshnaf39wBUDNEGHJKLM4PQRST7VWXYZ2bcdeCg65jkm8oFqi1tuvAxyz''"

text \<open>
  The inner loop, for one byte: the digits of \<open>buffer\<close> from \<open>j\<close> down. \<open>j\<close> and \<open>stop_at\<close> are
  \<open>size_t\<close> in the code, 32 bits wide on the devices: \<open>j\<close> is shown after its cast to \<open>int\<close>, and
  \<open>stop_at - 1\<close> wraps. A digit is an \<open>unsigned char\<close> below 58, a \<open>nat\<close> here.
\<close>

function carry_loop :: "nat list \<Rightarrow> int \<Rightarrow> int \<Rightarrow> nat \<Rightarrow> (nat list \<times> int) option" where
  "carry_loop buffer j stop_at carry =
     (if j \<ge> 0 then
        if nat j < length buffer then
          let carry = carry + 256 * buffer ! nat j;
              buffer = buffer[nat j := carry mod 58];
              carry = carry div 58 in
          if j \<le> (stop_at - 1) mod 2 ^ 32 \<and> carry = 0 then Some (buffer, j)
          else carry_loop buffer (j - 1) stop_at carry
        else None
      else Some (buffer, j))"
  by pat_completeness auto
termination
  by (relation "measure (\<lambda>(_, j, _, _). nat (j + 1))") auto

declare carry_loop.simps [simp del]

text \<open>The outer loop over the bytes after the leading zeros.\<close>

fun encode_loop :: "u8 list \<Rightarrow> nat list \<Rightarrow> nat \<Rightarrow> int \<Rightarrow> nat list option" where
  "encode_loop [] buffer output_size stop_at = Some buffer"
| "encode_loop (b # bs) buffer output_size stop_at =
     Option.bind (carry_loop buffer (int output_size - 1) stop_at (unat b))
       (\<lambda>(buffer', j). encode_loop bs buffer' output_size (j mod 2 ^ 32))"

text \<open>
  The encoder: the length of the text and the buffer \<open>out\<close> it is written to. \<open>input\<close> is the
  first \<open>in->length\<close> bytes of \<open>in->buf\<close>.
\<close>

definition xrp_encode_base58_address :: "u8 list \<Rightarrow> string \<Rightarrow> (nat \<times> string) option" where
  "xrp_encode_base58_address input out =
     (let zero_count = length (takeWhile (\<lambda>b. b = 0) input);
          output_size = (length input - zero_count) * 138 div 100 + 1 in
      Option.bind (encode_loop (drop zero_count input) (replicate (MAX_ENC_INPUT_SIZE * 138 div 100 + 1) 0)
                     output_size (int output_size - 1))
        (\<lambda>buffer.
      let digits = dropWhile (\<lambda>d. d = 0) (take output_size buffer) in
      Option.bind (memset out 0 (bas_e58_alphabet ! 0) zero_count) (\<lambda>out.
      Option.bind (poke out zero_count (map (\<lambda>d. bas_e58_alphabet ! d) digits)) (\<lambda>out.
      Some (zero_count + length digits, out)))))"

section \<open>Numbers in base 58\<close>

definition val58 :: "nat list \<Rightarrow> nat" where
  "val58 ds = foldl (\<lambda>n d. 58 * n + d) 0 ds"

lemma val58_Nil [simp]: "val58 [] = 0"
  by (simp add: val58_def)

lemma val58_snoc [simp]: "val58 (ds @ [d]) = 58 * val58 ds + d"
  by (simp add: val58_def)

lemma val58_single [simp]: "val58 [d] = d"
  by (simp add: val58_def)

lemma val58_append: "val58 (ds @ es) = 58 ^ length es * val58 ds + val58 es"
  by (induction es rule: rev_induct) (simp_all add: algebra_simps flip: append_assoc)

lemma val58_Cons: "val58 (d # ds) = 58 ^ length ds * d + val58 ds"
  using val58_append [of "[d]" ds] val58_snoc [of "[]" d] by simp

lemma val58_less: "\<forall>d \<in> set ds. d < 58 \<Longrightarrow> val58 ds < 58 ^ length ds"
  by (induction ds rule: rev_induct) auto

lemma val58_zeros: "\<forall>d \<in> set ds. d = 0 \<Longrightarrow> val58 ds = 0"
  by (induction ds rule: rev_induct) auto

lemma val58_dropWhile: "val58 (dropWhile (\<lambda>d. d = 0) ds) = val58 ds"
  by (induction ds) (auto simp: val58_Cons)

text \<open>The digits of a number, none for zero.\<close>

fun digits58 :: "nat \<Rightarrow> nat list" where
  "digits58 n = (if n = 0 then [] else digits58 (n div 58) @ [n mod 58])"

declare digits58.simps [simp del]

lemma digits58_0 [simp]: "digits58 0 = []"
  by (simp add: digits58.simps)

lemma digits58_val58:
  assumes "\<forall>d \<in> set ds. d < 58" and "ds = [] \<or> hd ds \<noteq> 0"
  shows "digits58 (val58 ds) = ds"
  using assms
proof (induction ds rule: rev_induct)
  case (snoc d ds)
  show ?case
  proof (cases "ds = []")
    case True
    then show ?thesis using snoc.prems by (simp add: digits58.simps)
  next
    case False
    with snoc have "digits58 (val58 ds) = ds" by (simp add: hd_append)
    moreover have "val58 (ds @ [d]) \<noteq> 0"
      using False snoc.prems by (cases ds) (auto simp: val58_Cons val58_append)
    ultimately show ?thesis
      using snoc.prems by (subst digits58.simps) auto
  qed
qed simp

lemma val58_digits58 [simp]: "val58 (digits58 n) = n"
  by (induction n rule: digits58.induct) (subst digits58.simps, auto)

lemma digits58_less: "d \<in> set (digits58 n) \<Longrightarrow> d < 58"
  by (induction n rule: digits58.induct) (subst (asm) (2) digits58.simps, auto split: if_splits)

lemma digits58_nz: "digits58 n \<noteq> [] \<Longrightarrow> hd (digits58 n) \<noteq> 0"
proof (induction n rule: digits58.induct)
  case (1 n)
  then show ?case
  proof (cases "n < 58")
    case True
    then show ?thesis using 1(2) by (simp add: digits58.simps [of n] split: if_splits)
  next
    case False
    then have "digits58 (n div 58) \<noteq> []" by (subst digits58.simps) simp
    with 1(1) False show ?thesis by (simp add: digits58.simps [of n] hd_append)
  qed
qed

lemma be_val_append: "be_val (bs @ cs) = 256 ^ length cs * be_val bs + be_val cs"
  by (induction cs rule: rev_induct) (simp_all add: algebra_simps flip: append_assoc)

lemma be_val_Cons: "be_val (b # bs) = 256 ^ length bs * unat b + be_val bs"
  using be_val_append [of "[b]" bs] be_val_snoc [of "[]" b] by simp

section \<open>The inner loop\<close>

text \<open>
  At digit \<open>n - 1\<close>: the digits from \<open>n\<close> on are done, and the value \<open>V\<close> is theirs plus what the
  carry and the digits before them still hold. \<open>L\<close> is a digit from which on \<open>V\<close> fits, so the
  loop exits there at the latest, and it never exits with non-zero digits left over.
\<close>

lemma carry_step:
  "c = 58 * q + r \<Longrightarrow> e * (58 * (256 * v) + c) + w = 58 * e * (256 * v + q) + (e * r + (w :: nat))"
  by (simp add: algebra_simps)

lemma carry_loop_spec:
  assumes "n \<le> N" and "N \<le> length buf" and "\<forall>d \<in> set buf. d < 58"
    and "V = 58 ^ (N - n) * (256 * val58 (take n buf) + carry) + val58 (drop n (take N buf))"
    and "\<forall>i < n. i < s \<longrightarrow> buf ! i = 0" and "1 \<le> s" and "s < 2 ^ 32" and "L < s" and "L < n"
    and "s \<le> N" and "V < 58 ^ (N - L)"
  shows "\<exists>buf' j. carry_loop buf (int n - 1) (int s) carry = Some (buf', int j) \<and> L \<le> j \<and> j < s \<and>
     length buf' = length buf \<and> (\<forall>d \<in> set buf'. d < 58) \<and> val58 (take N buf') = V \<and>
     (\<forall>i < j. buf' ! i = 0)"
  using assms
proof (induction n arbitrary: buf carry)
  case 0
  then show ?case by simp
next
  case (Suc n)
  note ind = Suc.prems
  let ?c = "carry + 256 * buf ! n"
  let ?buf = "buf[n := ?c mod 58]"
  have n: "n < length buf" using ind(1,2) by simp
  have t: "take (Suc n) buf = take n buf @ [buf ! n]" using n by (simp add: take_Suc_conv_app_nth)
  have d: "drop n (take N ?buf) = (?c mod 58) # drop (Suc n) (take N buf)"
    using n ind(1) by (simp add: Cons_nth_drop_Suc [symmetric] take_update_swap)
  have p: "(58::nat) ^ (N - n) = 58 * 58 ^ (N - Suc n)"
    using ind(1) by (simp add: Suc_diff_Suc flip: power_Suc)
  have len: "length (drop (Suc n) (take N buf)) = N - Suc n" using ind(2) by simp
  have V: "V = 58 ^ (N - n) * (256 * val58 (take n ?buf) + ?c div 58) + val58 (drop n (take N ?buf))"
  proof -
    have "V = 58 ^ (N - Suc n) * (58 * (256 * val58 (take n buf)) + ?c) + val58 (drop (Suc n) (take N buf))"
      by (simp only: ind(4) t val58_snoc) (simp add: algebra_simps)
    also have "\<dots> = 58 * 58 ^ (N - Suc n) * (256 * val58 (take n buf) + ?c div 58) +
        (58 ^ (N - Suc n) * (?c mod 58) + val58 (drop (Suc n) (take N buf)))"
      by (rule carry_step) simp
    finally show ?thesis by (simp only: d val58_Cons len p take_update_cancel order_refl)
  qed
  have small: "\<forall>x \<in> set ?buf. x < 58"
    using ind(3) by (auto dest!: set_update_subset_insert [THEN subsetD])
  have wrap: "(int s - 1) mod 2 ^ 32 = int s - 1" using ind(6,7) by simp
  show ?case
  proof (cases "n < s \<and> ?c div 58 = 0")
    case True
    then have z: "val58 (take n ?buf) = 0"
      using ind(5) n by (intro val58_zeros) (auto simp: in_set_conv_nth)
    have "take N ?buf = take n ?buf @ drop n (take N ?buf)"
      using ind(1) append_take_drop_id [of n "take N ?buf"] by (simp add: min_def)
    from arg_cong [OF this, of val58] have "val58 (take N ?buf) = V"
      using V z True by (simp only: val58_append) simp
    moreover have "carry_loop buf (int (Suc n) - 1) (int s) carry = Some (?buf, int n)"
      using n True wrap by (subst carry_loop.simps) simp
    ultimately show ?thesis
      using True ind(5,9) small by (intro exI [of _ ?buf] exI [of _ n]) auto
  next
    case False
    have "L < n"
    proof (cases "?c div 58 = 0")
      case True
      then show ?thesis using False ind(8) by simp
    next
      case c: False
      have "58 ^ (N - n) * 1 \<le> 58 ^ (N - n) * (256 * val58 (take n ?buf) + ?c div 58)"
        using c by (intro mult_le_mono2) simp
      then have "58 ^ (N - n) \<le> V" using V by (metis mult_1_right trans_le_add1)
      from this ind(11) have "(58::nat) ^ (N - n) < 58 ^ (N - L)" by (rule le_less_trans)
      then have "N - n < N - L" by (rule power_less_imp_less_exp [rotated]) simp
      then show ?thesis by simp
    qed
    have "carry_loop buf (int (Suc n) - 1) (int s) carry = carry_loop ?buf (int n - 1) (int s) (?c div 58)"
      using n False wrap by (subst carry_loop.simps) (auto simp: Let_def)
    moreover have "\<forall>i < n. i < s \<longrightarrow> ?buf ! i = 0" using ind(5) by simp
    moreover have "\<exists>buf' j. carry_loop ?buf (int n - 1) (int s) (?c div 58) = Some (buf', int j) \<and>
        L \<le> j \<and> j < s \<and> length buf' = length ?buf \<and> (\<forall>d \<in> set buf'. d < 58) \<and>
        val58 (take N buf') = V \<and> (\<forall>i < j. buf' ! i = 0)"
      by (rule Suc.IH [OF _ _ small V _ ind(6,7,8) \<open>L < n\<close> ind(10,11)]) (use ind(1,2,5) in auto)
    ultimately show ?thesis by simp
  qed
qed

section \<open>All bytes\<close>

text \<open>
  The digits touched after \<open>k\<close> bytes: enough for any value of \<open>k\<close> bytes, and one more for every
  byte, since a turn always moves the exit to the left. \<open>touched m\<close> is the buffer's share for an
  input of \<open>m\<close> bytes, so the exit position never reaches zero before the last byte.
\<close>

definition touched :: "nat \<Rightarrow> nat" where
  "touched k = k * 138 div 100 + 1"

lemma touched_Suc: "touched k < touched (Suc k)"
  by (simp add: touched_def)

lemma touched_mono: "k \<le> m \<Longrightarrow> touched k \<le> touched m"
  by (auto simp: touched_def intro!: div_le_mono)

lemma touched_enough: "k \<le> 26 \<Longrightarrow> (256::nat) ^ k \<le> 58 ^ touched k"
proof -
  assume "k \<le> 26"
  then have "k \<in> set [0..<27]" by simp
  moreover have "list_all (\<lambda>k. (256::nat) ^ k \<le> 58 ^ (k * 138 div 100 + 1)) [0..<27]"
    by (simp add: upt_rec)
  ultimately show "(256::nat) ^ k \<le> 58 ^ touched k" by (simp add: list_all_iff touched_def)
qed

lemma encode_loop_spec:
  assumes "k + length bs = m" and "m \<le> 26" and "N = touched m" and "N \<le> length buf"
    and "\<forall>d \<in> set buf. d < 58" and "v < 256 ^ k" and "val58 (take N buf) = v"
    and "\<forall>i < s. buf ! i = 0" and "N \<le> s + touched k" and "s < N"
  shows "\<exists>buf'. encode_loop bs buf N (int s) = Some buf' \<and> length buf' = length buf \<and>
     (\<forall>d \<in> set buf'. d < 58) \<and> val58 (take N buf') = 256 ^ length bs * v + be_val bs"
  using assms
proof (induction bs arbitrary: k buf v s)
  case Nil
  then show ?case by simp
next
  case (Cons b bs)
  let ?V = "256 * v + unat b"
  let ?L = "N - touched (Suc k)"
  have km: "touched k < touched (Suc k)" by (rule touched_Suc)
  have kN: "touched (Suc k) \<le> N"
    unfolding Cons.prems(3) using Cons.prems(1) by (intro touched_mono) simp
  have s1: "1 \<le> s" using Cons.prems(9) km kN by simp
  have N: "N < 2 ^ 32" using Cons.prems(2,3) by (simp add: touched_def)
  have V: "?V < 256 ^ Suc k"
  proof -
    have "?V < 256 * (v + 1)" using unat_u8_less [of b] by simp
    also have "\<dots> \<le> 256 * 256 ^ k" using Cons.prems(6) by (intro mult_le_mono2) simp
    finally show ?thesis by simp
  qed
  also have "(256::nat) ^ Suc k \<le> 58 ^ touched (Suc k)"
    using Cons.prems(1,2) by (intro touched_enough) simp
  also have "touched (Suc k) = N - ?L" using kN by simp
  finally have fit: "?V < 58 ^ (N - ?L)" .
  have eq: "?V = 58 ^ (N - N) * (256 * val58 (take N buf) + unat b) + val58 (drop N (take N buf))"
    using Cons.prems(7) by simp
  have "?L < s" using Cons.prems(9) km kN by simp
  then obtain buf' j where loop: "carry_loop buf (int N - 1) (int s) (unat b) = Some (buf', int j)"
    and j: "?L \<le> j" "j < s" and l: "length buf' = length buf" and small: "\<forall>d \<in> set buf'. d < 58"
    and val: "val58 (take N buf') = ?V" and z: "\<forall>i < j. buf' ! i = 0"
    using carry_loop_spec [OF order_refl Cons.prems(4,5) eq _ s1 _ _ _ _ fit] Cons.prems(8,10) N by auto
  have "int j mod 2 ^ 32 = int j" using j(2) Cons.prems(10) N by simp
  moreover have "\<exists>buf''. encode_loop bs buf' N (int j) = Some buf'' \<and> length buf'' = length buf' \<and>
     (\<forall>d \<in> set buf''. d < 58) \<and> val58 (take N buf'') = 256 ^ length bs * ?V + be_val bs"
    using Cons.prems j l small val z V kN by (intro Cons.IH [of "Suc k"]) auto
  moreover have "256 ^ length bs * ?V + be_val bs = 256 ^ length (b # bs) * v + be_val (b # bs)"
    by (simp add: be_val_Cons algebra_simps)
  ultimately show ?case using loop l by simp
qed

section \<open>The encoder\<close>

text \<open>What the encoder is to compute.\<close>

definition base58 :: "u8 list \<Rightarrow> string" where
  "base58 bs =
     replicate (length (takeWhile (\<lambda>b. b = 0) bs)) CHR ''r'' @
     map (\<lambda>d. bas_e58_alphabet ! d) (digits58 (be_val bs))"

lemma be_val_zeros: "be_val (takeWhile (\<lambda>b. b = 0) bs @ cs) = be_val cs"
  by (induction bs) (auto simp: be_val_Cons)

lemma be_val_drop_zeros: "be_val (drop (length (takeWhile (\<lambda>b. b = 0) bs)) bs) = be_val bs"
  using be_val_zeros [of bs "dropWhile (\<lambda>b. b = 0) bs"] by (simp add: dropWhile_eq_drop [symmetric])

lemma length_digits58: "n < 58 ^ k \<Longrightarrow> length (digits58 n) \<le> k"
proof (induction k arbitrary: n)
  case (Suc k)
  then have "length (digits58 (n div 58)) \<le> k" by (intro Suc.IH) (simp add: less_mult_imp_div_less mult.commute)
  then show ?case by (subst digits58.simps) simp
qed simp

lemma touched_length:
  assumes "m \<le> length (bs :: u8 list)" and "length bs \<le> MAX_ENC_INPUT_SIZE"
  shows "m + length (digits58 (be_val (drop m bs))) \<le> 36"
proof -
  have "be_val (drop m bs) < 256 ^ (length bs - m)" using be_val_less [of "drop m bs"] by simp
  also have "\<dots> \<le> 58 ^ touched (length bs - m)"
    using assms by (intro touched_enough) simp
  finally have "length (digits58 (be_val (drop m bs))) \<le> touched (length bs - m)"
    by (rule length_digits58)
  then show ?thesis using assms by (simp add: touched_def)
qed

lemma encode_base58:
  assumes "length bs \<le> MAX_ENC_INPUT_SIZE" and "length out = XRP_ADDRESS_SIZE"
  shows "xrp_encode_base58_address bs out =
     Some (length (base58 bs), base58 bs @ drop (length (base58 bs)) out) \<and> length (base58 bs) \<le> 36"
proof -
  let ?z = "length (takeWhile (\<lambda>b. b = 0) bs)"
  let ?m = "length bs - ?z"
  let ?N = "touched ?m"
  let ?buf = "replicate (MAX_ENC_INPUT_SIZE * 138 div 100 + 1) (0::nat)"
  have z: "?z \<le> length bs" by (rule length_takeWhile_le)
  have N: "?m * 138 div 100 + 1 = ?N" by (simp add: touched_def)
  have big: "?N \<le> length ?buf"
    using assms(1) touched_mono [of ?m 26] by (simp add: touched_def)
  have "\<exists>buf'. encode_loop (drop ?z bs) ?buf ?N (int (?N - 1)) = Some buf' \<and> length buf' = length ?buf \<and>
     (\<forall>d \<in> set buf'. d < 58) \<and>
     val58 (take ?N buf') = 256 ^ length (drop ?z bs) * 0 + be_val (drop ?z bs)"
  proof (rule encode_loop_spec [of 0 _ ?m])
    show "val58 (take ?N ?buf) = 0" by (rule val58_zeros) simp
    show "\<forall>i < ?N - 1. ?buf ! i = 0" using big by simp
  qed (use big assms(1) in \<open>auto simp: touched_def\<close>)
  then obtain buf where run: "encode_loop (drop ?z bs) ?buf ?N (int (?N - 1)) = Some buf"
    and small: "\<forall>d \<in> set buf. d < 58" and val: "val58 (take ?N buf) = be_val (drop ?z bs)"
    by auto
  have ds: "dropWhile (\<lambda>d. d = 0) (take ?N buf) = digits58 (be_val (drop ?z bs))"
  proof -
    have "digits58 (val58 (dropWhile (\<lambda>d. d = 0) (take ?N buf))) = dropWhile (\<lambda>d. d = 0) (take ?N buf)"
    proof (rule digits58_val58)
      show "\<forall>d \<in> set (dropWhile (\<lambda>d. d = 0) (take ?N buf)). d < 58"
        using small by (auto dest!: set_dropWhileD in_set_takeD)
      show "dropWhile (\<lambda>d. d = 0) (take ?N buf) = [] \<or> hd (dropWhile (\<lambda>d. d = 0) (take ?N buf)) \<noteq> 0"
        using hd_dropWhile [of "\<lambda>d. d = 0" "take ?N buf"] by blast
    qed
    then show ?thesis by (simp add: val58_dropWhile val)
  qed
  have fit: "?z + length (digits58 (be_val (drop ?z bs))) \<le> 36"
    using z assms(1) by (rule touched_length)
  have N1: "int ?N - 1 = int (?N - 1)" by (simp add: touched_def)
  have enc: "xrp_encode_base58_address bs out =
      Some (?z + length (digits58 (be_val bs)),
        replicate ?z CHR ''r'' @ map (\<lambda>d. bas_e58_alphabet ! d) (digits58 (be_val bs)) @
        drop (?z + length (digits58 (be_val bs))) out)"
    unfolding xrp_encode_base58_address_def Let_def N N1 run Option.bind.bind_lunit ds
    using fit assms(2)
    by (simp add: memset_def poke_def be_val_drop_zeros bas_e58_alphabet_def add.commute)
  then show ?thesis using fit by (simp add: base58_def be_val_drop_zeros)
qed

text \<open>The text determines the bytes, given their number.\<close>

lemma alphabet_length: "length bas_e58_alphabet = 58"
  by code_simp

lemma alphabet_distinct: "distinct bas_e58_alphabet"
  by code_simp

lemma alphabet_inj:
  assumes "d < 58" and "e < 58" and "bas_e58_alphabet ! d = bas_e58_alphabet ! e"
  shows "d = e"
proof -
  have "\<And>xs :: string. distinct xs \<Longrightarrow> length xs = 58 \<Longrightarrow> xs ! d = xs ! e \<Longrightarrow> d = e"
    using assms(1,2) by (simp add: nth_eq_iff_index_eq)
  from this [OF alphabet_distinct alphabet_length assms(3)] show ?thesis .
qed

lemma digit_unique:
  assumes "256 * m + i = 256 * n + (j :: nat)" and "i < 256" and "j < 256"
  shows "m = n \<and> i = j"
  using arg_cong [OF assms(1), of "\<lambda>x. x div 256"] arg_cong [OF assms(1), of "\<lambda>x. x mod 256"] assms(2,3)
  by simp

lemma be_val_inj:
  "length bs = length cs \<Longrightarrow> be_val bs = be_val cs \<Longrightarrow> bs = cs"
proof (induction bs arbitrary: cs rule: rev_induct)
  case (snoc b bs)
  then obtain c cs' where cs: "cs = cs' @ [c]" by (metis length_0_conv rev_exhaust snoc_eq_iff_butlast)
  have "256 * be_val bs + unat b = 256 * be_val cs' + unat c" using snoc.prems cs by simp
  then have "be_val bs = be_val cs' \<and> unat b = unat c" by (rule digit_unique) simp_all
  then show ?case using snoc cs by (auto intro: unat_eqI)
qed simp

lemma base58_inj:
  assumes "base58 bs = base58 cs" and "length bs = length cs"
  shows "bs = cs"
proof -
  have v: "val58 (map (\<lambda>c. length (takeWhile (\<lambda>x. x \<noteq> c) bas_e58_alphabet)) (base58 xs)) = be_val xs" for xs
  proof -
    have "takeWhile (\<lambda>x. x \<noteq> bas_e58_alphabet ! d) bas_e58_alphabet = take d bas_e58_alphabet"
      if "d < 58" for d
    proof (rule takeWhile_eq_take_P_nth)
      fix i
      assume "i < d" and "i < length bas_e58_alphabet"
      then show "bas_e58_alphabet ! i \<noteq> bas_e58_alphabet ! d" using alphabet_inj [of i d] that by auto
    qed (use that in \<open>auto simp: alphabet_length\<close>)
    then have "length (takeWhile (\<lambda>x. x \<noteq> bas_e58_alphabet ! d) bas_e58_alphabet) = d" if "d < 58" for d
      using that by (simp add: alphabet_length)
    moreover have "length (takeWhile (\<lambda>x. x \<noteq> CHR ''r'') bas_e58_alphabet) = 0" by code_simp
    ultimately have "map (\<lambda>c. length (takeWhile (\<lambda>x. x \<noteq> c) bas_e58_alphabet)) (base58 xs) =
        replicate (length (takeWhile (\<lambda>b. b = 0) xs)) 0 @ digits58 (be_val xs)"
      by (auto simp: base58_def o_def intro!: map_idI dest: digits58_less)
    then show ?thesis by (simp add: val58_append val58_zeros)
  qed
  from assms(1) have "be_val bs = be_val cs" using v [of bs] v [of cs] by simp
  with assms(2) show ?thesis by (rule be_val_inj)
qed

end
