(* ===== verification/Keys.thy ===== *)
theory Keys
  imports Base58
begin

text \<open>
  Public keys, addresses and derivation paths: the rest of \<open>src/src/xrp/xrp_helpers.c\<close> but the
  amount printer, and \<open>src/src/xrp/xrp_pub_key.c\<close>.

  The hashes, the key derivation and the signatures are the device's cryptographic library,
  which is not part of the sources: the record \<open>sdk\<close> holds them, and every definition that
  calls one takes it as an argument. \<open>None\<close> is a \<open>cx_err_t\<close> other than \<open>CX_OK\<close>.
\<close>

section \<open>The device's cryptography\<close>

datatype cx_curve_t = CX_CURVE_NONE | CX_CURVE_256K1 | CX_CURVE_Ed25519

text \<open>
  \<open>sdk_apdu_parser\<close> is the SDK's check of a received command, \<open>sdk_str_to_u64\<close> its reader of the
  amounts the exchange app sends (\<open>swap_str_to_u64\<close>); two status words and the version numbers
  come from its headers and the build.
  \<open>sdk_pubkey\<close> is \<open>bip32_derive_get_pubkey_256\<close>: its return code (zero for success), the bytes
  \<open>W\<close> of the uncompressed point and the chain code. \<open>sdk_privkey\<close> is the key that
  \<open>bip32_derive_init_privkey_256\<close> derives, \<open>sdk_pair\<close> the point \<open>cx_ecfp_generate_pair_no_throw\<close>
  computes from it, \<open>sdk_ecdsa\<close> the signature of a 32-byte hash and \<open>sdk_eddsa\<close> that of a message,
  with the length \<open>cx_ecdomain_parameters_length\<close> gives it.
\<close>

record 'key sdk =
  sdk_apdu_parser :: "u8 list \<Rightarrow> bool"
  sdk_str_to_u64 :: "u8 list \<Rightarrow> u64 option"
  sdk_SWO_INCORRECT_DATA :: u16
  sdk_SWO_WRONG_DATA_LENGTH :: u16
  sdk_version :: "u8 \<times> u8 \<times> u8"
  sdk_sha256 :: "u8 list \<Rightarrow> u8 list option"
  sdk_ripemd160 :: "u8 list \<Rightarrow> u8 list option"
  sdk_sha512 :: "u8 list \<Rightarrow> u8 list option"
  sdk_pubkey :: "cx_curve_t \<Rightarrow> u32 list \<Rightarrow> u32 \<times> u8 list \<times> u8 list"
  sdk_privkey :: "cx_curve_t \<Rightarrow> u32 list \<Rightarrow> 'key option"
  sdk_pair :: "cx_curve_t \<Rightarrow> 'key \<Rightarrow> u8 list option"
  sdk_ecdsa :: "'key \<Rightarrow> u8 list \<Rightarrow> u8 list option"
  sdk_eddsa :: "'key \<Rightarrow> u8 list \<Rightarrow> u8 list option"

text \<open>
  What the code relies on: the sizes of digests, points and chain codes, and that a command the
  parser accepts carries exactly the bytes its length byte announces.
\<close>

definition sdk_contract :: "'key sdk \<Rightarrow> bool" where
  "sdk_contract sdk \<longleftrightarrow>
     (\<forall>rx. sdk_apdu_parser sdk rx \<longrightarrow> 5 \<le> length rx \<longrightarrow> length rx = 5 + unat (rx ! 4)) \<and>
     (\<forall>m. \<exists>d. sdk_sha256 sdk m = Some d \<and> length d = 32) \<and>
     (\<forall>m. \<exists>d. sdk_ripemd160 sdk m = Some d \<and> length d = 20) \<and>
     (\<forall>m. \<exists>d. sdk_sha512 sdk m = Some d \<and> length d = 64) \<and>
     (\<forall>c p. length (fst (snd (sdk_pubkey sdk c p))) = 65 \<and> length (snd (snd (sdk_pubkey sdk c p))) = 32) \<and>
     (\<forall>c k W. sdk_pair sdk c k = Some W \<longrightarrow> length W = 65)"

abbreviation (input) XRP_PUBKEY_SIZE :: nat where "XRP_PUBKEY_SIZE \<equiv> 33"

section \<open>Hashes and addresses\<close>

definition xrp_public_key_hash160 :: "'key sdk \<Rightarrow> u8 list \<Rightarrow> u8 list option" where
  "xrp_public_key_hash160 sdk pubkey = Option.bind (sdk_sha256 sdk pubkey) (sdk_ripemd160 sdk)"

text \<open>
  The address of a key or an account: the length written (zero for an error) and the buffer. The
  outer option is for accesses outside a buffer, the options on \<open>pubkey\<close>, \<open>account\<close> and \<open>out\<close>
  are null pointers.
\<close>

definition xrp_public_key_to_encoded_base58 ::
  "'key sdk \<Rightarrow> u8 list option \<Rightarrow> u8 list option \<Rightarrow> string option \<Rightarrow> u16 \<Rightarrow>
   (nat \<times> string option) option" where
  "xrp_public_key_to_encoded_base58 sdk pubkey account out version =
     (case out of None \<Rightarrow> Some (0, out) | Some out_buf \<Rightarrow>
      if (pubkey = None) = (account = None) then Some (0, out)
      else
        let version_size = if version > 255 then 2 else 1;
            tmp = replicate MAX_ENC_INPUT_SIZE 0 in
        Option.bind (poke tmp 0 (if version > 255 then [ucast (drop_bit 8 version), ucast version]
                                 else [ucast version])) (\<lambda>tmp.
        case (case pubkey of Some key \<Rightarrow> xrp_public_key_hash160 sdk key | None \<Rightarrow> account) of
          None \<Rightarrow> Some (0, out)
        | Some hash \<Rightarrow>
            Option.bind (poke tmp version_size hash) (\<lambda>tmp.
            case Option.bind (sdk_sha256 sdk (take (20 + version_size) tmp)) (sdk_sha256 sdk) of
              None \<Rightarrow> Some (0, out)
            | Some checksum_buffer \<Rightarrow>
                Option.bind (peek checksum_buffer 0 4) (\<lambda>checksum.
                Option.bind (poke tmp (20 + version_size) checksum) (\<lambda>tmp.
                map_option (\<lambda>(n, out_buf). (n, Some out_buf))
                  (xrp_encode_base58_address (take (24 + version_size) tmp) out_buf))))))"

text \<open>The compressed form of a 65-byte point, for secp256k1 and for Ed25519.\<close>

definition xrp_compress_public_key :: "cx_curve_t \<Rightarrow> u8 list \<Rightarrow> u8 list option" where
  "xrp_compress_public_key curve W =
     (if length W \<noteq> 65 then None
      else if curve = CX_CURVE_256K1
      then Some ((if W ! 64 AND 1 \<noteq> 0 then 0x03 else 0x02) # take 32 (drop 1 W))
      else
        let out = 0xED # map (\<lambda>i. W ! (64 - i)) [0..<32] in
        Some (if W ! 32 AND 1 \<noteq> 0 then out[32 := out ! 32 OR 0x80] else out))"

text \<open>
  \<open>get_address\<close> compresses the key into the address buffer itself, hashes it from there and
  overwrites it with the text: what follows the text's zero is the key's tail.
\<close>

definition get_address :: "'key sdk \<Rightarrow> cx_curve_t \<Rightarrow> u8 list \<Rightarrow> string \<Rightarrow> string option" where
  "get_address sdk curve W address =
     Option.bind (xrp_compress_public_key curve W) (\<lambda>p.
     Option.bind (poke address 0 (map char_of_u8 p)) (\<lambda>address.
     Option.bind (xrp_public_key_to_encoded_base58 sdk (Some p) None (Some address) 0)
       (\<lambda>(addr_len, out). case out of None \<Rightarrow> None | Some address \<Rightarrow>
          poke address (addr_len mod 256) [NUL])))"

section \<open>Derivation paths\<close>

text \<open>
  The loop reads four bytes per element. The code shifts a promoted \<open>int\<close> by 24, which for a
  hardened element moves a one into the sign bit; the compilers used give the 32-bit pattern,
  and so does the model.
\<close>

definition path_element :: "u8 list \<Rightarrow> u32" where
  "path_element path =
     push_bit 24 (ucast (path ! 0)) OR push_bit 16 (ucast (path ! 1)) OR
     push_bit 8 (ucast (path ! 2)) OR ucast (path ! 3)"

function path_loop :: "nat \<Rightarrow> u8 list \<Rightarrow> nat \<Rightarrow> u32 list \<Rightarrow> u32 list option" where
  "path_loop i path path_length path_parsed =
     (if i < path_length then
        Option.bind (peek path 0 4) (\<lambda>bs.
        Option.bind (poke path_parsed i [path_element bs]) (\<lambda>path_parsed.
        path_loop (i + 1) (drop 4 path) path_length path_parsed))
      else Some path_parsed)"
  by pat_completeness auto
termination
  by (relation "measure (\<lambda>(i, _, n, _). n - i)") auto

declare path_loop.simps [simp del]

definition parse_bip32_path ::
  "u8 list \<Rightarrow> nat \<Rightarrow> nat \<Rightarrow> u32 list \<Rightarrow> nat \<Rightarrow> (bool \<times> u32 list) option" where
  "parse_bip32_path path path_length path_bytes path_parsed path_parsed_length =
     (if path_length < 1 \<or> path_length > path_parsed_length then Some (False, path_parsed)
      else if path_bytes < path_length * 4 then Some (False, path_parsed)
      else map_option (Pair True) (path_loop 0 path path_length path_parsed))"

text \<open>
  \<open>get_public_key\<close>: the code it returns, the point and the chain code. The point stays what it
  was when the path is refused.
\<close>

definition get_public_key ::
  "'key sdk \<Rightarrow> cx_curve_t \<Rightarrow> u8 list \<Rightarrow> nat \<Rightarrow> nat \<Rightarrow> (u32 \<times> (u8 list \<times> u8 list) option) option" where
  "get_public_key sdk curve bip32_path bip32_path_length bip32_path_bytes =
     Option.bind (parse_bip32_path bip32_path bip32_path_length bip32_path_bytes
                    (replicate MAX_BIP32_PATH 0) MAX_BIP32_PATH)
       (\<lambda>(ok, bip32_path_parsed).
          if \<not> ok then Some (0x6a80, None)
          else
            let (err, W, chain_code) = sdk_pubkey sdk curve (take bip32_path_length bip32_path_parsed)
            in Some (err, Some (W, chain_code)))"

section \<open>The address of an account\<close>

text \<open>
  The classic address: the version byte, the account and the first four bytes of its double
  SHA-256, in base 58.
\<close>

definition address_payload :: "'key sdk \<Rightarrow> u8 list \<Rightarrow> u8 list" where
  "address_payload sdk account =
     0 # account @ take 4 (the (Option.bind (sdk_sha256 sdk (0 # account)) (sdk_sha256 sdk)))"

definition address_of :: "'key sdk \<Rightarrow> u8 list \<Rightarrow> string" where
  "address_of sdk account = base58 (address_payload sdk account)"

lemma double_sha256:
  assumes "sdk_contract sdk"
  obtains d where "Option.bind (sdk_sha256 sdk m) (sdk_sha256 sdk) = Some d" and "length d = 32"
proof -
  from assms have all: "\<forall>m. \<exists>d. sdk_sha256 sdk m = Some d \<and> length d = 32"
    by (simp add: sdk_contract_def)
  then obtain e where "sdk_sha256 sdk m = Some e" by blast
  moreover from all obtain d where "sdk_sha256 sdk e = Some d" "length d = 32" by blast
  ultimately show thesis using that by simp
qed

lemma hash160:
  assumes "sdk_contract sdk"
  obtains h where "xrp_public_key_hash160 sdk key = Some h" and "length h = 20"
proof -
  from assms obtain e where "sdk_sha256 sdk key = Some e" unfolding sdk_contract_def by blast
  moreover from assms obtain h where "sdk_ripemd160 sdk e = Some h" "length h = 20"
    unfolding sdk_contract_def by blast
  ultimately show thesis using that by (simp add: xrp_public_key_hash160_def)
qed

lemma length_address_payload:
  assumes "sdk_contract sdk" and "length account = 20"
  shows "length (address_payload sdk account) = 25"
proof -
  obtain d where "Option.bind (sdk_sha256 sdk (0 # account)) (sdk_sha256 sdk) = Some d"
    and "length d = 32" using double_sha256 [OF assms(1)] .
  then show ?thesis using assms(2) by (simp add: address_payload_def)
qed

lemma encoded_version0:
  assumes "sdk_contract sdk" and "length h = 20" and "length out = XRP_ADDRESS_SIZE"
    and "case key of Some k \<Rightarrow> acc = None \<and> xrp_public_key_hash160 sdk k = Some h | None \<Rightarrow> acc = Some h"
  shows "xrp_public_key_to_encoded_base58 sdk key acc (Some out) 0 =
     Some (length (address_of sdk h), Some (address_of sdk h @ drop (length (address_of sdk h)) out)) \<and>
     length (address_of sdk h) \<le> 36"
proof -
  obtain d where d: "Option.bind (sdk_sha256 sdk (0 # h)) (sdk_sha256 sdk) = Some d"
    and l: "length d = 32" using double_sha256 [OF assms(1)] .
  have one: "\<not> ((key = None) = (acc = None))" using assms(4) by (cases key) auto
  have h: "(case key of None \<Rightarrow> acc | Some k \<Rightarrow> xrp_public_key_hash160 sdk k) = Some h"
    using assms(4) by (cases key) auto
  have p1: "poke (replicate MAX_ENC_INPUT_SIZE (0::u8)) 0 [ucast (0::u16)] = Some (0 # replicate 25 0)"
    by (simp add: poke_def numeral_eq_Suc)
  have p2: "poke (0 # replicate 25 (0::u8)) 1 h = Some (0 # h @ replicate 5 0)"
    using assms(2) by (simp add: poke_def)
  have p3: "poke (0 # h @ replicate 5 (0::u8)) 21 (take 4 d) = Some (0 # h @ take 4 d @ [0])"
    using assms(2) l by (simp add: poke_def numeral_eq_Suc)
  have pk: "peek d 0 4 = Some (take 4 d)" using l by simp
  have payload: "0 # h @ take 4 d = address_payload sdk h" using d by (simp add: address_payload_def)
  have enc: "xrp_encode_base58_address (address_payload sdk h) out =
      Some (length (address_of sdk h), address_of sdk h @ drop (length (address_of sdk h)) out) \<and>
      length (address_of sdk h) \<le> 36"
    unfolding address_of_def using length_address_payload [OF assms(1,2)] assms(3)
    by (intro encode_base58) simp_all
  have t1: "take 21 (0 # h @ replicate 5 (0::u8)) = 0 # h" using assms(2) by simp
  have t2: "take 25 (0 # h @ take 4 d @ [0]) = 0 # h @ take 4 d" using assms(2) l by simp
  have "xrp_public_key_to_encoded_base58 sdk key acc (Some out) 0 =
      map_option (\<lambda>(n, out_buf). (n, Some out_buf)) (xrp_encode_base58_address (address_payload sdk h) out)"
    unfolding xrp_public_key_to_encoded_base58_def Let_def
    using one assms(2) l h
    by (cases key; cases acc)
      (simp_all add: p1 [simplified] p2 [simplified] d pk p3 payload del: peek_eq_Some)
  then show ?thesis using enc by simp
qed

lemmas encoded_account = encoded_version0 [where key = None and acc = "Some h" for h, simplified]

lemma address_of_inj:
  assumes "sdk_contract sdk" and "length a = 20" and "length b = 20"
    and "address_of sdk a = address_of sdk b"
  shows "a = b"
proof -
  have "address_payload sdk a = address_payload sdk b"
    using base58_inj [OF assms(4) [unfolded address_of_def]] length_address_payload [OF assms(1)] assms(2,3)
    by simp
  then show ?thesis using assms(2,3) by (simp add: address_payload_def append_eq_append_conv)
qed

lemma NUL_notin_base58: "NUL \<notin> set (base58 bs)"
proof -
  have "bas_e58_alphabet ! d \<noteq> NUL" if "d \<in> set (digits58 (be_val bs))" for d
  proof -
    have "bas_e58_alphabet ! d \<in> set bas_e58_alphabet"
      using digits58_less [OF that] by (simp add: alphabet_length)
    moreover have "NUL \<notin> set bas_e58_alphabet" by code_simp
    ultimately show ?thesis by metis
  qed
  then show ?thesis by (force simp: base58_def)
qed

lemma address_nonempty: "address_of sdk a \<noteq> []"
  by (simp add: address_of_def base58_def address_payload_def)

lemma poke_at_end: "n < length xs \<Longrightarrow> poke (a @ drop n xs) (length a) [c] = Some (a @ c # drop (Suc n) xs)"
  by (simp add: poke_def)

text \<open>The account of a key, and the address \<open>get_address\<close> leaves in its buffer.\<close>

lemma compress_total: "length W = 65 \<Longrightarrow> \<exists>p. xrp_compress_public_key curve W = Some p \<and> length p = 33"
  by (simp add: xrp_compress_public_key_def Let_def)

lemma get_address_text:
  assumes "sdk_contract sdk" and "xrp_compress_public_key curve W = Some p"
    and "xrp_public_key_hash160 sdk p = Some h" and "length address = XRP_ADDRESS_SIZE"
  shows "\<exists>rest. get_address sdk curve W address = Some (address_of sdk h @ NUL # rest) \<and>
     length (address_of sdk h @ NUL # rest) = XRP_ADDRESS_SIZE"
proof -
  have p: "length p = 33" using assms(2) by (auto simp: xrp_compress_public_key_def Let_def split: if_splits)
  have h: "length h = 20" using hash160 [OF assms(1), of p] assms(3) by auto
  let ?a = "address_of sdk h"
  let ?buf = "map char_of_u8 p @ drop 33 address"
  have "poke address 0 (map char_of_u8 p) = Some ?buf" using p assms(4) by (simp add: poke_def)
  moreover have "length ?buf = XRP_ADDRESS_SIZE" using p assms(4) by simp
  note enc = encoded_version0 [OF assms(1) h this, where key = "Some p" and acc = None]
  moreover have "poke (?a @ drop (length ?a) ?buf) (length ?a mod 256) [NUL] =
      Some (?a @ NUL # drop (Suc (length ?a)) ?buf)" if "length ?a \<le> 36"
    using that \<open>length ?buf = XRP_ADDRESS_SIZE\<close> by (simp add: poke_at_end del: drop_append length_append)
  ultimately show ?thesis
    using assms(2,3,4) \<open>length ?buf = XRP_ADDRESS_SIZE\<close>
    by (intro exI [of _ "drop (Suc (length ?a)) ?buf"]) (simp add: get_address_def del: drop_append)
qed

section \<open>Derivation paths, read back\<close>

definition path_bytes :: "u32 list \<Rightarrow> u8 list" where
  "path_bytes path =
     concat (map (\<lambda>w. [ucast (drop_bit 24 w), ucast (drop_bit 16 w), ucast (drop_bit 8 w), ucast w]) path)"

lemma path_element_bytes:
  "path_element [ucast (drop_bit 24 w), ucast (drop_bit 16 w), ucast (drop_bit 8 w), ucast w] = (w :: u32)"
proof (rule bit_word_eqI)
  fix n
  assume "n < LENGTH(32)"
  then consider "n < 8" | "8 \<le> n" "n < 16" | "16 \<le> n" "n < 24" | "24 \<le> n" "n < 32" by fastforce
  then show "bit (path_element [ucast (drop_bit 24 w), ucast (drop_bit 16 w), ucast (drop_bit 8 w), ucast w]) n = bit w n"
    by cases (auto simp: path_element_def bit_simps)
qed

lemma path_loop_bytes:
  assumes "i + length path \<le> length buf" and "n = i + length path"
  shows "path_loop i (path_bytes path @ rest) n buf = Some (take i buf @ path @ drop n buf)"
  using assms
proof (induction path arbitrary: i buf)
  case Nil
  then show ?case by (subst path_loop.simps) (simp add: path_bytes_def)
next
  case (Cons w path)
  have "take (Suc i) (take i buf @ w # drop (Suc i) buf) = take i buf @ [w]"
    using Cons.prems by simp
  moreover have "peek (path_bytes (w # path) @ rest) 0 4 =
      Some [ucast (drop_bit 24 w), ucast (drop_bit 16 w), ucast (drop_bit 8 w), ucast w]"
    by (simp add: path_bytes_def)
  moreover have "drop 4 (path_bytes (w # path) @ rest) = path_bytes path @ rest"
    by (simp add: path_bytes_def)
  ultimately show ?case
    using Cons.prems Cons.IH [of "Suc i" "take i buf @ w # drop (Suc i) buf"]
    by (subst path_loop.simps) (simp add: path_element_bytes poke_def add.commute del: peek_eq_Some)
qed

lemma path_loop_total:
  assumes "i + 4 * (n - i) \<le> i + length path" and "n \<le> length buf"
  shows "\<exists>parsed. path_loop i path n buf = Some parsed \<and> length parsed = length buf"
  using assms
proof (induction i path n buf rule: path_loop.induct)
  case (1 i path n buf)
  show ?case
  proof (cases "i < n")
    case True
    then have "peek path 0 4 = Some (take 4 path)" using "1.prems" by simp
    moreover obtain buf' where "poke buf i [path_element (take 4 path)] = Some buf'" and "length buf' = length buf"
      using True "1.prems" by (simp add: poke_def)
    moreover have "\<exists>parsed. path_loop (i + 1) (drop 4 path) n buf' = Some parsed \<and> length parsed = length buf'"
      using True "1.prems" calculation by (intro "1.IH") auto
    ultimately show ?thesis using True by (subst path_loop.simps) (simp del: peek_eq_Some)
  next
    case False
    then show ?thesis by (subst path_loop.simps) simp
  qed
qed

text \<open>Whatever the bytes, the path is read or refused inside its buffers.\<close>

lemma parse_path_total:
  assumes "n \<le> length path" and "length buf = MAX_BIP32_PATH"
  shows "\<exists>parsed. parse_bip32_path path k n buf MAX_BIP32_PATH =
      Some (1 \<le> k \<and> k \<le> MAX_BIP32_PATH \<and> 4 * k \<le> n, parsed) \<and> length parsed = MAX_BIP32_PATH"
proof (cases "1 \<le> k \<and> k \<le> MAX_BIP32_PATH \<and> 4 * k \<le> n")
  case True
  then obtain parsed where "path_loop 0 path k buf = Some parsed" "length parsed = length buf"
    using path_loop_total [of 0 k path buf] assms by auto
  then show ?thesis using True assms(2) by (auto simp: parse_bip32_path_def)
next
  case False
  then show ?thesis using assms(2) by (auto simp: parse_bip32_path_def)
qed

lemma length_path_bytes [simp]: "length (path_bytes path) = 4 * length path"
  by (induction path) (simp_all add: path_bytes_def)

section \<open>Compressed keys\<close>

lemma rev_map_nth_desc:
  assumes "length W = 65"
  shows "map (\<lambda>i. W ! (64 - i)) [0..<32] = rev (drop 33 W)"
  using assms by (intro nth_equalityI) (auto simp: rev_nth)

lemma or_top_bit_set: "128 \<le> unat b \<Longrightarrow> (b OR 0x80 :: u8) = b"
proof -
  assume "128 \<le> unat b"
  moreover have "unat b < 256" using unsigned_less [of b] by simp
  ultimately have "unat b div 2 ^ 7 = 1" by (intro div_nat_eqI) simp_all
  then have "bit (unat b) 7" by (simp add: bit_iff_odd)
  then have "bit b 7" by (simp add: bit_unsigned_iff)
  moreover have "bit (0x80 :: u8) k \<Longrightarrow> k = 7" for k
    using bit_exp_iff [of 7 k, where ?'a = u8] by simp
  ultimately have "bit (b OR 0x80) k \<longleftrightarrow> bit b k" for k unfolding bit_or_iff by blast
  then show ?thesis by (rule bit_eqI)
qed

lemma or_top_bit: "unat b < 128 \<Longrightarrow> unat (b OR 0x80 :: u8) = unat b + 128"
proof -
  assume b: "unat b < 128"
  have "\<not> bit (unat b) n" if "7 \<le> n" for n
  proof -
    have "(2::nat) ^ 7 \<le> 2 ^ n" using that by (intro power_increasing) simp_all
    then show ?thesis using b by (simp add: bit_iff_odd)
  qed
  then have "unat b OR 128 = unat b + 128"
    using bit_exp_iff [of 7, where ?'a = nat] by (intro disjunctive_add [symmetric]) fastforce
  then show ?thesis by (simp add: unsigned_or_eq)
qed

text \<open>
  C32. The compressed forms are the standard ones. For secp256k1, whatever the two coordinates of 32
  bytes, the x coordinate after a byte that tells the parity of y; for Ed25519, whose coordinates
  are below \<open>2 ^ 255\<close>, the byte \<open>ED\<close> and y in little-endian order with the parity of x in the top
  bit. A y of \<open>2 ^ 255\<close> or more is no coordinate of Ed25519; there the top bit is set already and
  stays set.
\<close>

theorem compress_public_key_encodes:
  assumes "length X = 32" and "length Y = 32"
  shows "xrp_compress_public_key CX_CURVE_256K1 (4 # X @ Y) =
       Some ((if odd (be_val Y) then 3 else 2) # X) \<and>
     (\<exists>out. xrp_compress_public_key CX_CURVE_Ed25519 (4 # X @ Y) = Some (0xED # out) \<and>
       length out = 32 \<and>
       (be_val Y < 2 ^ 255 \<longrightarrow> be_val (rev out) = be_val Y + (if odd (be_val X) then 2 ^ 255 else 0)) \<and>
       (\<not> be_val Y < 2 ^ 255 \<longrightarrow> out = rev Y))"
proof (rule conjI)
  have odd_last: "(last zs AND 1 \<noteq> 0) = odd (be_val zs)" if "zs \<noteq> []" for zs :: "u8 list"
  proof -
    have "be_val zs = 256 * be_val (butlast zs) + unat (last zs)"
      using that be_val_snoc [of "butlast zs" "last zs"] by simp
    moreover have "odd (last zs) = odd (unat (last zs))"
      using bit_unsigned_iff [of "last zs" 0, where ?'a = nat] by (simp add: bit_0)
    ultimately show ?thesis by (simp add: and_one_eq odd_iff_mod_2_eq_one [symmetric])
  qed
  have ne: "X \<noteq> []" "Y \<noteq> []" using assms by auto
  have lastX: "(X @ Y) ! 31 = last X" and lastY: "(X @ Y) ! 63 = last Y"
    using assms ne by (auto simp: nth_append last_conv_nth)
  show "xrp_compress_public_key CX_CURVE_256K1 (4 # X @ Y) = Some ((if odd (be_val Y) then 3 else 2) # X)"
    using assms odd_last [of Y] ne lastY by (auto simp: xrp_compress_public_key_def)
  obtain y ys where Y: "Y = y # ys" using assms(2) by (cases Y) auto
  have "256 ^ 31 * unat y \<le> be_val Y" using assms(2) Y by (simp add: be_val_Cons)
  then have small: "unat y < 128" if "be_val Y < 2 ^ 255" using that by simp
  have "be_val ys < 256 ^ 31" using assms(2) Y be_val_less [of ys] by simp
  then have large: "128 \<le> unat y" if "\<not> be_val Y < 2 ^ 255"
    using that assms(2) Y by (simp add: be_val_Cons)
  have y: "unat (y OR 0x80) = unat y + 128" if "be_val Y < 2 ^ 255"
    using or_top_bit small that by simp
  have y': "y OR 0x80 = y" if "\<not> be_val Y < 2 ^ 255"
    using or_top_bit_set large that by simp
  have d: "drop 33 (4 # X @ Y) = Y" using assms(1) by simp
  have map_eq: "map (\<lambda>i. (4 # X @ Y) ! (64 - i)) [0..<32] = rev Y"
    using rev_map_nth_desc [of "4 # X @ Y"] assms d by simp
  have top: "(0xED # rev Y)[32 := (0xED # rev Y) ! 32 OR 0x80] = 0xED # rev ((y OR 0x80) # ys)"
    using assms(2) Y by (simp add: list_update_append nth_append)
  show "\<exists>out. xrp_compress_public_key CX_CURVE_Ed25519 (4 # X @ Y) = Some (0xED # out) \<and>
       length out = 32 \<and>
       (be_val Y < 2 ^ 255 \<longrightarrow> be_val (rev out) = be_val Y + (if odd (be_val X) then 2 ^ 255 else 0)) \<and>
       (\<not> be_val Y < 2 ^ 255 \<longrightarrow> out = rev Y)"
  proof (cases "odd (be_val X)")
    case True
    then have "xrp_compress_public_key CX_CURVE_Ed25519 (4 # X @ Y) = Some (0xED # rev ((y OR 0x80) # ys))"
      using assms odd_last [of X] ne lastX top by (auto simp: xrp_compress_public_key_def Let_def map_eq)
    then show ?thesis
      using True assms(2) Y y y' by (intro exI [of _ "rev ((y OR 0x80) # ys)"]) (auto simp: be_val_Cons algebra_simps)
  next
    case False
    then have "xrp_compress_public_key CX_CURVE_Ed25519 (4 # X @ Y) = Some (0xED # rev Y)"
      using assms odd_last [of X] ne lastX by (auto simp: xrp_compress_public_key_def Let_def map_eq)
    then show ?thesis using False assms(2) by simp
  qed
qed

theorem compress_public_key_encodes_witness:
  "xrp_compress_public_key CX_CURVE_256K1 (4 # replicate 32 9 @ replicate 32 0xFF) = Some (3 # replicate 32 9) \<and>
   (\<exists>out. xrp_compress_public_key CX_CURVE_Ed25519 (4 # replicate 32 9 @ replicate 31 0 @ [7]) = Some (0xED # out) \<and>
     be_val (rev out) = 2 ^ 255 + 7)"
proof -
  have last: "replicate 32 b = replicate 31 b @ [b]" for b :: u8
    using replicate_append_same [of 31 b] by (simp only: replicate_Suc [symmetric] eval_nat_numeral) simp
  have odds: "odd (be_val (replicate 32 (9 :: u8)))" "odd (be_val (replicate 32 (0xFF :: u8)))"
    unfolding last be_val_snoc by simp_all
  have seven: "be_val (replicate 31 0 @ [7 :: u8]) = 7" by code_simp
  have "xrp_compress_public_key CX_CURVE_256K1 (4 # replicate 32 9 @ replicate 32 0xFF) = Some (3 # replicate 32 9)"
    by (rule compress_public_key_encodes [of "replicate 32 9" "replicate 32 0xFF", THEN conjunct1, unfolded if_P [OF odds(2)]])
      (rule length_replicate)+
  moreover have "length (replicate 31 0 @ [7 :: u8]) = 32" by (simp only: length_append length_replicate) simp
  note compress_public_key_encodes [of "replicate 32 9", OF length_replicate this, THEN conjunct2,
      unfolded seven if_P [OF odds(1)]]
  then have "\<exists>out. xrp_compress_public_key CX_CURVE_Ed25519 (4 # replicate 32 9 @ replicate 31 0 @ [7]) = Some (0xED # out) \<and>
     be_val (rev out) = 7 + 2 ^ 255" by (elim exE conjE) (intro exI conjI, assumption, simp)
  ultimately show ?thesis by (simp only: add.commute)
qed

section \<open>Correctness\<close>

text \<open>A device with constant digests, for the examples.\<close>

definition demo_sdk :: "unit sdk" where
  "demo_sdk =
     \<lparr>sdk_apdu_parser = (\<lambda>rx. length rx = 4 \<or> (5 \<le> length rx \<and> length rx = 5 + unat (rx ! 4))),
      sdk_str_to_u64 = (\<lambda>bs. if length bs \<le> 8 then Some (of_nat (be_val bs)) else None),
      sdk_SWO_INCORRECT_DATA = 1, sdk_SWO_WRONG_DATA_LENGTH = 2, sdk_version = (2, 0, 0),
      sdk_sha256 = (\<lambda>m. Some (replicate 32 (foldl (\<lambda>h b. 3 * h + b) 1 m))),
      sdk_ripemd160 = (\<lambda>m. Some (replicate 20 (foldl (\<lambda>h b. 5 * h + b) 1 m))),
      sdk_sha512 = (\<lambda>m. Some (replicate 64 (foldl (\<lambda>h b. 7 * h + b) 1 m))),
      sdk_pubkey = (\<lambda>c p. (0, 4 # replicate 64 (of_nat (length p)), replicate 32 1)),
      sdk_privkey = (\<lambda>c p. Some ()),
      sdk_pair = (\<lambda>c k. Some (4 # replicate 64 2)),
      sdk_ecdsa = (\<lambda>k m. Some (0x30 # take 8 m)),
      sdk_eddsa = (\<lambda>k m. Some (replicate 64 (foldl (+) 0 m)))\<rparr>"

lemma demo_sdk_contract: "sdk_contract demo_sdk"
  by (auto simp: sdk_contract_def demo_sdk_def)

text \<open>
  C29. The address of a key. On any 65-byte point \<open>get_address\<close> leaves in the address buffer the
  zero-terminated base58 text of the version byte, the key's RIPEMD-160 of SHA-256 and the
  four-byte double SHA-256 checksum.
\<close>

theorem get_address_correct:
  assumes "sdk_contract sdk" and "length W = 65" and "length address = XRP_ADDRESS_SIZE"
  shows "\<exists>p h buf. xrp_compress_public_key curve W = Some p \<and> xrp_public_key_hash160 sdk p = Some h \<and>
     get_address sdk curve W address = Some buf \<and> length buf = XRP_ADDRESS_SIZE \<and>
     cstr buf = address_of sdk h"
proof -
  obtain p where p: "xrp_compress_public_key curve W = Some p" using compress_total [OF assms(2)] by blast
  obtain h where h: "xrp_public_key_hash160 sdk p = Some h" using hash160 [OF assms(1)] .
  from get_address_text [OF assms(1) p h assms(3)] obtain rest
    where "get_address sdk curve W address = Some (address_of sdk h @ NUL # rest)"
      and "length (address_of sdk h @ NUL # rest) = XRP_ADDRESS_SIZE" by blast
  moreover have "cstr (address_of sdk h @ NUL # rest) = address_of sdk h"
    unfolding address_of_def by (rule cstr_append_NUL) (rule NUL_notin_base58)
  ultimately show ?thesis using p h by blast
qed

theorem get_address_correct_witness:
  "\<exists>buf. get_address demo_sdk CX_CURVE_256K1 (4 # replicate 64 0) (replicate 41 NUL) = Some buf \<and>
     cstr buf = address_of demo_sdk (replicate 20 (foldl (\<lambda>h b. 5 * h + b) 1
       (replicate 32 (foldl (\<lambda>h b. 3 * h + b) 1 (2 # replicate 32 0)))))"
  using get_address_correct [OF demo_sdk_contract, of "4 # replicate 64 0" "replicate 41 NUL" CX_CURVE_256K1]
  by (auto simp: xrp_compress_public_key_def xrp_public_key_hash160_def demo_sdk_def)

text \<open>
  C30. An address identifies its account: accounts whose encoded texts agree are equal, so a
  comparison of texts compares the accounts.
\<close>

theorem encoded_account_injective:
  assumes "sdk_contract sdk" and "length a = 20" and "length b = 20"
    and "length out = XRP_ADDRESS_SIZE" and "length out' = XRP_ADDRESS_SIZE"
    and "xrp_public_key_to_encoded_base58 sdk None (Some a) (Some out) 0 = Some (n, Some s)"
    and "xrp_public_key_to_encoded_base58 sdk None (Some b) (Some out') 0 = Some (n, Some t)"
    and "take n s = take n t"
  shows "a = b"
proof -
  have "n = length (address_of sdk a)" "take n s = address_of sdk a"
    using encoded_account [OF assms(1,2,4)] assms(6) by auto
  moreover have "n = length (address_of sdk b)" "take n t = address_of sdk b"
    using encoded_account [OF assms(1,3,5)] assms(7) by auto
  ultimately show ?thesis using address_of_inj [OF assms(1-3)] assms(8) by simp
qed

theorem encoded_account_injective_witness:
  "\<exists>n s. xrp_public_key_to_encoded_base58 demo_sdk None (Some (replicate 20 5)) (Some (replicate 41 NUL)) 0 =
      Some (n, Some s) \<and>
    (\<forall>b. length b = 20 \<longrightarrow>
      xrp_public_key_to_encoded_base58 demo_sdk None (Some b) (Some (replicate 41 NUL)) 0 = Some (n, Some s) \<longrightarrow>
      b = replicate 20 5)"
proof -
  have "xrp_public_key_to_encoded_base58 demo_sdk None (Some (replicate 20 5)) (Some (replicate 41 NUL)) 0 =
      Some (length (address_of demo_sdk (replicate 20 5)), Some (address_of demo_sdk (replicate 20 5) @
        drop (length (address_of demo_sdk (replicate 20 5))) (replicate 41 NUL)))"
    using encoded_account [OF demo_sdk_contract, of "replicate 20 5" "replicate 41 NUL"] by simp
  then show ?thesis
    using encoded_account_injective [OF demo_sdk_contract, of _ "replicate 20 5" "replicate 41 NUL" "replicate 41 NUL"]
    by (intro exI conjI allI impI) (assumption, simp)
qed

text \<open>
  C31. Derivation paths. The big-endian bytes of a path of one to ten elements are read back as
  that path, whatever follows them; a length byte outside this range, or one that announces more
  bytes than there are, is refused with the caller's array untouched.
\<close>

theorem parse_bip32_path_reads:
  assumes "length buf = MAX_BIP32_PATH"
  shows "parse_bip32_path (path_bytes path @ rest) (length path) n buf MAX_BIP32_PATH =
     (if path = [] \<or> MAX_BIP32_PATH < length path \<or> n < 4 * length path then Some (False, buf)
      else Some (True, path @ drop (length path) buf))"
  using assms path_loop_bytes [of 0 path buf "length path" rest]
  by (auto simp: parse_bip32_path_def Suc_le_eq)

theorem parse_bip32_path_reads_witness:
  "parse_bip32_path (path_bytes [0x8000002C, 0x80000090, 0] @ [1]) 3 13 (replicate 10 0) 10 =
     Some (True, [0x8000002C, 0x80000090, 0] @ replicate 7 0)"
  using parse_bip32_path_reads [of "replicate 10 0" "[0x8000002C, 0x80000090, 0]" "[1]" 13]
  by (simp add: numeral_eq_Suc)

end
