(* ===== verification/General.thy ===== *)
theory General
  imports Percentage Time_Format Flags Keys
begin

text \<open>
  The formatters of \<open>src/src/xrp/general.c\<close>: small numbers, transaction types, hashes, blobs,
  vectors and accounts. A pointer in a field is an index in the transaction's bytes, an
  argument here; \<open>sizeof(dst->buf)\<close> is the length of \<open>dst\<close>.
\<close>

section \<open>Numbers\<close>

definition uint8_formatter :: "field_t \<Rightarrow> string \<Rightarrow> string option" where
  "uint8_formatter field dst =
     Option.bind (data_u8 (fdata field)) (\<lambda>v. snprintf dst 0 (length dst) (print_dec (unat v)))"

definition transaction_names :: "(u16 \<times> string) list" where
  "transaction_names =
    [(TRANSACTION_INVALID, ''Sign In''),
     (TRANSACTION_PAYMENT, ''Payment''),
     (TRANSACTION_ESCROW_CREATE, ''Create Escrow''),
     (TRANSACTION_ESCROW_FINISH, ''Finish Escrow''),
     (TRANSACTION_ACCOUNT_SET, ''Account Setting''),
     (TRANSACTION_ESCROW_CANCEL, ''Cancel Escrow''),
     (TRANSACTION_SET_REGULAR_KEY, ''Set Regular Key''),
     (TRANSACTION_OFFER_CREATE, ''Create Offer''),
     (TRANSACTION_OFFER_CANCEL, ''Cancel Offer''),
     (TRANSACTION_TICKET_CREATE, ''Ticket Create''),
     (TRANSACTION_TICKET_CANCEL, ''Ticket Cancel''),
     (TRANSACTION_SIGNER_LIST_SET, ''Set Signer List''),
     (TRANSACTION_PAYMENT_CHANNEL_CREATE, ''Create Channel''),
     (TRANSACTION_PAYMENT_CHANNEL_FUND, ''Fund Channel''),
     (TRANSACTION_PAYMENT_CHANNEL_CLAIM, ''Channel Claim''),
     (TRANSACTION_CHECK_CREATE, ''Create Check''),
     (TRANSACTION_CHECK_CASH, ''Cash Check''),
     (TRANSACTION_CHECK_CANCEL, ''Cancel Check''),
     (TRANSACTION_DEPOSIT_PREAUTH, ''Preauth. Deposit''),
     (TRANSACTION_TRUST_SET, ''Set Trust Line''),
     (TRANSACTION_ACCOUNT_DELETE, ''Delete Account''),
     (TRANSACTION_NFTOKEN_MINT, ''NFToken Mint''),
     (TRANSACTION_NFTOKEN_BURN, ''NFToken Burn''),
     (TRANSACTION_NFTOKEN_CREATE_OFFER, ''NFToken Create Offer''),
     (TRANSACTION_NFTOKEN_CANCEL_OFFER, ''NFToken Cancel Offer''),
     (TRANSACTION_NFTOKEN_ACCEPT_OFFER, ''NFToken Accept Offer''),
     (TRANSACTION_CLAWBACK, ''Clawback''),
     (TRANSACTION_AMM_CREATE, ''AMM Create''),
     (TRANSACTION_AMM_DEPOSIT, ''AMM Deposit''),
     (TRANSACTION_AMM_WITHDRAW, ''AMM Withdraw''),
     (TRANSACTION_AMM_VOTE, ''AMM Vote''),
     (TRANSACTION_AMM_BID, ''AMM Bid''),
     (TRANSACTION_AMM_DELETE, ''AMM Delete'')]"

definition resolve_transaction_name :: "u16 \<Rightarrow> string" where
  "resolve_transaction_name v =
     (case map_of transaction_names v of Some name \<Rightarrow> name | None \<Rightarrow> ''Unknown'')"

definition uint16_formatter :: "field_t \<Rightarrow> string \<Rightarrow> string option" where
  "uint16_formatter field dst =
     Option.bind (data_u16 (fdata field)) (\<lambda>v.
       if is_transaction_type_field field
       then strncpy dst 0 (resolve_transaction_name v) (length dst)
       else snprintf dst 0 (length dst) (print_dec (unat v)))"

text \<open>\<open>tx\<close> is the transaction type, which \<open>format_flags\<close> reads from the parse context.\<close>

definition uint32_formatter :: "u16 \<Rightarrow> field_t \<Rightarrow> string \<Rightarrow> string option" where
  "uint32_formatter tx field dst =
     (if is_flag field then format_flags tx field dst
      else if is_time field then format_time field dst
      else if is_time_delta field then format_time_delta field dst
      else if is_percentage field then format_percentage field dst
      else Option.bind (data_u32 (fdata field)) (\<lambda>v.
             snprintf dst 0 (length dst) (print_dec (unat v))))"

section \<open>Bytes\<close>

text \<open>The hash formatters differ in the number of bytes only.\<close>

definition hash_formatter :: "nat \<Rightarrow> u8 list \<Rightarrow> field_t \<Rightarrow> string \<Rightarrow> string option" where
  "hash_formatter k bytes field dst =
     Option.bind (data_ptr (fdata field)) (\<lambda>p.
     Option.bind (peek bytes p k) (\<lambda>h.
     map_option snd (read_hex dst (length dst) h k)))"

definition hash_formatter128 :: "u8 list \<Rightarrow> field_t \<Rightarrow> string \<Rightarrow> string option" where
  "hash_formatter128 = hash_formatter 16"

definition hash_formatter256 :: "u8 list \<Rightarrow> field_t \<Rightarrow> string \<Rightarrow> string option" where
  "hash_formatter256 = hash_formatter 32"

definition should_format_blob_as_string :: "field_t \<Rightarrow> u8 list \<Rightarrow> bool" where
  "should_format_blob_as_string field blob \<longleftrightarrow>
     fld_id field \<in> {XRP_VL_DOMAIN, XRP_VL_MEMO_TYPE, XRP_VL_MEMO_FORMAT, XRP_VL_MEMO_DATA,
       XRP_VL_URI} \<and> is_purely_ascii blob False"

definition blob_formatter :: "u8 list \<Rightarrow> field_t \<Rightarrow> string \<Rightarrow> string option" where
  "blob_formatter bytes field dst =
     Option.bind (data_ptr (fdata field)) (\<lambda>p.
     Option.bind (peek bytes p (unat (fld_length field))) (\<lambda>blob.
       let max_size = length dst - 1; len = unat (fld_length field) in
       Option.bind
         (if should_format_blob_as_string field blob
          then map_option (Pair (len > max_size))
                 (poke dst 0 (map char_of_u8 (take (min max_size len) blob)))
          else map_option (\<lambda>(ok, dst). (\<not> ok, dst)) (read_hex dst max_size blob len))
         (\<lambda>(too_long, dst).
       Option.bind (poke dst max_size [NUL]) (\<lambda>dst.
       if too_long then strncpy dst (length dst - 4) ''...'' 4 else Some dst))))"

definition vector_formatter256 :: "field_t \<Rightarrow> string \<Rightarrow> string option" where
  "vector_formatter256 field dst =
     snprintf dst 0 (length dst) (print_dec (unat (fld_length field) div XRP_VECTOR256_SIZE))"

section \<open>Accounts\<close>

abbreviation (input) PAGE_W :: nat where "PAGE_W \<equiv> 16"
abbreviation (input) ADDR_DST_OFFSET :: nat where "ADDR_DST_OFFSET \<equiv> 16 * 3 + 2"

text \<open>
  The address is written to the \<open>xrp_address_t\<close> at \<open>dst + ADDR_DST_OFFSET\<close> and moved to the front
  from there, in three centred segments on a device that pages.
\<close>

definition account_formatter :: "target \<Rightarrow> 'key sdk \<Rightarrow> u8 list \<Rightarrow> field_t \<Rightarrow> string \<Rightarrow> string option" where
  "account_formatter tgt sdk bytes field dst =
     (if fdata field = DZero then strncpy dst 0 ''[empty]'' (length dst)
      else
        Option.bind (data_ptr (fdata field)) (\<lambda>ptr.
        Option.bind (peek bytes ptr XRP_ACCOUNT_SIZE) (\<lambda>account.
        Option.bind (peek dst ADDR_DST_OFFSET XRP_ADDRESS_SIZE) (\<lambda>address.
        Option.bind (xrp_public_key_to_encoded_base58 sdk None (Some account) (Some address) 0)
          (\<lambda>(addr_length, out).
        case out of None \<Rightarrow> None | Some address \<Rightarrow>
        Option.bind (poke dst ADDR_DST_OFFSET address) (\<lambda>dst.
        if DISPLAY_SEGMENTED_ADDR tgt \<and> addr_length \<le> PAGE_W * 3 then
          let base_segment_len = addr_length div 3;
              long_segment_len = addr_length - 2 * base_segment_len;
              base_padding = (PAGE_W - base_segment_len) div 2;
              long_padding = (PAGE_W - long_segment_len) div 2;
              p = ADDR_DST_OFFSET in
          Option.bind (memset dst 0 CHR '' '' (PAGE_W * 3)) (\<lambda>dst.
          Option.bind (memmove dst (PAGE_W * 0 + long_padding) p long_segment_len) (\<lambda>dst.
          Option.bind (memmove dst (PAGE_W * 1 + base_padding) (p + long_segment_len) base_segment_len) (\<lambda>dst.
          Option.bind (memmove dst (PAGE_W * 2 + base_padding) (p + long_segment_len + base_segment_len)
            base_segment_len) (\<lambda>dst.
          poke dst 48 [NUL]))))
        else
          Option.bind (memmove dst 0 ADDR_DST_OFFSET addr_length) (\<lambda>dst.
          poke dst addr_length [NUL])))))))"

section \<open>What they show\<close>

text \<open>
  \<open>holds n r s\<close>: a formatter succeeded and left a buffer of \<open>n\<close> characters with the text \<open>s\<close>,
  terminated in it. What is behind the terminator does not matter.
\<close>

definition holds :: "nat \<Rightarrow> string option \<Rightarrow> string \<Rightarrow> bool" where
  "holds n r s \<longleftrightarrow> (\<exists>buf. r = Some buf \<and> length buf = n \<and> NUL \<in> set buf \<and> cstr buf = s)"

lemma holds_padded: "NUL \<notin> set s \<Longrightarrow> length s < n \<Longrightarrow> holds n (Some (padded n s)) s"
  by (auto simp: holds_def padded_def cstr_padded [unfolded padded_def])

lemma holds_append: "NUL \<notin> set s \<Longrightarrow> length (s @ NUL # t) = n \<Longrightarrow> holds n (Some (s @ NUL # t)) s"
  by (auto simp: holds_def)

lemma snprintf_zeros: "length s < n \<Longrightarrow> snprintf (replicate n NUL) 0 n s = Some (padded n s)"
  using snprintf_padded [of "[]" s n] by (simp add: padded_def)

lemma length_print_u: "n < 2 ^ 32 \<Longrightarrow> length (print_dec n) \<le> 10"
  by (rule length_print_dec) simp_all

lemma uint8_formatter_spec:
  "fdata field = DU8 v \<Longrightarrow> 11 \<le> n \<Longrightarrow>
   uint8_formatter field (replicate n NUL) = Some (padded n (print_dec (unat v)))"
  using length_print_u [of "unat v"] unat_u8_less [of v]
  by (simp add: uint8_formatter_def snprintf_zeros)

lemma transaction_name_text:
  "NUL \<notin> set (resolve_transaction_name v)" "resolve_transaction_name v \<noteq> []"
  "length (resolve_transaction_name v) \<le> 20"
proof -
  have all: "list_all (\<lambda>(_, s). NUL \<notin> set s \<and> s \<noteq> [] \<and> length s \<le> 20) transaction_names"
    by code_simp
  have "NUL \<notin> set (resolve_transaction_name v) \<and> resolve_transaction_name v \<noteq> [] \<and>
      length (resolve_transaction_name v) \<le> 20"
  proof (cases "map_of transaction_names v")
    case (Some s)
    then have "(v, s) \<in> set transaction_names" by (rule map_of_SomeD)
    with all Some show ?thesis by (auto simp: resolve_transaction_name_def list_all_iff)
  qed (simp add: resolve_transaction_name_def)
  then show "NUL \<notin> set (resolve_transaction_name v)" "resolve_transaction_name v \<noteq> []"
    "length (resolve_transaction_name v) \<le> 20" by blast+
qed

definition uint16_text :: "field_t \<Rightarrow> u16 \<Rightarrow> string" where
  "uint16_text field v =
     (if is_transaction_type_field field then resolve_transaction_name v else print_dec (unat v))"

lemma uint16_formatter_spec:
  "fdata field = DU16 v \<Longrightarrow> 21 \<le> n \<Longrightarrow>
   uint16_formatter field (replicate n NUL) = Some (padded n (uint16_text field v))"
  using length_print_u [of "unat v"] unat_u16_less [of v] transaction_name_text [of v]
  by (simp add: uint16_formatter_def uint16_text_def snprintf_zeros strncpy_whole_fits)

text \<open>Flags (specification).\<close>

definition flags_text :: "u16 \<Rightarrow> u8 \<Rightarrow> u32 \<Rightarrow> string" where
  "flags_text tx i v =
     (case flag_table_of tx of
        None \<Rightarrow> ''No flags for transaction type '' @ print_dec (unat tx)
      | Some items \<Rightarrow>
          if tx = TRANSACTION_ACCOUNT_SET \<and> i \<noteq> XRP_UINT32_FLAGS
          then (case map_of account_set_field_flag_names v of
                  Some s \<Rightarrow> s | None \<Rightarrow> ''Unknown flag: '' @ print_dec (unat v))
          else if set_labels v items = [] then ''Unsupported value''
          else join_labels (set_labels v items))"

lemma account_set_names_text:
  "map_of account_set_field_flag_names v = Some s \<Longrightarrow> NUL \<notin> set s \<and> s \<noteq> [] \<and> length s < 128"
proof -
  have "list_all (\<lambda>(_, s). NUL \<notin> set s \<and> s \<noteq> [] \<and> length s < 128) account_set_field_flag_names"
    by code_simp
  moreover assume "map_of account_set_field_flag_names v = Some s"
  then have "(v, s) \<in> set account_set_field_flag_names" by (rule map_of_SomeD)
  ultimately show ?thesis by (auto simp: list_all_iff)
qed

lemma flags_text_props:
  "NUL \<notin> set (flags_text tx i v)" "flags_text tx i v \<noteq> []" "length (flags_text tx i v) < 128"
proof -
  have len: "length (print_dec (unat tx)) \<le> 10" "length (print_dec (unat v)) \<le> 10"
    using length_print_u [of "unat tx"] unat_u16_less [of tx] length_print_u [of "unat v"] by simp_all
  have "NUL \<notin> set (flags_text tx i v) \<and> flags_text tx i v \<noteq> [] \<and> length (flags_text tx i v) < 128"
  proof (cases "flag_table_of tx")
    case None
    then show ?thesis using len by (simp add: flags_text_def)
  next
    case (Some items)
    obtain known where t: "flag_table items known" by (rule flag_table_of_known [OF Some])
    show ?thesis
      using Some len account_set_names_text flag_table.NUL_notin_join [OF t, of v]
        flag_table.join_empty_iff [OF t, of v] flag_table.length_join [OF t, of v]
      by (cases "map_of account_set_field_flag_names v") (auto simp: flags_text_def)
  qed
  then show "NUL \<notin> set (flags_text tx i v)" "flags_text tx i v \<noteq> []" "length (flags_text tx i v) < 128"
    by blast+
qed

lemma format_flags_spec:
  assumes "fdata field = DU32 v" and "128 \<le> n"
  shows "format_flags tx field (replicate n NUL) = Some (padded n (flags_text tx (fld_id field) v))"
proof (cases "flag_table_of tx")
  case None
  then show ?thesis
    using flags_text_props(3) [of tx "fld_id field" v] assms flag_table_of_None [of tx]
    by (simp add: format_flags_def flags_text_def snprintf_zeros)
next
  case (Some items)
  show ?thesis
  proof (cases "tx = TRANSACTION_ACCOUNT_SET \<and> fld_id field \<noteq> XRP_UINT32_FLAGS")
    case False
    then have "format_flags tx field (replicate n NUL) =
        format_flags tx (field\<lparr>fld_id := XRP_UINT32_FLAGS\<rparr>) (replicate n NUL)"
      using assms(1) by (cases "tx = TRANSACTION_ACCOUNT_SET")
        (simp_all add: format_flags_def format_account_set_flags_def)
    also have "\<dots> = Some (padded n (flags_text tx (fld_id field) v))"
      using format_flags_table [OF Some, of "field\<lparr>fld_id := XRP_UINT32_FLAGS\<rparr>" v n] assms False Some
      by (auto simp: flags_text_def padded_def)
    finally show ?thesis .
  next
    case True
    define s where "s = (case map_of account_set_field_flag_names v of
        Some s \<Rightarrow> s | None \<Rightarrow> ''Unknown flag: '' @ print_dec (unat v))"
    have s: "flags_text tx (fld_id field) v = s" using True Some by (simp add: flags_text_def s_def)
    note props = flags_text_props [of tx "fld_id field" v, unfolded s]
    have "format_account_set_flags field v (replicate n NUL) = Some (padded n s)"
      using True props(3) assms(2)
      by (auto simp: format_account_set_flags_def format_account_set_field_flags_def s_def
        snprintf_zeros strncpy_whole_fits split: option.splits)
    moreover from props assms(2) obtain c where c: "peek (padded n s) 0 1 = Some [c]" "c \<noteq> NUL"
      by (cases s) (auto simp: padded_def peek_def)
    ultimately show ?thesis
      unfolding s using True assms(1) c(2)
      by (simp add: format_flags_def c(1) [unfolded One_nat_def] del: peek_eq_Some)
  qed
qed

section \<open>Numbers of 32 bits\<close>

definition uint32_text :: "u16 \<Rightarrow> field_t \<Rightarrow> u32 \<Rightarrow> string" where
  "uint32_text tx field v =
     (if is_flag field then flags_text tx (fld_id field) v
      else if is_time field then time_text (the (ripple_epoch_to_tm (uint v)))
      else if is_time_delta field then print_dec (unat v) @ '' s''
      else if is_percentage field then percentage_text (fld_id field) v
      else print_dec (unat v))"

lemma format_time_text:
  assumes "fdata field = DU32 v" and "24 \<le> n"
  shows "format_time field (replicate n NUL) = Some (padded n (time_text (the (ripple_epoch_to_tm (uint v)))))"
    and "NUL \<notin> set (time_text (the (ripple_epoch_to_tm (uint v))))"
    and "time_text (the (ripple_epoch_to_tm (uint v))) \<noteq> []"
    and "length (time_text (the (ripple_epoch_to_tm (uint v)))) \<le> 23"
proof -
  have "0 \<le> uint v" "uint v < 2 ^ 32" using uint_lt2p [of v] by simp_all
  from ripple_epoch_to_tm_spec [OF this] obtain tm where
    tm: "ripple_epoch_to_tm (uint v) = Some tm" "valid_time tm" "tm_year tm < 1000" by blast
  with print_time_spec [of tm n] time_text_props [of tm] assms
  show "format_time field (replicate n NUL) = Some (padded n (time_text (the (ripple_epoch_to_tm (uint v)))))"
    "NUL \<notin> set (time_text (the (ripple_epoch_to_tm (uint v))))"
    "time_text (the (ripple_epoch_to_tm (uint v))) \<noteq> []"
    "length (time_text (the (ripple_epoch_to_tm (uint v)))) \<le> 23"
    by (simp_all add: format_time_def)
qed

lemma uint32_formatter_spec:
  assumes "fdata field = DU32 v" and "128 \<le> n"
  shows "uint32_formatter tx field (replicate n NUL) = Some (padded n (uint32_text tx field v))"
    and "NUL \<notin> set (uint32_text tx field v)" and "uint32_text tx field v \<noteq> []"
    and "length (uint32_text tx field v) < 128"
proof -
  have len: "length (print_dec (unat v)) \<le> 10" using length_print_u [of "unat v"] by simp
  note t = format_time_text [OF assms(1), of n]
  note p = percentage_text_props [of "fld_id field" v]
  note f = flags_text_props [of tx "fld_id field" v]
  show "uint32_formatter tx field (replicate n NUL) = Some (padded n (uint32_text tx field v))"
    using assms len t(1) format_flags_spec [OF assms] format_percentage_spec [OF assms(1), of n]
    by (simp add: uint32_formatter_def uint32_text_def format_time_delta_def snprintf_zeros)
  show "NUL \<notin> set (uint32_text tx field v)" "uint32_text tx field v \<noteq> []"
    using t(2,3) p(1,2) f(1,2) assms(2) by (simp_all add: uint32_text_def)
  show "length (uint32_text tx field v) < 128"
    using t(4) p(3) f(3) assms(2) len by (simp add: uint32_text_def)
qed

end
