(* ===== verification/Byte_Fields.thy ===== *)
theory Byte_Fields
  imports General
begin

text \<open>
  What the formatters of hashes, blobs and accounts of \<open>General\<close> show, for a buffer of zeros of
  the size of either target.
\<close>

section \<open>Hashes\<close>

lemma take_hex_text: "hex_text (take k bs) = take (2 * k) (hex_text bs)"
proof (induction bs arbitrary: k)
  case (Cons b bs)
  then show ?case by (cases k) (simp_all add: hex_text_def)
qed (simp add: hex_text_def)

lemma read_hex_zeros:
  assumes "m \<le> n"
  shows "read_hex (replicate n NUL) m bs (length bs) =
     Some (length bs \<le> m div 2, padded n (hex_text (take (m div 2) bs)))"
  using read_hex_spec [of "length bs" bs m "replicate n NUL"] assms
  by (simp add: padded_def min_def)

lemma hash_formatter_spec:
  assumes "fdata field = DPtr p" and "p + k \<le> length bytes" and "2 * k < n"
  shows "hash_formatter k bytes field (replicate n NUL) =
     Some (padded n (hex_text (take k (drop p bytes))))"
proof -
  have pk: "peek bytes p k = Some (take k (drop p bytes))" using assms(2) by simp
  have l: "length (take k (drop p bytes)) = k" using assms(2) by simp
  show ?thesis
    unfolding hash_formatter_def assms(1) data_ptr.simps Option.bind.bind_lunit pk
    using read_hex_zeros [of n n "take k (drop p bytes)"] assms(3) l by simp
qed

section \<open>Blobs\<close>

text \<open>The whole text of a blob, and what of it is shown in \<open>n\<close> characters (specification).\<close>

definition blob_full_text :: "field_t \<Rightarrow> u8 list \<Rightarrow> string" where
  "blob_full_text field blob =
     (if should_format_blob_as_string field blob then map char_of_u8 blob else hex_text blob)"

definition blob_text :: "nat \<Rightarrow> field_t \<Rightarrow> u8 list \<Rightarrow> string" where
  "blob_text n field blob =
     (let s = blob_full_text field blob in if length s < n then s else take (n - 4) s @ ''...'')"

lemma NUL_notin_blob: "NUL \<notin> set (blob_full_text field blob)"
proof (cases "should_format_blob_as_string field blob")
  case True
  then have "\<forall>b \<in> set blob. 32 \<le> b \<and> b \<le> 126"
    by (simp add: should_format_blob_as_string_def is_purely_ascii_no_suffix)
  from NUL_notin_printable [OF this] True show ?thesis by (simp add: blob_full_text_def)
qed (simp add: blob_full_text_def)

lemma poke_last_padded: "length s < n \<Longrightarrow> poke (padded n s) (n - 1) [NUL] = Some (padded n s)"
proof -
  assume "length s < n"
  then obtain m where "n = length s + Suc m" by (metis add_Suc_right less_iff_Suc_add)
  moreover have "replicate (Suc m) NUL = replicate m NUL @ [NUL]" by (simp add: replicate_append_same)
  ultimately show ?thesis by (simp add: poke_def padded_def del: replicate_Suc)
qed

lemma ellipsis:
  assumes "length b = n" and "4 \<le> n"
  shows "Option.bind (poke b (n - 1) [NUL]) (\<lambda>dst. strncpy dst (length dst - 4) ''...'' 4) =
     Some (take (n - 4) b @ ''...'' @ [NUL])"
  using assms by (simp add: poke_def strncpy_def)

lemma blob_formatter_spec:
  assumes "fdata field = DPtr p" and "blob = take (unat (fld_length field)) (drop p bytes)"
    and "p + unat (fld_length field) \<le> length bytes" and "4 \<le> n"
  shows "holds n (blob_formatter bytes field (replicate n NUL)) (blob_text n field blob) \<and>
     length (blob_text n field blob) < n"
proof -
  let ?s = "blob_full_text field blob" and ?l = "unat (fld_length field)"
  have l: "length blob = ?l" using assms(2,3) by simp
  have pk: "peek bytes p ?l = Some blob" using assms(2,3) by simp
  define b where "b = (if should_format_blob_as_string field blob
    then padded n (map char_of_u8 (take (n - 1) blob)) else padded n (hex_text (take ((n - 1) div 2) blob)))"
  have step: "(if should_format_blob_as_string field blob
      then map_option (Pair (?l > n - 1)) (poke (replicate n NUL) 0 (map char_of_u8 (take (min (n - 1) ?l) blob)))
      else map_option (\<lambda>(ok, dst). (\<not> ok, dst)) (read_hex (replicate n NUL) (n - 1) blob ?l)) =
      Some (\<not> length ?s < n, b)"
  proof (cases "should_format_blob_as_string field blob")
    case True
    then show ?thesis
      using l assms(4) by (auto simp: b_def blob_full_text_def poke_def padded_def min_def)
  next
    case False
    have "?l \<le> (n - 1) div 2 \<longleftrightarrow> 2 * ?l < n" using assms(4) by auto
    then show ?thesis
      using False read_hex_zeros [of "n - 1" n blob] l by (simp add: b_def blob_full_text_def)
  qed
  have lb: "length b = n" using assms(4) by (simp add: b_def padded_def)
  show ?thesis
  proof (cases "length ?s < n")
    case True
    have "b = padded n ?s"
    proof (cases "should_format_blob_as_string field blob")
      case str: True
      with True show ?thesis by (simp add: b_def blob_full_text_def)
    next
      case False
      then have "length blob \<le> (n - 1) div 2" using True by (simp add: blob_full_text_def)
      with False show ?thesis by (simp add: b_def blob_full_text_def)
    qed
    then have "blob_formatter bytes field (replicate n NUL) = Some (padded n ?s)"
      unfolding blob_formatter_def assms(1) data_ptr.simps Option.bind.bind_lunit pk Let_def
        length_replicate step
      using True by (simp add: poke_last_padded [unfolded One_nat_def])
    then show ?thesis
      using True NUL_notin_blob [of field blob] by (simp add: blob_text_def holds_padded)
  next
    case False
    have b: "take (n - 4) b = take (n - 4) ?s"
    proof (cases "should_format_blob_as_string field blob")
      case True
      with False show ?thesis
        by (simp add: b_def blob_full_text_def padded_def take_map)
    next
      case hex: False
      have "n - 4 \<le> 2 * ((n - 1) div 2)" "2 * ((n - 1) div 2) \<le> length ?s" using False by linarith+
      with hex show ?thesis
        by (simp add: b_def blob_full_text_def padded_def take_hex_text)
    qed
    have "blob_formatter bytes field (replicate n NUL) = Some (take (n - 4) b @ ''...'' @ [NUL])"
      unfolding blob_formatter_def assms(1) data_ptr.simps Option.bind.bind_lunit pk Let_def
        length_replicate step
      using False ellipsis [OF lb assms(4)] by simp
    moreover have "NUL \<notin> set (take (n - 4) ?s @ ''...'')"
      using NUL_notin_blob [of field blob] by (auto dest: in_set_takeD)
    ultimately show ?thesis
      using False b assms(4) holds_append [of "take (n - 4) ?s @ ''...''" "[]" n]
      by (simp add: blob_text_def)
  qed
qed

section \<open>Vectors\<close>

lemma vector_formatter256_spec:
  assumes "11 \<le> n"
  shows "vector_formatter256 field (replicate n NUL) =
     Some (padded n (print_dec (unat (fld_length field) div 32)))"
proof -
  have "unat (fld_length field) div 32 \<le> unat (fld_length field)" "unat (fld_length field) < 65536"
    by (rule div_le_dividend, rule unat_u16_less)
  then have "unat (fld_length field) div 32 < 4294967296" by linarith
  then have "unat (fld_length field) div 32 < 2 ^ 32" by simp
  then show ?thesis
    using assms length_print_u [of "unat (fld_length field) div 32"]
    by (simp add: vector_formatter256_def snprintf_zeros)
qed

section \<open>Accounts\<close>

text \<open>A segment in the middle of a page, and an address on three pages (specification).\<close>

definition page :: "string \<Rightarrow> string" where
  "page s = (let pad = (16 - length s) div 2 in
     replicate pad CHR '' '' @ s @ replicate (16 - pad - length s) CHR '' '')"

definition segmented_text :: "string \<Rightarrow> string" where
  "segmented_text a =
     (let b = length a div 3; l = length a - 2 * b in
      page (take l a) @ page (take b (drop l a)) @ page (drop (l + b) a))"

definition account_text :: "target \<Rightarrow> 'key sdk \<Rightarrow> u8 list \<Rightarrow> string" where
  "account_text tgt sdk account =
     (let a = address_of sdk account in
      if DISPLAY_SEGMENTED_ADDR tgt then segmented_text a else a)"

lemma no_space_in_base58: "CHR '' '' \<notin> set (base58 bs)"
proof -
  have "bas_e58_alphabet ! d \<noteq> CHR '' ''" if "d \<in> set (digits58 (be_val bs))" for d
  proof -
    have "bas_e58_alphabet ! d \<in> set bas_e58_alphabet"
      using digits58_less [OF that] by (simp add: alphabet_length)
    moreover have "CHR '' '' \<notin> set bas_e58_alphabet" by code_simp
    ultimately show ?thesis by metis
  qed
  then show ?thesis by (force simp: base58_def)
qed

lemma filter_page: "CHR '' '' \<notin> set s \<Longrightarrow> filter (\<lambda>c. c \<noteq> CHR '' '') (page s) = s"
  by (auto simp: page_def Let_def filter_id_conv)

text \<open>The pages hold the whole address, in order.\<close>

lemma filter_segmented:
  assumes "CHR '' '' \<notin> set a"
  shows "filter (\<lambda>c. c \<noteq> CHR '' '') (segmented_text a) = a"
proof -
  let ?b = "length a div 3"
  let ?l = "length a - 2 * ?b"
  have "CHR '' '' \<notin> set (take ?l a)" "CHR '' '' \<notin> set (take ?b (drop ?l a))"
    "CHR '' '' \<notin> set (drop (?l + ?b) a)"
    using assms by (auto dest: in_set_takeD in_set_dropD)
  then have "filter (\<lambda>c. c \<noteq> CHR '' '') (segmented_text a) = take ?l a @ take ?b (drop ?l a) @ drop (?l + ?b) a"
    by (simp add: segmented_text_def Let_def filter_page)
  also have "\<dots> = a"
    by (metis append_take_drop_id drop_drop add.commute)
  finally show ?thesis .
qed

lemma length_page: "length s \<le> 16 \<Longrightarrow> length (page s) = 16"
  by (simp add: page_def Let_def)

lemma length_segmented: "length a \<le> 36 \<Longrightarrow> length (segmented_text a) = 48"
  by (auto simp: segmented_text_def Let_def length_page)

lemma NUL_notin_segmented: "NUL \<notin> set a \<Longrightarrow> NUL \<notin> set (segmented_text a)"
  by (auto simp: segmented_text_def page_def Let_def dest: in_set_takeD in_set_dropD)

text \<open>One of the moves from the address area, at 50, into the first three pages.\<close>

lemma move_segment:
  assumes "length w = 48" and "i + m \<le> 48" and "k + m \<le> length a"
  shows "memmove (w @ g @ a @ z) i (48 + length g + k) m =
     Some ((take i w @ take m (drop k a) @ drop (i + m) w) @ g @ a @ z)"
  using assms by (simp add: memmove_def peek_def poke_def)

lemma write_page:
  assumes "length s \<le> 16" and "pad = (16 - length s) div 2"
  shows "take pad (replicate 16 CHR '' '') @ s @ drop (pad + length s) (replicate 16 CHR '' '') = page s"
  using assms by (simp add: page_def Let_def min_def)

lemma length_put: "i + length s \<le> length w \<Longrightarrow> length (take i w @ s @ drop (i + length s) w) = length w"
  by simp

lemma three_pages:
  assumes "length s1 \<le> 16" and "length s2 \<le> 16" and "length s3 \<le> 16"
    and "p1 = (16 - length s1) div 2" and "p2 = 16 + (16 - length s2) div 2"
    and "p3 = 32 + (16 - length s3) div 2"
    and "w1 = take p1 (replicate 48 CHR '' '') @ s1 @ drop (p1 + length s1) (replicate 48 CHR '' '')"
    and "w2 = take p2 w1 @ s2 @ drop (p2 + length s2) w1"
    and "w3 = take p3 w2 @ s3 @ drop (p3 + length s3) w2"
  shows "w3 = page s1 @ page s2 @ page s3"
proof -
  let ?sp = "replicate 16 CHR '' ''"
  have r: "replicate 48 CHR '' '' = ?sp @ ?sp @ ?sp" by (simp flip: replicate_add)
  have w1: "w1 = page s1 @ ?sp @ ?sp"
    using assms(1,4) write_page [OF assms(1,4)] by (simp add: assms(7) r)
  have w2: "w2 = page s1 @ page s2 @ ?sp"
    using assms(1,2,5) write_page [OF assms(2) refl] by (simp add: assms(8) w1 length_page)
  show ?thesis
    using assms(1,2,3,6) write_page [OF assms(3) refl] by (simp add: assms(9) w2 length_page)
qed

lemma account_formatter_spec:
  assumes "sdk_contract sdk" and "fdata field = DPtr p" and "p + 20 \<le> length bytes" and "100 \<le> n"
    and "account = take 20 (drop p bytes)"
  shows "holds n (account_formatter tgt sdk bytes field (replicate n NUL)) (account_text tgt sdk account)"
proof -
  define a where "a = address_of sdk account"
  have la: "length account = 20" using assms(3,5) by simp
  have pk: "peek bytes p 20 = Some account" using assms(3,5) by simp
  have pa: "peek (replicate n NUL) ADDR_DST_OFFSET 41 = Some (replicate 41 NUL)"
    using assms(4) by (simp add: min_def)
  have enc: "xrp_public_key_to_encoded_base58 sdk None (Some account) (Some (replicate 41 NUL)) 0 =
      Some (length a, Some (padded 41 a))" and a: "length a \<le> 36"
    using encoded_account [OF assms(1) la, of "replicate 41 NUL"] by (auto simp: a_def padded_def)
  have nul: "NUL \<notin> set a" by (simp add: a_def address_of_def NUL_notin_base58)
  define z where "z = replicate (n - 50 - length a) NUL"
  define g where "g = replicate 2 NUL"
  have pk2: "poke (replicate n NUL) ADDR_DST_OFFSET (padded 41 a) = Some (replicate 50 NUL @ a @ z)"
    using assms(4) a by (simp add: poke_def padded_def z_def flip: replicate_add)
  have "account_formatter tgt sdk bytes field (replicate n NUL) =
     (if DISPLAY_SEGMENTED_ADDR tgt
      then Some (segmented_text a @ NUL # tl g @ a @ z)
      else Some (a @ NUL # drop (length a + 1) (replicate 50 NUL @ a @ z)))"
  proof (cases "DISPLAY_SEGMENTED_ADDR tgt")
    case False
    have mv: "memmove (replicate 50 NUL @ a @ z) 0 ADDR_DST_OFFSET (length a) =
        Some (a @ drop (length a) (replicate 50 NUL @ a @ z))"
      by (simp add: memmove_def peek_def poke_def)
    have e: "poke (a @ drop (length a) (replicate 50 NUL @ a @ z)) (length a) [NUL] =
        Some (a @ NUL # drop (length a + 1) (replicate 50 NUL @ a @ z))"
      using a poke_at_end [of "length a" "replicate 50 NUL @ a @ z" a NUL] by simp
    have not_null: "fdata field \<noteq> DZero" by (simp add: assms(2))
    show ?thesis
      unfolding account_formatter_def if_not_P [OF not_null] assms(2) data_ptr.simps
        Option.bind.bind_lunit pk pa enc prod.case option.case pk2
      using False mv e by (simp del: drop_append)
  next
    case True
    define b where "b = length a div 3"
    define l where "l = length a - 2 * b"
    let ?s1 = "take l a" and ?s2 = "take b (drop l a)" and ?s3 = "drop (l + b) a"
    let ?p1 = "(16 - l) div 2" and ?p2 = "16 + (16 - b) div 2" and ?p3 = "32 + (16 - b) div 2"
    have len: "l + b + b = length a" "l \<le> 16" "b \<le> 16"
      using a by (auto simp: b_def l_def)
    have ls: "length ?s1 = l" "length ?s2 = b" "length ?s3 = b" using len(1) by simp_all
    have pb: "?p1 + l \<le> 48" "?p2 + b \<le> 48" "?p3 + b \<le> 48" using len(2,3) by presburger+
    have s3: "take b ?s3 = ?s3" using ls(3) by simp
    define w0 where "w0 = replicate 48 CHR '' ''"
    define w1 where "w1 = take ?p1 w0 @ ?s1 @ drop (?p1 + l) w0"
    define w2 where "w2 = take ?p2 w1 @ ?s2 @ drop (?p2 + b) w1"
    define w3 where "w3 = take ?p3 w2 @ ?s3 @ drop (?p3 + b) w2"
    have lw0: "length w0 = 48" by (simp add: w0_def)
    have lw1: "length w1 = 48"
      unfolding w1_def using length_put [of ?p1 ?s1 w0] pb(1) unfolding ls lw0 by simp
    have lw2: "length w2 = 48"
      unfolding w2_def using length_put [of ?p2 ?s2 w1] pb(2) unfolding ls lw1 by simp
    have lw3: "length w3 = 48"
      unfolding w3_def using length_put [of ?p3 ?s3 w2] pb(3) unfolding ls lw2 by simp
    have w3: "w3 = segmented_text a"
    proof -
      have "w3 = page ?s1 @ page ?s2 @ page ?s3"
      proof (rule three_pages [where ?p1.0 = ?p1 and ?p2.0 = ?p2 and ?p3.0 = ?p3 and ?w1.0 = w1 and ?w2.0 = w2])
        show "length ?s1 \<le> 16" "length ?s2 \<le> 16" "length ?s3 \<le> 16" unfolding ls using len by simp_all
      qed (simp_all only: ls w0_def w1_def w2_def w3_def)
      then show ?thesis unfolding segmented_text_def Let_def b_def [symmetric] l_def [symmetric] .
    qed
    have m0: "memset (replicate 50 NUL @ a @ z) 0 CHR '' '' (PAGE_W * 3) = Some (w0 @ g @ a @ z)"
      by (simp add: memset_def poke_def w0_def g_def)
    have m1: "memmove (w0 @ g @ a @ z) (PAGE_W * 0 + ?p1) ADDR_DST_OFFSET l = Some (w1 @ g @ a @ z)"
      using move_segment [OF lw0, of ?p1 l 0 a g z] pb(1) len(1) by (simp add: w1_def g_def)
    have m2: "memmove (w1 @ g @ a @ z) (PAGE_W * 1 + (16 - b) div 2) (ADDR_DST_OFFSET + l) b = Some (w2 @ g @ a @ z)"
      using move_segment [OF lw1, of ?p2 b l a g z] pb(2) len(1) by (simp add: w2_def g_def)
    have m3: "memmove (w2 @ g @ a @ z) (PAGE_W * 2 + (16 - b) div 2) (ADDR_DST_OFFSET + l + b) b =
        Some (w3 @ g @ a @ z)"
      using move_segment [OF lw2, of ?p3 b "l + b" a g z] pb(3) len(1) s3 by (simp add: w3_def g_def add.assoc)
    have e: "poke (w3 @ g @ a @ z) 48 [NUL] = Some (w3 @ NUL # tl g @ a @ z)"
      using lw3 by (simp add: poke_def g_def numeral_2_eq_2)
    have not_null: "fdata field \<noteq> DZero" by (simp add: assms(2))
    have seg: "DISPLAY_SEGMENTED_ADDR tgt \<and> length a \<le> PAGE_W * 3" using True a by simp
    show ?thesis
      unfolding account_formatter_def if_not_P [OF not_null] assms(2) data_ptr.simps
        Option.bind.bind_lunit pk pa enc prod.case option.case pk2 if_P [OF seg] Let_def
        b_def [symmetric] l_def [symmetric] m0 m1 m2 m3 e
      using True w3 by simp
  qed
  then show ?thesis
    using a nul NUL_notin_segmented [OF nul] length_segmented [OF a] assms(4)
    by (auto simp: account_text_def a_def [symmetric] Let_def g_def z_def intro!: holds_append)
qed

lemma account_text_props:
  assumes "sdk_contract sdk" and "length account = 20"
  shows "account_text tgt sdk account \<noteq> []" and "length (account_text tgt sdk account) \<le> 48"
    and "filter (\<lambda>c. c \<noteq> CHR '' '') (account_text tgt sdk account) = address_of sdk account"
proof -
  let ?a = "address_of sdk account"
  have a: "length ?a \<le> 36" using encoded_account [OF assms, of "replicate 41 NUL"] by auto
  have s: "CHR '' '' \<notin> set ?a" by (simp add: address_of_def no_space_in_base58)
  show f: "filter (\<lambda>c. c \<noteq> CHR '' '') (account_text tgt sdk account) = ?a"
    using filter_segmented [OF s] s by (auto simp: account_text_def Let_def filter_id_conv)
  show "length (account_text tgt sdk account) \<le> 48"
    using length_segmented [OF a] a by (simp add: account_text_def Let_def)
  show "account_text tgt sdk account \<noteq> []"
    using f address_nonempty [of sdk account] by auto
qed

end
