(* ===== verification/Print_Amount.thy ===== *)
theory Print_Amount
  imports Decimal
begin

text \<open>
  The XRP amounts of \<open>src/src/xrp/xrp_helpers.c\<close>: \<open>adjust_decimals\<close> puts the decimal point into
  the digits of a number of drops, \<open>xrp_print_amount\<close> prints an amount with its currency. The
  lengths are \<open>uint32_t\<close> in the code, of buffers of a few bytes; they are natural numbers here.
\<close>

section \<open>The code\<close>

text \<open>
  The loop of \<open>adjust_decimals\<close> that looks for the zeros at the end: \<open>last_zero_offset\<close> after the
  characters from \<open>start\<close> to \<open>offset\<close>.
\<close>

definition last_zero :: "string \<Rightarrow> nat \<Rightarrow> nat \<Rightarrow> nat" where
  "last_zero target start offset =
     foldl (\<lambda>last_zero_offset i.
              if target ! i = CHR ''0''
              then (if last_zero_offset = 0 then i else last_zero_offset)
              else 0) 0 [start..<offset]"

text \<open>
  \<open>target\<close> is the memory from the pointer on; the copying loops are \<open>memcpy\<close>s. The result is
  the returned flag and the memory after it.
\<close>

definition drop_last_zeros :: "string \<Rightarrow> nat \<Rightarrow> nat \<Rightarrow> string option" where
  "drop_last_zeros target start offset =
     (let last_zero_offset = last_zero target start offset in
      if last_zero_offset \<noteq> 0
      then Option.bind (poke target last_zero_offset [NUL]) (\<lambda>target.
           if target ! (last_zero_offset - 1) = CHR ''.''
           then poke target (last_zero_offset - 1) [NUL] else Some target)
      else Some target)"

definition adjust_decimals ::
  "string \<Rightarrow> nat \<Rightarrow> string \<Rightarrow> nat \<Rightarrow> nat \<Rightarrow> (bool \<times> string) option" where
  "adjust_decimals src src_length target target_length decimals =
     Option.bind (peek src 0 src_length) (\<lambda>digits.
       if src_length = 1 \<and> digits = ''0'' then
         if target_length < 2 then Some (False, target)
         else map_option (Pair True) (poke target 0 (''0'' @ [NUL]))
       else if src_length \<le> decimals then
         let delta = decimals - src_length in
         if target_length < src_length + 1 + 2 + delta then Some (False, target)
         else
           Option.bind (poke target 0 ''0.'') (\<lambda>target.
           Option.bind (memset target 2 CHR ''0'' delta) (\<lambda>target.
           Option.bind (poke target (2 + delta) (digits @ [NUL])) (\<lambda>target.
           map_option (Pair True) (drop_last_zeros target (2 + delta) (2 + delta + src_length)))))
       else
         let delta = src_length - decimals in
         if target_length < src_length + 1 + 1 then Some (False, target)
         else
           let point = (if decimals \<noteq> 0 then ''.'' else []);
               start = delta + length point in
           Option.bind (poke target 0 (take delta digits @ point)) (\<lambda>target.
           Option.bind (poke target start (drop delta digits @ [NUL])) (\<lambda>target.
           map_option (Pair True) (drop_last_zeros target start (start + decimals)))))"

text \<open>
  The counting loop of \<open>xrp_print_amount\<close>: the power of ten above \<open>amount\<close> and its exponent, or
  the error \<open>-1\<close> when the digits would not fit into \<open>tmp[20]\<close>.
\<close>

function count_digits :: "u64 \<Rightarrow> nat \<Rightarrow> u64 \<Rightarrow> int + u64 \<times> nat" where
  "count_digits base n amount =
     (if base \<le> amount
      then if n + 1 > 20 - 1 then Inl (-1) else count_digits (base * 10) (n + 1) amount
      else Inr (base, n))"
  by pat_completeness auto
termination
  by (relation "measure (\<lambda>(_, n, _). 20 - n)") auto

declare count_digits.simps [simp del]

text \<open>
  \<open>tmp\<close> and \<open>tmp2\<close> are the local buffers of 20 and 25 bytes; the code reads none of their bytes
  before it has written it. \<open>outlen\<close> is a \<open>size_t\<close>, so \<open>outlen - 1\<close> wraps.
\<close>

definition xrp_print_amount :: "u64 \<Rightarrow> string \<Rightarrow> nat \<Rightarrow> (int \<times> string) option" where
  "xrp_print_amount amount out outlen =
     (case count_digits 1 0 amount of
        Inl e \<Rightarrow> Some (e, out)
      | Inr (base, n) \<Rightarrow>
          Option.bind (write_digits n amount (base div 10) 0 (replicate 20 NUL)) (\<lambda>tmp.
          Option.bind (poke tmp n [NUL]) (\<lambda>tmp.
          Option.bind (strncpy (replicate 25 NUL) 0 ''XRP '' 25) (\<lambda>tmp2.
          Option.bind (adjust_decimals tmp n (drop 4 tmp2) (25 - 4) 6) (\<lambda>(ok, target).
            if \<not> ok then Some (-1, out)
            else let tmp2 = take 4 tmp2 @ target in
              Option.bind (strlen tmp2) (\<lambda>l.
                if l \<ge> (outlen + 2 ^ 32 - 1) mod 2 ^ 32
                then map_option (Pair (-1)) (poke out 0 [NUL])
                else map_option (Pair 0) (strncpy out 0 (cstr tmp2) outlen)))))))"

section \<open>The decimal point\<close>

lemma last_zero_strip:
  assumes "0 < start" and "\<forall>i < length s. target ! (start + i) = s ! i"
  shows "last_zero target start (start + length s) =
     (if strip_zeros s = s then 0 else start + length (strip_zeros s))"
  using assms(2)
proof (induction s rule: rev_induct)
  case (snoc c s)
  have "\<forall>i < length s. target ! (start + i) = s ! i"
    using snoc.prems by (auto simp: nth_append dest: spec [of _ "i" for i])
  then have IH: "last_zero target start (start + length s) =
      (if strip_zeros s = s then 0 else start + length (strip_zeros s))" by (rule snoc.IH)
  have c: "target ! (start + length s) = c" using snoc.prems by (simp add: nth_append)
  have step: "last_zero target start (start + length (s @ [c])) =
      (if c = CHR ''0''
       then (if last_zero target start (start + length s) = 0 then start + length s
             else last_zero target start (start + length s))
       else 0)"
    by (simp add: last_zero_def c)
  have "strip_zeros s \<noteq> s @ [c]" using length_strip_zeros [of s] by auto
  then show ?case using step IH assms(1) by auto
qed (simp add: last_zero_def)

lemma nth_middle: "i < length s \<Longrightarrow> (pre @ s @ post) ! (length pre + i) = s ! i"
  by (simp add: nth_append)

lemma cstr_cut: "NUL \<notin> set s \<Longrightarrow> cstr (s @ NUL # t) = s"
  by simp

text \<open>The zeros at the end go, and a point before them.\<close>

lemma drop_last_zeros_spec:
  assumes "NUL \<notin> set pre" and "pre \<noteq> []" and "list_all is_digit s"
  shows "\<exists>t. drop_last_zeros (pre @ s @ NUL # rest) (length pre) (length pre + length s) = Some t \<and>
      length t = length (pre @ s @ NUL # rest) \<and> NUL \<in> set t \<and>
      cstr t = (if strip_zeros s = [] \<and> s \<noteq> [] \<and> last pre = CHR ''.'' then butlast pre
                else pre @ strip_zeros s)"
proof -
  let ?s = "strip_zeros s" and ?T = "pre @ s @ NUL # rest"
  have z: "last_zero ?T (length pre) (length pre + length s) =
      (if ?s = s then 0 else length pre + length ?s)"
    using assms(2) by (intro last_zero_strip) (auto simp: nth_append)
  have nz: "NUL \<notin> set s" using assms(3) by (auto simp: list_all_iff)
  show ?thesis
  proof (cases "?s = s")
    case True
    have "drop_last_zeros ?T (length pre) (length pre + length s) = Some ?T"
      unfolding drop_last_zeros_def z Let_def by (simp add: True)
    moreover have "cstr ?T = pre @ s"
      using assms(1) nz cstr_append_NUL [of "pre @ s" rest] by simp
    ultimately show ?thesis using True by auto
  next
    case False
    define zs where "zs = replicate (length s - length ?s) CHR ''0''"
    have f: "s = ?s @ zs" unfolding zs_def by (rule strip_zeros_split)
    with False have "zs \<noteq> []" by auto
    then obtain z zs' where zs: "zs = z # zs'" by (cases zs) auto
    let ?T1 = "(pre @ ?s) @ NUL # zs' @ NUL # rest"
    have T: "?T = (pre @ ?s) @ z # zs' @ NUL # rest" using f zs by simp
    have len: "length ?T1 = length ?T" by (simp add: T)
    have poke1: "poke ?T (length pre + length ?s) [NUL] = Some ?T1"
      unfolding T by (simp add: poke_def)
    show ?thesis
    proof (cases "?s = [] \<and> last pre = CHR ''.''")
      case True
      then obtain u where u: "pre = u @ ''.''" using assms(2) by (metis append_butlast_last_id)
      let ?T2 = "u @ NUL # NUL # zs' @ NUL # rest"
      have "drop_last_zeros ?T (length pre) (length pre + length s) = Some ?T2"
        unfolding drop_last_zeros_def z Let_def using False True poke1 u
        by (simp add: poke_def)
      moreover have "cstr ?T2 = u" using assms(1) u by simp
      moreover have "length ?T2 = length ?T" using len True u by simp
      ultimately show ?thesis using True False u by auto
    next
      case other: False
      have "(pre @ ?s) ! (length (pre @ ?s) - 1) = last (pre @ ?s)"
        using assms(2) by (intro last_conv_nth [symmetric]) simp
      then have "?T1 ! (length pre + length ?s - 1) = last (pre @ ?s)"
        using assms(2) nth_append [of "pre @ ?s" "NUL # zs' @ NUL # rest" "length pre + length ?s - 1"]
        by simp
      moreover have "last (pre @ ?s) \<noteq> CHR ''.''"
      proof (cases "?s = []")
        case True
        then show ?thesis using other by simp
      next
        case nonempty: False
        then have "last ?s \<in> set s" using set_strip_zeros [of s] by auto
        then have "is_digit (last ?s)" using assms(3) by (simp add: list_all_iff)
        then show ?thesis using nonempty by auto
      qed
      ultimately have "drop_last_zeros ?T (length pre) (length pre + length s) = Some ?T1"
        unfolding drop_last_zeros_def z Let_def using False poke1 assms(2) by simp
      moreover have "cstr ?T1 = pre @ ?s"
        using assms(1) nz set_strip_zeros [of s] by (intro cstr_append_NUL) auto
      ultimately show ?thesis using other len by auto
    qed
  qed
qed

lemma strip_zeros_append: "strip_zeros t \<noteq> [] \<Longrightarrow> strip_zeros (s @ t) = s @ strip_zeros t"
  by (induction t rule: rev_induct) (auto simp flip: append_assoc)

lemma strip_zeros_nonempty: "hd s \<noteq> CHR ''0'' \<Longrightarrow> s \<noteq> [] \<Longrightarrow> strip_zeros s \<noteq> []"
  by (cases s) (auto simp: strip_zeros_def)

text \<open>The text of a number given by its digits, \<open>d\<close> of them after the point (specification).\<close>

definition point_text :: "nat \<Rightarrow> string \<Rightarrow> string" where
  "point_text d s =
     (if s = [] then ''0.'' @ replicate d CHR ''0''
      else if length s \<le> d then trim_text ''0'' (replicate (d - length s) CHR ''0'' @ s)
      else trim_text (take (length s - d) s) (drop (length s - d) s))"

lemma adjust_small:
  assumes "list_all is_digit s" and "s \<noteq> [] \<Longrightarrow> hd s \<noteq> CHR ''0''" and "length s \<le> d"
    and "length s \<le> length src" and "take (length s) src = s"
    and "d + 3 \<le> length target"
  shows "\<exists>t. adjust_decimals src (length s) target (length target) d = Some (True, t) \<and>
      length t = length target \<and> NUL \<in> set t \<and> cstr t = point_text d s"
proof -
  define e where "e = d - length s"
  have d: "d = length s + e" using assms(3) by (simp add: e_def)
  let ?z = "replicate e CHR ''0''"
  let ?pre = "''0.'' @ ?z" and ?rest = "drop (d + 3) target"
  have s0: "s \<noteq> ''0''" using assms(2) by auto
  have l: "length ?pre = 2 + e" by simp
  have build: "Option.bind (poke target 0 ''0.'') (\<lambda>t. Option.bind (memset t 2 CHR ''0'' e) (\<lambda>t.
      Option.bind (poke t (2 + e) (s @ [NUL])) f)) = f (?pre @ s @ NUL # ?rest)" for f
    using assms(6) unfolding memset_def by (simp add: poke_merge) (simp add: poke_def d numeral_3_eq_3 add.commute)
  have run: "adjust_decimals src (length s) target (length target) d =
      map_option (Pair True) (drop_last_zeros (?pre @ s @ NUL # ?rest) (length ?pre) (length ?pre + length s))"
    unfolding adjust_decimals_def l using assms(4,5,6) s0 build
    by (simp add: peek_def Let_def d)
  have pz: "NUL \<notin> set ?pre" "?pre \<noteq> []" by auto
  obtain t where t: "drop_last_zeros (?pre @ s @ NUL # ?rest) (length ?pre) (length ?pre + length s) = Some t"
    "length t = length (?pre @ s @ NUL # ?rest)" "NUL \<in> set t"
    "cstr t = (if strip_zeros s = [] \<and> s \<noteq> [] \<and> last ?pre = CHR ''.'' then butlast ?pre
                else ?pre @ strip_zeros s)"
    using drop_last_zeros_spec [OF pz assms(1), of ?rest] by blast
  have "cstr t = point_text d s"
  proof (cases "s = []")
    case True
    then show ?thesis by (simp only: t(4)) (simp add: point_text_def d)
  next
    case False
    then have "strip_zeros s \<noteq> []" using strip_zeros_nonempty assms(2) by blast
    then show ?thesis
      using False assms(3) strip_zeros_append [of s ?z]
      by (simp only: t(4)) (simp add: point_text_def trim_text_def d)
  qed
  moreover have "length t = length target" using t(2) assms(6) by (simp add: d)
  ultimately show ?thesis using run t by simp
qed

lemma adjust_large:
  assumes "list_all is_digit s" and "s \<noteq> ''0''" and "d < length s"
    and "length s \<le> length src" and "take (length s) src = s"
    and "length s + 2 \<le> length target"
  shows "\<exists>t. adjust_decimals src (length s) target (length target) d = Some (True, t) \<and>
      length t = length target \<and> NUL \<in> set t \<and> cstr t = point_text d s"
proof -
  define k where "k = length s - d"
  have ls: "length s = k + d" and k0: "0 < k" using assms(3) by (simp_all add: k_def)
  define pt where "pt = (if d \<noteq> 0 then ''.'' else [])"
  let ?pre = "take k s @ pt" and ?seg = "drop k s"
  let ?rest = "drop (length ?pre + length ?seg + 1) target"
  have l: "length ?pre = k + length pt" using ls by simp
  have lseg: "length ?seg = d" using ls by simp
  have fit: "length ?pre + d + 1 \<le> length target" using assms(6) ls by (simp add: pt_def)
  have build: "Option.bind (poke target 0 ?pre) (\<lambda>t. Option.bind (poke t (k + length pt) (?seg @ [NUL])) f) =
      f (?pre @ ?seg @ NUL # ?rest)" for f
    using fit lseg ls by (subst poke_merge) (simp_all add: poke_def add.assoc)
  have run: "adjust_decimals src (length s) target (length target) d =
      map_option (Pair True) (drop_last_zeros (?pre @ ?seg @ NUL # ?rest) (length ?pre) (length ?pre + d))"
    unfolding adjust_decimals_def Let_def pt_def [symmetric] l using assms(2,4,5,6) k0 build
    by (simp add: peek_def ls)
  have dig: "list_all is_digit (take k s)" "list_all is_digit ?seg"
    using assms(1) by (auto simp: list_all_iff dest: in_set_takeD in_set_dropD)
  have pz: "NUL \<notin> set ?pre" "?pre \<noteq> []" using NUL_notin_digits [OF dig(1)] k0 ls by (auto simp: pt_def)
  obtain t where t: "drop_last_zeros (?pre @ ?seg @ NUL # ?rest) (length ?pre) (length ?pre + d) = Some t"
    "length t = length (?pre @ ?seg @ NUL # ?rest)" "NUL \<in> set t"
    "cstr t = (if strip_zeros ?seg = [] \<and> ?seg \<noteq> [] \<and> last ?pre = CHR ''.'' then butlast ?pre
                else ?pre @ strip_zeros ?seg)"
    using drop_last_zeros_spec [OF pz dig(2), of ?rest] lseg by auto
  have "cstr t = point_text d s"
    using k0 ls by (simp only: t(4)) (auto simp: point_text_def trim_text_def pt_def)
  moreover have "length t = length target" using t(2) fit lseg by simp
  ultimately show ?thesis using run t by simp
qed

lemma read_point_text:
  assumes "list_all is_digit s" and "0 < d"
  shows "read_decimal (point_text d s) = Some (of_nat (dec_val s) / 10 ^ d)"
proof -
  consider "s = []" | "s \<noteq> []" "length s \<le> d" | "d < length s" by linarith
  then show ?thesis
  proof cases
    case 1
    have "list_all is_digit (replicate d CHR ''0'')" by (simp add: list_all_iff)
    then show ?thesis
      using 1 assms(2) read_point [of "''0''" "replicate d CHR ''0''"] read_decimal_unsigned [of "''0''"]
      by (simp add: point_text_def digit_val_def)
  next
    case 2
    have "list_all is_digit (replicate (d - length s) CHR ''0'' @ s)"
      using assms(1) by (auto simp: list_all_iff)
    then show ?thesis
      using 2 read_decimal_trim_text [of "''0''" "replicate (d - length s) CHR ''0'' @ s"]
      by (simp add: point_text_def dec_val_append digit_val_def)
  next
    case 3
    let ?k = "length s - d"
    have dig: "list_all is_digit (take ?k s)" "list_all is_digit (drop ?k s)"
      using assms(1) by (auto simp: list_all_iff dest: in_set_takeD in_set_dropD)
    have "dec_val s = dec_val (take ?k s) * 10 ^ d + dec_val (drop ?k s)"
      using dec_val_append [of "take ?k s" "drop ?k s"] 3 by simp
    then have "(of_nat (dec_val s) / 10 ^ d :: rat) =
        of_nat (dec_val (take ?k s)) + of_nat (dec_val (drop ?k s)) / 10 ^ d"
      by (simp add: add_divide_distrib)
    then show ?thesis
      using 3 read_decimal_trim_text [OF dig(1) _ dig(2)] by (auto simp: point_text_def)
  qed
qed

lemma set_point_text: "c \<in> set (point_text d s) \<Longrightarrow> c \<in> set s \<or> c = CHR ''0'' \<or> c = CHR ''.''"
  using set_strip_zeros
  by (fastforce simp: point_text_def trim_text_def split: if_splits dest: in_set_takeD in_set_dropD)

lemma length_point_text: "0 < d \<Longrightarrow> length (point_text d s) \<le> max (length s) (d + 1) + 1"
  using length_trim_text [of "''0''" "replicate (d - length s) CHR ''0'' @ s"]
    length_trim_text [of "take (length s - d) s" "drop (length s - d) s"]
  by (auto simp: point_text_def)

section \<open>Amounts\<close>

lemma count_digits_spec:
  assumes "n \<le> 19" and "n \<le> num_digits (unat v)"
  shows "count_digits (10 ^ n) n v =
     (if num_digits (unat v) \<le> 19 then Inr (10 ^ num_digits (unat v), num_digits (unat v)) else Inl (-1))"
  using assms
proof (induction "19 - n" arbitrary: n)
  case 0
  then have "n = 19" by simp
  with 0 show ?case
    using base_le_iff [of 19 v] by (subst count_digits.simps) (auto simp del: power_numeral_even power_numeral_odd)
next
  case (Suc k)
  then have n: "n < 19" by simp
  from Suc have IH: "count_digits (10 ^ Suc n) (Suc n) v = 
     (if num_digits (unat v) \<le> 19 then Inr (10 ^ num_digits (unat v), num_digits (unat v)) else Inl (-1))"
    if "n < num_digits (unat v)" using that by (intro Suc.hyps(1)) auto
  show ?case
  proof (cases "n < num_digits (unat v)")
    case True
    then have "count_digits (10 ^ n) n v = count_digits (10 ^ n * 10) (n + 1) v"
      using base_le_iff [of n v] n by (subst count_digits.simps) simp
    with IH [OF True] show ?thesis by (simp add: mult.commute)
  next
    case False
    with Suc show ?thesis using base_le_iff [of n v] by (subst count_digits.simps) auto
  qed
qed

text \<open>The text of an amount of drops (specification).\<close>

definition xrp_text :: "nat \<Rightarrow> string" where
  "xrp_text drops = ''XRP '' @ point_text 6 (dec_digits (num_digits drops) drops)"

lemma NUL_notin_xrp_text [simp]: "NUL \<notin> set (xrp_text n)"
  using set_point_text set_dec_digits by (fastforce simp: xrp_text_def)

lemma xrp_text_nonempty [simp]: "xrp_text n \<noteq> []"
  by (simp add: xrp_text_def)

lemma length_xrp_text: "n < 10 ^ 19 \<Longrightarrow> length (xrp_text n) \<le> 24"
proof -
  assume "n < 10 ^ 19"
  then have "num_digits n \<le> 19" by (simp add: num_digits_le_iff)
  then show ?thesis
    using length_point_text [of 6 "dec_digits (num_digits n) n"] by (simp add: xrp_text_def)
qed

lemma xrp_print_amount_spec:
  assumes "length out = outlen" and "26 \<le> outlen" and "outlen < 2 ^ 32"
  shows "xrp_print_amount amount out outlen =
     (if unat amount < 10 ^ 19 then Some (0, padded outlen (xrp_text (unat amount))) else Some (-1, out))"
proof -
  let ?n = "num_digits (unat amount)" and ?s = "dec_digits (num_digits (unat amount)) (unat amount)"
  have count: "count_digits 1 0 amount = (if ?n \<le> 19 then Inr (10 ^ ?n, ?n) else Inl (-1))"
    using count_digits_spec [of 0 amount] by simp
  show ?thesis
  proof (cases "?n \<le> 19")
    case False
    then show ?thesis using count by (simp add: xrp_print_amount_def num_digits_le_iff)
  next
    case True
    let ?tmp = "replicate 20 NUL"
    have w: "write_digits ?n amount (10 ^ ?n div 10) 0 ?tmp = Some (?s @ drop ?n ?tmp)"
    proof (cases ?n)
      case (Suc k)
      then have "(10 ^ ?n :: u64) div 10 = 10 ^ k"
        using True pow10_div [of k] by simp
      then show ?thesis
        using Suc True write_digits_spec [of k 0 ?tmp amount] by simp
    qed simp
    define tmp where "tmp = ?s @ NUL # drop (?n + 1) ?tmp"
    have p: "poke (?s @ drop ?n ?tmp) ?n [NUL] = Some tmp"
      using True by (simp add: poke_def tmp_def)
    have t2: "strncpy (replicate 25 NUL) 0 ''XRP '' 25 = Some (''XRP '' @ replicate 21 NUL)"
      by (simp add: strncpy_def poke_def)
    let ?target = "replicate 21 NUL"
    have dig: "list_all is_digit ?s" by simp
    have h: "hd ?s \<noteq> CHR ''0''" if "?s \<noteq> []"
      using that dec_digits_head [of "unat amount"] by (cases "unat amount") auto
    have "\<exists>t. adjust_decimals tmp (length ?s) ?target (length ?target) 6 = Some (True, t) \<and>
        length t = length ?target \<and> NUL \<in> set t \<and> cstr t = point_text 6 ?s"
    proof (cases "length ?s \<le> 6")
      case small: True
      show ?thesis by (rule adjust_small [OF dig h small]) (auto simp: tmp_def)
    next
      case False
      then have "?s \<noteq> ''0''" using h by (metis list.sel(1) list.simps(3))
      then show ?thesis using False True by (intro adjust_large [OF dig]) (auto simp: tmp_def)
    qed
    then obtain t where t: "adjust_decimals tmp ?n ?target 21 6 = Some (True, t)"
      "length t = 21" "NUL \<in> set t" "cstr t = point_text 6 ?s" by auto
    have c: "cstr (''XRP '' @ t) = xrp_text (unat amount)"
      using t(4) by (simp add: cstr_def xrp_text_def)
    have lt: "length (xrp_text (unat amount)) \<le> 24"
      using True by (intro length_xrp_text) (simp add: num_digits_le_iff)
    have "strlen (''XRP '' @ t) = Some (length (xrp_text (unat amount)))"
      using t(3) c by (simp add: strlen_def)
    moreover have "strncpy out 0 (xrp_text (unat amount)) outlen = Some (padded outlen (xrp_text (unat amount)))"
      using assms lt by (intro strncpy_whole_fits) auto
    moreover have "(outlen + 2 ^ 32 - 1) mod 2 ^ 32 = outlen - 1"
      using assms(2,3) by (simp add: mod_if)
    ultimately show ?thesis
      using True w p t2 t(1) c lt assms(2)
      by (simp add: xrp_print_amount_def count num_digits_le_iff)
  qed
qed

lemma read_xrp_text: "read_decimal (drop 4 (xrp_text drops)) = Some (of_nat drops / 10 ^ 6)"
  using read_point_text [of "dec_digits (num_digits drops) drops" 6] by (simp add: xrp_text_def)

text \<open>Zero is the one amount that keeps its zeros.\<close>

lemma zero_keeps_its_zeros: "xrp_text 0 = ''XRP 0.000000''"
  by (simp add: xrp_text_def point_text_def trim_text_def strip_zeros_def num_digits.simps) (simp add: numeral_eq_Suc)

text \<open>
  C21. An XRP amount reads back. Into a buffer of at least 26 characters, \<open>xrp_print_amount\<close>
  writes \<open>XRP\<close>, a space and a decimal text whose value is exactly the number of drops divided
  by a million, padded with zeros, for every amount below \<open>10 ^ 19\<close>. Any larger amount is
  refused with \<open>-1\<close> and the buffer is left alone, so no amount is shown with a digit missing.
\<close>

theorem xrp_amount_reads_back:
  assumes "length out = outlen" and "26 \<le> outlen" and "outlen < 2 ^ 32"
  shows "xrp_print_amount amount out outlen =
      (if unat amount < 10 ^ 19
       then Some (0, padded outlen (''XRP '' @ drop 4 (xrp_text (unat amount))))
       else Some (-1, out)) \<and>
     read_decimal (drop 4 (xrp_text (unat amount))) = Some (of_nat (unat amount) / 10 ^ 6)"
  using xrp_print_amount_spec [OF assms] read_xrp_text by (simp add: xrp_text_def)

theorem xrp_amount_reads_back_witness:
  "xrp_print_amount 1250000 (replicate 128 NUL) 128 = Some (0, padded 128 ''XRP 1.25'') \<and>
   read_decimal ''1.25'' = Some (1250000 / 10 ^ 6)"
proof -
  have t: "drop 4 (xrp_text 1250000) = ''1.25''"
    by (simp add: xrp_text_def point_text_def trim_text_def strip_zeros_def num_digits.simps
      digit_chars)
  show ?thesis
    using xrp_amount_reads_back [of "replicate 128 NUL" 128 1250000]
    by (simp only: t unat_numeral length_replicate) (simp add: t)
qed

end
