(* ===== verification/Amount.thy ===== *)
theory Amount
  imports Print_Amount Currency
begin

text \<open>
  The amount and currency formatters of \<open>src/src/xrp/amount.c\<close>. A \<open>char *\<close> into a buffer is
  the list of the characters from there to the end of the buffer; a function returns its error
  code and the memory after it.
\<close>

section \<open>The code\<close>

abbreviation (input) EXP_MIN :: int where "EXP_MIN \<equiv> -96"
abbreviation (input) EXP_MAX :: int where "EXP_MAX \<equiv> 80"
abbreviation (input) MANTISSA_MIN :: u64 where "MANTISSA_MIN \<equiv> 1000000000000000"
abbreviation (input) MANTISSA_MAX :: u64 where "MANTISSA_MAX \<equiv> 9999999999999999"

text \<open>An exponent is an \<open>int16_t\<close>; it stays between \<open>-97\<close> and 178 everywhere, so an \<open>int\<close> here.\<close>

function normalize :: "u64 \<Rightarrow> int \<Rightarrow> u64 \<times> int" where
  "normalize mantissa exponent =
     (if mantissa > 0 \<and> mantissa mod 10 = 0 then normalize (mantissa div 10) (exponent + 1)
      else (mantissa, exponent))"
  by pat_completeness auto
termination
  by (relation "measure (\<lambda>(m, _). unat m)") (auto simp: unat_div word_less_nat_alt)

declare normalize.simps [simp del]

text \<open>
  The counting loop of \<open>print_uint64_t\<close>. \<open>base\<close> wraps, and for some values near \<open>2 ^ 64\<close> the
  loop would not end: it is a partial function.
\<close>

partial_function (option) base_loop :: "u64 \<Rightarrow> u16 \<Rightarrow> u64 \<Rightarrow> (u64 \<times> u16) option" where
  "base_loop base n value =
     (if base \<le> value then base_loop (base * 10) (n + 1) value else Some (base, n))"

declare base_loop.simps [code]

definition print_uint64_t :: "string \<Rightarrow> nat \<Rightarrow> u64 \<Rightarrow> (int \<times> string) option" where
  "print_uint64_t dst len value =
     Option.bind (base_loop 1 0 value) (\<lambda>(base, n).
       if int (unat n) > int len - 1 then Some (-1, dst)
       else
         Option.bind (write_digits (unat n) value (base div 10) 0 dst) (\<lambda>dst.
         map_option (Pair 0) (poke dst (unat n) [NUL])))"

text \<open>
  Steps 2 to 5 of \<open>parse_decimal_number\<close>. \<open>print_uint64_t\<close> takes its length as a \<open>uint16_t\<close>.
\<close>

definition print_decimal :: "string \<Rightarrow> nat \<Rightarrow> int \<Rightarrow> u64 \<Rightarrow> (int \<times> string) option" where
  "print_decimal dst max_len exponent mantissa =
     (let (mantissa, exponent) = normalize mantissa exponent in
      Option.bind (print_uint64_t dst (max_len mod 2 ^ 16) mantissa) (\<lambda>(e, dst).
        if e \<noteq> 0 then Some (-1, dst)
        else Option.bind (strlen dst) (\<lambda>len.
          let decimal_pos = int len + exponent in
          map_option (Pair 0)
            (if exponent \<ge> 0 then memset dst len CHR ''0'' (nat exponent)
             else if decimal_pos > 0 then
               Option.bind (memmove dst (nat decimal_pos + 1) (nat decimal_pos) len) (\<lambda>dst.
               poke dst (nat decimal_pos) ''.'')
             else
               Option.bind (memmove dst (nat (2 - decimal_pos)) 0 len) (\<lambda>dst.
               Option.bind (memset dst 0 CHR ''0'' (nat (2 - decimal_pos))) (\<lambda>dst.
               poke dst 1 ''.''))))))"

definition parse_decimal_number ::
  "string \<Rightarrow> nat \<Rightarrow> u8 \<Rightarrow> int \<Rightarrow> u64 \<Rightarrow> (int \<times> string) option" where
  "parse_decimal_number dst max_len sign exponent mantissa =
     (if max_len < 100 then Some (-1, dst)
      else if sign = 0 \<and> exponent = 0 \<and> mantissa = 0
           then map_option (Pair 0) (poke dst 0 ''0'')
      else if exponent < EXP_MIN \<or> exponent > EXP_MAX then Some (-1, dst)
      else if mantissa < MANTISSA_MIN \<or> mantissa > MANTISSA_MAX then Some (-1, dst)
      else if sign = 0 then
        Option.bind (poke dst 0 ''-'') (\<lambda>dst.
        map_option (\<lambda>(e, rest). (e, take 1 dst @ rest))
          (print_decimal (drop 1 dst) (max_len - 1) exponent mantissa))
      else print_decimal dst max_len exponent mantissa)"

definition format_xrp :: "u64 \<Rightarrow> string \<Rightarrow> (int \<times> string) option" where
  "format_xrp amount dst =
     (if amount AND 0x4000000000000000 = 0 then Some (-1, dst)
      else map_option (\<lambda>(e, dst). (if e \<noteq> 0 then -1 else 0, dst))
        (xrp_print_amount (amount XOR 0x4000000000000000) dst (length dst)))"

text \<open>\<open>sz\<close> is the size of the field buffer, the length of \<open>buf\<close>.\<close>

definition format_standard_currency :: "u8 list \<Rightarrow> string \<Rightarrow> nat \<Rightarrow> string option" where
  "format_standard_currency currency buf sz =
     (if has_non_standard_currency_internal currency then Some buf
      else if is_all_zeros currency then strncpy buf 0 ''XRP'' sz
      else Option.bind (peek currency 12 3) (\<lambda>ticker. poke buf 0 (map char_of_u8 ticker)))"

text \<open>Whether \<open>needle\<close> occurs in \<open>haystack\<close>, both without their terminators.\<close>

definition strstr :: "string \<Rightarrow> string \<Rightarrow> bool" where
  "strstr haystack needle =
     list_ex (\<lambda>i. take (length needle) (drop i haystack) = needle) [0..<length haystack + 1]"

definition format_non_standard_currency :: "u8 list \<Rightarrow> string \<Rightarrow> string option" where
  "format_non_standard_currency currency dst =
     (if has_non_standard_currency_internal currency then
        let contains_only_ascii = is_purely_ascii currency True in
        if contains_only_ascii \<and> currency ! (length currency - 1) = 0 \<and>
           \<not> strstr (cstr (map char_of_u8 currency)) ''XRP''
        then poke dst 0 (map char_of_u8 (take XRP_CURRENCY_SIZE currency))
        else map_option snd (read_hex dst (length dst) currency (length currency))
      else if is_all_zeros currency then strncpy dst 0 ''XRP'' (length dst)
      else Option.bind (peek currency 12 3) (\<lambda>ticker. poke dst 0 (map char_of_u8 ticker)))"

definition format_issued_currency :: "u64 \<Rightarrow> string \<Rightarrow> nat \<Rightarrow> (int \<times> string) option" where
  "format_issued_currency value buf sz =
     (let sign = ucast (drop_bit 62 value AND 1);
          exponent = int (unat (drop_bit 54 value AND 0xFF)) - 97;
          mantissa = value AND 0x3FFFFFFFFFFFFF in
      Option.bind (strlen buf) (\<lambda>len.
        let sz = sz - len in
        if sz = 0 then Some (-1, buf)
        else
          Option.bind (if len > 0 then poke buf len '' '' else Some buf) (\<lambda>buf.
            let p = (if len > 0 then len + 1 else len);
                sz = (if len > 0 then sz - 1 else sz) in
            if push_bit 1 value = 0 then map_option (Pair 0) (poke buf p ''0'')
            else map_option (\<lambda>(e, rest). (e, take p buf @ rest))
                   (parse_decimal_number (drop p buf) sz sign exponent mantissa))))"

text \<open>
  \<open>field->data.ptr\<close> is an index in the transaction's bytes; the formatters read 8 bytes of value
  through it, and 20 of currency after them.
\<close>

definition amount_formatter :: "u8 list \<Rightarrow> field_t \<Rightarrow> string \<Rightarrow> string option" where
  "amount_formatter bytes field dst =
     Option.bind (data_ptr (fdata field)) (\<lambda>p.
     Option.bind (read_unsigned64 (drop p bytes)) (\<lambda>value.
     Option.bind
       (if fld_length field = of_nat XRP_AMOUNT_LEN then format_xrp value dst
        else if fld_length field = of_nat ISSUED_CURRENCY_LEN then
          Option.bind (peek bytes (p + 8) XRP_CURRENCY_SIZE) (\<lambda>currency.
          Option.bind (format_standard_currency currency dst (length dst)) (\<lambda>dst.
          format_issued_currency value dst (length dst)))
        else Some (1, dst)) (\<lambda>(error, dst).
     if error \<noteq> 0 then strncpy dst 0 ''Invalid amount!'' (length dst) else Some dst)))"

definition currency_formatter :: "u8 list \<Rightarrow> field_t \<Rightarrow> string \<Rightarrow> string option" where
  "currency_formatter bytes field dst =
     Option.bind (data_ptr (fdata field)) (\<lambda>p.
     Option.bind (peek bytes p XRP_CURRENCY_SIZE) (\<lambda>currency.
     format_non_standard_currency currency dst))"

section \<open>Mantissas\<close>

lemma unat_mod_10: "v mod 10 = (0 :: u64) \<longleftrightarrow> unat v mod 10 = 0"
  by (simp add: word_unat_eq_iff unat_mod)

lemma num_digits_mult10: "0 < n \<Longrightarrow> num_digits (10 * n) = Suc (num_digits n)"
  by (simp add: num_digits.simps [of "10 * n"])

lemma normalize_spec:
  assumes "normalize m e = (m', e')" and "0 < unat m"
  shows "\<exists>k. unat m = unat m' * 10 ^ k \<and> e' = e + int k \<and> 0 < unat m' \<and>
     num_digits (unat m) = num_digits (unat m') + k"
  using assms
proof (induction m e arbitrary: m' e' rule: normalize.induct)
  case (1 m e)
  show ?case
  proof (cases "m mod 10 = 0")
    case False
    then have "m' = m" "e' = e" using 1(2) by (simp_all add: normalize.simps [of m e])
    then show ?thesis using 1(3) by (intro exI [of _ 0]) simp
  next
    case True
    have m0: "0 < m" using 1(3) by (simp add: word_less_nat_alt)
    with True 1(2) have n: "normalize (m div 10) (e + 1) = (m', e')"
      by (simp add: normalize.simps [of m e])
    have ten: "unat m = 10 * unat (m div 10)"
      using True by (simp add: unat_div unat_mod_10) (metis dvd_imp_mod_0 dvd_mult_div_cancel mod_0_imp_dvd)
    with 1(3) have pos: "0 < unat (m div 10)" by simp
    obtain k where k: "unat (m div 10) = unat m' * 10 ^ k" "e' = e + 1 + int k" "0 < unat m'"
      "num_digits (unat (m div 10)) = num_digits (unat m') + k"
      using 1(1) [OF _ n pos] True m0 by auto
    have "num_digits (unat m) = Suc (num_digits (unat (m div 10)))"
      unfolding ten by (rule num_digits_mult10 [OF pos])
    with k ten show ?thesis by (intro exI [of _ "Suc k"]) simp
  qed
qed

lemma base_loop_spec:
  assumes "k \<le> num_digits (unat v)" and "num_digits (unat v) \<le> 19"
  shows "base_loop (10 ^ k) (of_nat k) v = Some (10 ^ num_digits (unat v), of_nat (num_digits (unat v)))"
  using assms(1)
proof (induction "num_digits (unat v) - k" arbitrary: k)
  case 0
  then have "k = num_digits (unat v)" by simp
  then show ?case using assms(2) base_le_iff [of k v] by (subst base_loop.simps) simp
next
  case (Suc j)
  then have k: "k < num_digits (unat v)" by simp
  then have "base_loop (10 ^ k) (of_nat k) v = base_loop (10 ^ k * 10) (of_nat k + 1) v"
    using assms(2) base_le_iff [of k v] by (subst base_loop.simps) simp
  also have "\<dots> = base_loop (10 ^ Suc k) (of_nat (Suc k)) v"
    by (simp add: mult.commute add.commute)
  also have "\<dots> = Some (10 ^ num_digits (unat v), of_nat (num_digits (unat v)))"
    using Suc.hyps(1) [of "Suc k"] Suc.hyps(2) k by simp
  finally show ?case .
qed

section \<open>Decimal numbers\<close>

text \<open>The digits \<open>s\<close> times a power of ten, written out (specification).\<close>

definition place_point :: "string \<Rightarrow> int \<Rightarrow> string" where
  "place_point s e =
     (let decimal_pos = int (length s) + e in
      if e \<ge> 0 then s @ replicate (nat e) CHR ''0''
      else if decimal_pos > 0 then take (nat decimal_pos) s @ CHR ''.'' # drop (nat decimal_pos) s
      else ''0.'' @ replicate (nat (- decimal_pos)) CHR ''0'' @ s)"

lemma print_uint64_t_spec:
  assumes "num_digits (unat v) \<le> 19" and "num_digits (unat v) < len" and "len \<le> n"
  shows "print_uint64_t (replicate n NUL) len v =
     Some (0, padded n (dec_digits (num_digits (unat v)) (unat v)))"
proof -
  let ?k = "num_digits (unat v)"
  have b: "base_loop 1 0 v = Some (10 ^ ?k, of_nat ?k)"
    using base_loop_spec [of 0 v] assms(1) by simp
  have k: "unat (of_nat ?k :: u16) = ?k"
    using assms(1) by (intro unat_of_nat_eq) simp
  have ku: "uint (of_nat ?k :: u16) = int ?k" using arg_cong [OF k, of int] by simp
  have w: "write_digits ?k v (10 ^ ?k div 10) 0 (replicate n NUL) =
      Some (dec_digits ?k (unat v) @ replicate (n - ?k) NUL)"
  proof (cases ?k)
    case (Suc j)
    then have "(10 ^ ?k :: u64) div 10 = 10 ^ j" using assms(1) pow10_div [of j] by simp
    then show ?thesis
      using Suc assms write_digits_spec [of j 0 "replicate n NUL" v] by simp
  qed simp
  have "poke (dec_digits ?k (unat v) @ replicate (n - ?k) NUL) ?k [NUL] =
      Some (dec_digits ?k (unat v) @ replicate (n - ?k) NUL)"
    using assms(2,3) by (simp add: poke_def Suc_diff_Suc flip: replicate_Suc)
  then show ?thesis
    using assms(2) by (simp add: print_uint64_t_def b k ku w padded_def)
qed

lemma place_point_buffer:
  assumes "NUL \<notin> set s" and "0 < length s" and "length s \<le> 16" and "int (length s) + e \<le> 96"
    and "- 80 \<le> int (length s) + e" and "99 \<le> n"
  shows "(if e \<ge> 0 then memset (padded n s) (length s) CHR ''0'' (nat e)
      else if int (length s) + e > 0 then
        Option.bind (memmove (padded n s) (nat (int (length s) + e) + 1) (nat (int (length s) + e)) (length s))
          (\<lambda>dst. poke dst (nat (int (length s) + e)) ''.'')
      else
        Option.bind (memmove (padded n s) (nat (2 - (int (length s) + e))) 0 (length s)) (\<lambda>dst.
        Option.bind (memset dst 0 CHR ''0'' (nat (2 - (int (length s) + e)))) (\<lambda>dst.
        poke dst 1 ''.''))) = Some (padded n (place_point s e))"
proof -
  consider "e \<ge> 0" | "e < 0" "int (length s) + e > 0" | "e < 0" "int (length s) + e \<le> 0" by linarith
  then show ?thesis
  proof cases
    case 1
    then have "length s + nat e \<le> n" using assms(4,6) by linarith
    then show ?thesis using 1
      by (simp add: place_point_def padded_def memset_def poke_def)
  next
    case 2
    define k where "k = nat (int (length s) + e)"
    have k: "0 < k" "k < length s" "int (length s) + e = int k" using 2 by (simp_all add: k_def)
    define u where "u = take k s"
    obtain c t where t: "drop k s = c # t" using k(2) by (cases "drop k s") auto
    have s: "s = u @ c # t" unfolding u_def t [symmetric] by simp
    have lu: "length u = k" using k(2) by (simp add: u_def)
    define R where "R = n - length s"
    have n: "n = length u + Suc (length t) + R" and R: "length s < R"
      using assms(3,6) by (simp_all add: R_def s)
    have "memmove (padded n s) (k + 1) k (length s) =
        Some (u @ c # c # t @ replicate k NUL @ replicate (R - (k + 1)) NUL)"
      using R by (simp add: memmove_def padded_def peek_def poke_def s n lu [symmetric])
    moreover have "poke (u @ c # c # t @ replicate k NUL @ replicate (R - (k + 1)) NUL) k ''.'' =
        Some (u @ CHR ''.'' # c # t @ replicate k NUL @ replicate (R - (k + 1)) NUL)"
      by (simp add: poke_def lu [symmetric])
    moreover have "padded n (u @ CHR ''.'' # c # t) =
        u @ CHR ''.'' # c # t @ replicate k NUL @ replicate (R - (k + 1)) NUL"
      using R by (simp add: padded_def n s lu flip: replicate_add)
    ultimately show ?thesis
      using 2(1) k(1,2) by (simp add: place_point_def k(3) t u_def [symmetric])
  next
    case 3
    define d where "d = nat (- (int (length s) + e))"
    have d: "nat (2 - (int (length s) + e)) = d + 2" "d \<le> 80"
      using 3 assms(5) by (simp_all add: d_def)
    define R where "R = n - length s"
    have n: "n = length s + R" and R: "d + 2 \<le> R"
      using assms(3,6) d(2) by (simp_all add: R_def)
    have "memmove (padded n s) (d + 2) 0 (length s) =
        Some (take (d + 2) (padded n s) @ s @ replicate (R - (d + 2)) NUL)"
      using R by (simp add: memmove_def padded_def peek_def poke_def n)
    moreover have "memset (take (d + 2) (padded n s) @ s @ replicate (R - (d + 2)) NUL) 0 CHR ''0'' (d + 2) =
        Some (replicate (d + 2) CHR ''0'' @ s @ replicate (R - (d + 2)) NUL)"
      using R by (simp add: memset_def padded_def poke_def n)
    moreover have "poke (replicate (d + 2) CHR ''0'' @ s @ replicate (R - (d + 2)) NUL) 1 ''.'' =
        Some (''0.'' @ replicate d CHR ''0'' @ s @ replicate (R - (d + 2)) NUL)"
      by (simp add: poke_def numeral_2_eq_2)
    moreover have "padded n (''0.'' @ replicate d CHR ''0'' @ s) =
        ''0.'' @ replicate d CHR ''0'' @ s @ replicate (R - (d + 2)) NUL"
      using R by (simp add: padded_def n)
    ultimately show ?thesis
      using 3 d(1) d_def by (simp add: place_point_def)
  qed
qed

lemma length_place_point:
  "length s \<le> 16 \<Longrightarrow> int (length s) + e \<le> 96 \<Longrightarrow> - 80 \<le> int (length s) + e \<Longrightarrow>
   length (place_point s e) \<le> 98"
  by (auto simp: place_point_def Let_def)

text \<open>The digits after \<open>normalize\<close>: at most 16, and the place of the point does not change.\<close>

lemma normalized_digits:
  assumes "normalize m e = (m', e')" and "10 ^ 15 \<le> unat m" and "unat m < 10 ^ 16"
  shows "num_digits (unat m') \<le> 16" and "0 < num_digits (unat m')"
    and "int (num_digits (unat m')) + e' = 16 + e"
proof -
  have "0 < unat m" using assms(2) by (simp add: less_le_trans [of 0 "10 ^ 15"])
  from normalize_spec [OF assms(1) this] obtain k where k: "e' = e + int k" "0 < unat m'"
    "num_digits (unat m) = num_digits (unat m') + k" by blast
  have "num_digits (unat m) \<le> 16" "\<not> num_digits (unat m) \<le> 15"
    unfolding num_digits_le_iff using assms(2,3) by simp_all
  then have d: "num_digits (unat m) = 16" by simp
  show "num_digits (unat m') \<le> 16" "int (num_digits (unat m')) + e' = 16 + e" using k d by simp_all
  show "0 < num_digits (unat m')" using k(2) num_digits_eq_0 [of "unat m'"] by (simp del: num_digits_eq_0)
qed

lemma print_decimal_spec:
  assumes "normalize m e = (m', e')" and "MANTISSA_MIN \<le> m" and "m \<le> MANTISSA_MAX"
    and "EXP_MIN \<le> e" and "e \<le> EXP_MAX" and "99 \<le> n" and "n < 2 ^ 16"
  shows "print_decimal (replicate n NUL) n e m =
     Some (0, padded n (place_point (dec_digits (num_digits (unat m')) (unat m')) e'))"
proof -
  let ?s = "dec_digits (num_digits (unat m')) (unat m')"
  have m: "10 ^ 15 \<le> unat m" "unat m < 10 ^ 16"
    using assms(2,3) by (simp_all add: word_le_nat_alt)
  have len: "int (length ?s) + e' = 16 + e" "length ?s \<le> 16" "0 < length ?s"
    using normalized_digits [OF assms(1) m] by simp_all
  have dec: "print_uint64_t (replicate n NUL) n m' = Some (0, padded n ?s)"
    using len(2) assms(6) by (intro print_uint64_t_spec) simp_all
  have "strlen (padded n ?s) = Some (length ?s)" using len(2) assms(6) by simp
  moreover have "int (length ?s) + e' \<le> 96" "- 80 \<le> int (length ?s) + e'"
    using len(1) assms(4,5) by linarith+
  note place_point_buffer [OF NUL_notin_dec_digits len(3,2) this assms(6)]
  ultimately show ?thesis
    using assms(7)
    by (simp only: print_decimal_def assms(1) dec Let_def) (auto simp add: dec split: if_splits)
qed

lemma read_place_point:
  assumes "list_all is_digit s" and "s \<noteq> []"
  shows "read_unsigned_decimal (place_point s e) = Some (of_nat (dec_val s) * 10 powi e)"
proof -
  consider "e \<ge> 0" | "e < 0" "int (length s) + e > 0" | "e < 0" "int (length s) + e \<le> 0" by linarith
  then show ?thesis
  proof cases
    case 1
    then have "list_all is_digit (s @ replicate (nat e) CHR ''0'')"
      using assms(1) by (auto simp: list_all_iff)
    from read_whole [OF this] show ?thesis
      using 1 assms(2) by (simp add: place_point_def dec_val_append power_int_def)
  next
    case 2
    define k where "k = nat (int (length s) + e)"
    have k: "0 < k" "k < length s" "int (length s) + e = int k" using 2 by (simp_all add: k_def)
    have dig: "list_all is_digit (take k s)" "list_all is_digit (drop k s)"
      using assms(1) by (auto simp: list_all_iff dest: in_set_takeD in_set_dropD)
    have e: "10 powi e = (1 / 10 ^ (length s - k) :: rat)"
    proof -
      have "nat (- e) = length s - k" using 2 k by linarith
      then show ?thesis using 2(1) by (simp add: power_int_def divide_simps)
    qed
    have "place_point s e = take k s @ CHR ''.'' # drop k s"
      using 2(1) k by (simp add: place_point_def)
    then have "read_unsigned_decimal (place_point s e) =
        Some (of_nat (dec_val (take k s)) + of_nat (dec_val (drop k s)) / 10 ^ (length s - k))"
      using read_point [OF dig(1) _ dig(2)] k(1,2) assms(2) by auto
    also have "of_nat (dec_val (take k s)) + of_nat (dec_val (drop k s)) / 10 ^ (length s - k) =
        (of_nat (dec_val (take k s) * 10 ^ (length s - k) + dec_val (drop k s)) * (1 / 10 ^ (length s - k)) :: rat)"
      by (simp add: add_divide_distrib)
    also have "dec_val (take k s) * 10 ^ (length s - k) + dec_val (drop k s) = dec_val s"
      using dec_val_append [of "take k s" "drop k s"] by simp
    finally show ?thesis by (simp only: e)
  next
    case 3
    define d where "d = nat (- (int (length s) + e))"
    let ?f = "replicate d CHR ''0'' @ s"
    have f: "list_all is_digit ?f" "?f \<noteq> []" using assms by (auto simp: list_all_iff)
    have "10 powi e = (1 / 10 ^ (d + length s) :: rat)"
    proof -
      have "nat (- e) = d + length s" using 3 by (simp add: d_def)
      then show ?thesis using 3(1) by (simp add: power_int_def divide_simps)
    qed
    moreover have "place_point s e = ''0'' @ CHR ''.'' # ?f"
      using 3 by (simp add: place_point_def d_def)
    ultimately show ?thesis
      using read_point [OF _ _ f, of "''0''"] by (simp add: dec_val_append digit_val_def)
  qed
qed

section \<open>Issued amounts\<close>

text \<open>
  An issued amount on the wire: bit 62 is the sign, 8 bits hold the exponent plus 97, the rest the
  mantissa. Its value, and the exponents and mantissas the XRP Ledger allows (specification).
\<close>

definition issued_positive :: "u64 \<Rightarrow> bool" where
  "issued_positive v \<longleftrightarrow> bit v 62"

definition issued_exponent :: "u64 \<Rightarrow> int" where
  "issued_exponent v = int (unat v div 2 ^ 54 mod 2 ^ 8) - 97"

definition issued_mantissa :: "u64 \<Rightarrow> nat" where
  "issued_mantissa v = unat v mod 2 ^ 54"

definition issued_value :: "u64 \<Rightarrow> rat" where
  "issued_value v =
     (if issued_positive v then 1 else -1) * of_nat (issued_mantissa v) * 10 powi issued_exponent v"

definition issued_zero :: "u64 \<Rightarrow> bool" where
  "issued_zero v \<longleftrightarrow> unat v mod 2 ^ 63 = 0 \<or>
     (\<not> issued_positive v \<and> issued_exponent v = 0 \<and> issued_mantissa v = 0)"

definition issued_valid :: "u64 \<Rightarrow> bool" where
  "issued_valid v \<longleftrightarrow> issued_zero v \<or>
     (-96 \<le> issued_exponent v \<and> issued_exponent v \<le> 80 \<and>
      10 ^ 15 \<le> issued_mantissa v \<and> issued_mantissa v < 10 ^ 16)"

text \<open>What the code reads from the value.\<close>

lemma issued_fields:
  shows "unat (drop_bit 54 v AND 0xFF :: u64) = unat v div 2 ^ 54 mod 2 ^ 8"
    and "unat (v AND 0x3FFFFFFFFFFFFF :: u64) = issued_mantissa v"
    and "(ucast (drop_bit 62 v AND 1 :: u64) :: u8) = 0 \<longleftrightarrow> \<not> issued_positive v"
    and "push_bit 1 v = (0 :: u64) \<longleftrightarrow> unat v mod 2 ^ 63 = 0"
proof -
  have "drop_bit 54 v AND 0xFF = take_bit 8 (drop_bit 54 v)"
    by (simp add: take_bit_eq_mask mask_eq_exp_minus_1)
  then show "unat (drop_bit 54 v AND 0xFF :: u64) = unat v div 2 ^ 54 mod 2 ^ 8"
    by (simp only: take_bit_eq_mod drop_bit_eq_div) (simp add: unat_div unat_mod)
  have "v AND 0x3FFFFFFFFFFFFF = take_bit 54 v"
    by (simp add: take_bit_eq_mask mask_eq_exp_minus_1)
  then show "unat (v AND 0x3FFFFFFFFFFFFF :: u64) = issued_mantissa v"
    by (simp only: take_bit_eq_mod) (simp add: unat_mod issued_mantissa_def)
  show "(ucast (drop_bit 62 v AND 1 :: u64) :: u8) = 0 \<longleftrightarrow> \<not> issued_positive v"
  proof -
    have "drop_bit 62 v AND 1 = (of_bool (bit v 62) :: u64)"
      by (simp only: and_one_eq bit_iff_odd_drop_bit of_bool_odd_eq_mod_2)
    then show ?thesis by (simp add: issued_positive_def)
  qed
  show "push_bit 1 v = (0 :: u64) \<longleftrightarrow> unat v mod 2 ^ 63 = 0"
  proof -
    have "unat (push_bit 1 v) = 2 * unat v mod (2 * 2 ^ 63)"
      by (simp add: push_bit_eq_mult unat_word_ariths mult.commute)
    also have "\<dots> = 2 * (unat v mod 2 ^ 63)" by (rule mult_mod_right [symmetric])
    finally show ?thesis by (simp only: word_unat_eq_iff unat_0) simp
  qed
qed

lemma unat_numeral_bounds:
  "MANTISSA_MIN \<le> m \<longleftrightarrow> 10 ^ 15 \<le> unat m" "m \<le> MANTISSA_MAX \<longleftrightarrow> unat m < 10 ^ 16"
  by (auto simp: word_le_nat_alt)

text \<open>The text of an issued amount, without its currency (specification).\<close>

definition issued_text :: "u64 \<Rightarrow> string" where
  "issued_text v =
     (if issued_zero v then ''0''
      else (if issued_positive v then [] else ''-'') @
        (let (m, e) = normalize (v AND 0x3FFFFFFFFFFFFF) (issued_exponent v)
         in place_point (dec_digits (num_digits (unat m)) (unat m)) e))"

lemma set_place_point: "c \<in> set (place_point s e) \<Longrightarrow> c \<in> set s \<or> c = CHR ''0'' \<or> c = CHR ''.''"
  by (auto simp: place_point_def Let_def split: if_splits dest: in_set_takeD in_set_dropD)

lemma NUL_notin_place_point: "NUL \<notin> set s \<Longrightarrow> NUL \<notin> set (place_point s e)"
  using set_place_point by fastforce

lemma NUL_notin_issued_text [simp]: "NUL \<notin> set (issued_text v)"
  by (auto simp: issued_text_def NUL_notin_place_point split: prod.splits)

lemma padded_Cons: "padded (Suc n) (c # s) = c # padded n s"
  by (simp add: padded_def)

lemma padded_append: "length p \<le> n \<Longrightarrow> padded n (p @ s) = p @ padded (n - length p) s"
  by (simp add: padded_def)

lemma parse_decimal_number_spec:
  assumes "push_bit 1 v \<noteq> 0" and "100 \<le> n" and "n < 2 ^ 16"
  shows "parse_decimal_number (replicate n NUL) n (ucast (drop_bit 62 v AND 1))
      (issued_exponent v) (v AND 0x3FFFFFFFFFFFFF) =
     (if issued_valid v then Some (0, padded n (issued_text v)) else
        Some (-1, replicate n NUL))"
proof -
  let ?m = "v AND 0x3FFFFFFFFFFFFF" and ?e = "issued_exponent v"
  obtain m' e' where norm: "normalize ?m ?e = (m', e')" by (cases "normalize ?m ?e")
  let ?t = "place_point (dec_digits (num_digits (unat m')) (unat m')) e'"
  have nz: "unat v mod 2 ^ 63 \<noteq> 0" using assms(1) unfolding issued_fields(4) .
  have m0: "?m = 0 \<longleftrightarrow> issued_mantissa v = 0"
    by (simp only: word_unat_eq_iff unat_0 issued_fields)
  have z: "issued_zero v \<longleftrightarrow> \<not> issued_positive v \<and> ?e = 0 \<and> ?m = 0"
    using nz m0 by (simp add: issued_zero_def)
  obtain k where n: "n = Suc k" using assms(2) by (cases n) auto
  consider (zero) "issued_zero v" | (bad) "\<not> issued_valid v"
    | (number) "\<not> issued_zero v" "issued_valid v" by blast
  then show ?thesis
  proof cases
    case zero
    then show ?thesis
      using z assms(2) n
      by (simp add: parse_decimal_number_def issued_fields poke_def issued_valid_def issued_text_def
        padded_def)
  next
    case bad
    then have "\<not> issued_zero v" by (simp add: issued_valid_def)
    with bad z assms(2) show ?thesis
      by (auto simp: parse_decimal_number_def issued_fields(3) issued_valid_def not_less [symmetric]
        unat_numeral_bounds [unfolded not_less [symmetric]] issued_fields(2))
  next
    case number
    then have range: "MANTISSA_MIN \<le> ?m" "?m \<le> MANTISSA_MAX" "EXP_MIN \<le> ?e" "?e \<le> EXP_MAX"
      using number
      unfolding unat_numeral_bounds issued_fields(2) issued_valid_def by blast+
    have dec: "print_decimal (replicate j NUL) j ?e ?m = Some (0, padded j ?t)"
      if "99 \<le> j" "j < 2 ^ 16" for j
      using print_decimal_spec [OF norm range that] .
    have shown: "issued_text v = (if issued_positive v then [] else ''-'') @ ?t"
      using number(1) by (simp add: issued_text_def norm)
    show ?thesis
      using number z range dec [of n] dec [of k] assms(2,3) n
      by (simp add: parse_decimal_number_def issued_fields(3) shown poke_def padded_Cons not_less [symmetric])
  qed
qed

lemma length_issued_text: "issued_valid v \<Longrightarrow> length (issued_text v) \<le> 99"
proof (cases "issued_zero v")
  case False
  assume "issued_valid v"
  obtain m' e' where norm: "normalize (v AND 0x3FFFFFFFFFFFFF) (issued_exponent v) = (m', e')" by fastforce
  from \<open>issued_valid v\<close> False have "10 ^ 15 \<le> unat (v AND 0x3FFFFFFFFFFFFF)"
    "unat (v AND 0x3FFFFFFFFFFFFF) < 10 ^ 16" "-96 \<le> issued_exponent v" "issued_exponent v \<le> 80"
    unfolding issued_fields(2) issued_valid_def by blast+
  with normalized_digits [OF norm] show ?thesis
    using length_place_point [of "dec_digits (num_digits (unat m')) (unat m')" e'] False
    by (simp add: issued_text_def norm)
qed (simp add: issued_text_def)

lemma read_issued_text:
  assumes "issued_valid v"
  shows "read_decimal (issued_text v) = Some (issued_value v)"
proof (cases "issued_zero v")
  case True
  have "unat v mod 2 ^ 63 = 0 \<Longrightarrow> unat v mod 2 ^ 54 = 0"
    using mod_mod_cancel [of "2 ^ 54" "2 ^ 63" "unat v"] by (simp add: le_imp_power_dvd)
  then have "issued_mantissa v = 0" using True by (auto simp: issued_zero_def issued_mantissa_def)
  then show ?thesis
    using True read_whole [of "''0''"] read_decimal_unsigned [of "''0''" "[]"]
    by (simp add: issued_text_def issued_value_def digit_val_def)
next
  case False
  let ?m = "v AND 0x3FFFFFFFFFFFFF" and ?e = "issued_exponent v"
  obtain m' e' where norm: "normalize ?m ?e = (m', e')" by (cases "normalize ?m ?e")
  let ?s = "dec_digits (num_digits (unat m')) (unat m')"
  have m: "10 ^ 15 \<le> unat ?m" using assms False unfolding issued_fields(2) issued_valid_def by blast
  then have "0 < unat ?m" by (simp add: less_le_trans [of 0 "10 ^ 15"])
  from normalize_spec [OF norm this] obtain k where k: "issued_mantissa v = unat m' * 10 ^ k"
    "e' = ?e + int k" "0 < unat m'" by (auto simp: issued_fields(2))
  have ne: "?s \<noteq> []" using k(3) by (metis length_0_conv length_dec_digits num_digits_eq_0 less_irrefl)
  have "(10 :: rat) powi e' = 10 powi ?e * 10 ^ k"
    by (simp add: k(2) power_int_add power_int_def [of _ "int k"])
  then have val: "read_unsigned_decimal (place_point ?s e') =
      Some (of_nat (issued_mantissa v) * 10 powi ?e)"
    using read_place_point [OF _ ne, of e'] by (simp add: k(1))
  have hd: "place_point ?s e' \<noteq> []" "hd (place_point ?s e') \<noteq> CHR ''-''"
  proof -
    have "c \<noteq> CHR ''-''" if "c \<in> set (place_point ?s e')" for c
      using set_place_point [OF that] set_dec_digits by fastforce
    moreover show "place_point ?s e' \<noteq> []" using ne by (simp add: place_point_def Let_def)
    ultimately show "hd (place_point ?s e') \<noteq> CHR ''-''" by simp
  qed
  have "read_decimal (place_point ?s e') = read_unsigned_decimal (place_point ?s e')"
    using hd by (cases "place_point ?s e'") (auto simp: read_decimal_def)
  then show ?thesis
    using False val by (simp add: issued_text_def norm issued_value_def read_decimal_minus)
qed

lemma issued_text_nonempty: "issued_valid v \<Longrightarrow> issued_text v \<noteq> []"
  using read_issued_text [of v] by (auto simp: read_decimal_def)

section \<open>Currencies\<close>

text \<open>What is shown before an issued amount: nothing for a non-standard code (specification).\<close>

definition ticker_text :: "u8 list \<Rightarrow> string" where
  "ticker_text c =
     (if has_non_standard_currency_internal c then []
      else if is_all_zeros c then ''XRP'' else map char_of_u8 (take 3 (drop 12 c)))"

text \<open>Whether a non-standard code is shown as the characters it is made of.\<close>

definition shown_as_ascii :: "u8 list \<Rightarrow> bool" where
  "shown_as_ascii c \<longleftrightarrow>
     is_purely_ascii c True \<and> c ! (length c - 1) = 0 \<and> \<not> strstr (cstr (map char_of_u8 c)) ''XRP''"

definition currency_text :: "u8 list \<Rightarrow> string" where
  "currency_text c =
     (if has_non_standard_currency_internal c
      then if shown_as_ascii c then cstr (map char_of_u8 c) else hex_text c
      else ticker_text c)"

lemma standard_ticker:
  assumes "length c = 20" and "\<not> has_non_standard_currency_internal c" and "\<not> is_all_zeros c"
  obtains x y z where "take 3 (drop 12 c) = [x, y, z]" and "x \<noteq> 0" and "y \<noteq> 0" and "z \<noteq> 0"
    and "c = standard_code x y z"
proof -
  from assms have "is_standard_currency_code c" by (simp add: has_non_standard_currency_internal_def)
  then obtain x y z where c: "c = standard_code x y z" "is_valid_ticker_char x"
    "is_valid_ticker_char y" "is_valid_ticker_char z"
    using is_standard_currency_code_iff [OF assms(1)] by blast
  then have "x \<noteq> 0" "y \<noteq> 0" "z \<noteq> 0" using not_valid_ticker_char_0 by metis+
  moreover have "take 3 (drop 12 c) = [x, y, z]" by (simp add: c(1) standard_code_def)
  ultimately show ?thesis using that c(1) by blast
qed

lemma ticker_text_props:
  assumes "length c = 20"
  shows "length (ticker_text c) \<le> 3" and "NUL \<notin> set (ticker_text c)"
  by (auto simp: ticker_text_def elim!: standard_ticker [OF assms])

lemma ticker_text_nonempty:
  "length c = 20 \<Longrightarrow> \<not> has_non_standard_currency_internal c \<Longrightarrow> ticker_text c \<noteq> []"
  by (auto simp: ticker_text_def)

lemma padded_Nil: "padded n [] = replicate n NUL"
  by (simp add: padded_def)

lemma poke_zeros: "length s \<le> n \<Longrightarrow> poke (replicate n NUL) 0 s = Some (padded n s)"
  by (simp add: poke_def padded_def)

lemma format_standard_currency_spec:
  assumes "length c = 20" and "3 \<le> n"
  shows "format_standard_currency c (replicate n NUL) n = Some (padded n (ticker_text c))"
  using assms strncpy_whole_fits [of "replicate n NUL" n "''XRP''"] ticker_text_props(1) [OF assms(1)]
  by (auto simp: format_standard_currency_def ticker_text_def padded_Nil poke_zeros peek_def split: if_splits)

lemma format_non_standard_currency_spec:
  assumes "length c = 20" and "40 \<le> n"
  shows "format_non_standard_currency c (replicate n NUL) = Some (padded n (currency_text c)) \<and>
     NUL \<notin> set (currency_text c) \<and> currency_text c \<noteq> [] \<and> length (currency_text c) \<le> 40"
proof -
  consider (ascii) "has_non_standard_currency_internal c" "shown_as_ascii c"
    | (hex) "has_non_standard_currency_internal c" "\<not> shown_as_ascii c"
    | (standard) "\<not> has_non_standard_currency_internal c" by blast
  then show ?thesis
  proof cases
    case ascii
    then obtain a k where c: "c = a @ replicate k 0" and "a \<noteq> []"
      and a: "\<forall>b \<in> set a. 32 \<le> b \<and> b \<le> 126"
      using assms(1) by (auto simp: shown_as_ascii_def elim!: is_purely_ascii_suffix)
    have la: "length a \<le> 20" using assms(1) c by simp
    have cs: "cstr (map char_of_u8 c) = map char_of_u8 a"
    proof (cases k)
      case 0
      with c show ?thesis using NUL_notin_printable [OF a] by (simp add: cstr_no_NUL)
    next
      case (Suc j)
      with c show ?thesis using NUL_notin_printable [OF a] by simp
    qed
    have pad: "padded n (map char_of_u8 c) = padded n (map char_of_u8 a)"
      using assms c by (simp add: padded_def flip: replicate_add)
    show ?thesis
      using ascii assms NUL_notin_printable [OF a] \<open>a \<noteq> []\<close> la
      by (simp add: format_non_standard_currency_def shown_as_ascii_def [symmetric]
        currency_text_def cs poke_zeros pad)
        (simp add: shown_as_ascii_def cs)
  next
    case hex
    have "read_hex (replicate n NUL) n c 20 = Some (True, padded n (hex_text c))"
      using assms by (simp add: read_hex_spec padded_def min_def)
    moreover have "length (hex_text c) = 40" using assms(1) by simp
    then have "hex_text c \<noteq> []" by force
    ultimately show ?thesis
      using hex assms
      by (auto simp: format_non_standard_currency_def shown_as_ascii_def currency_text_def)
  next
    case standard
    then show ?thesis
      using assms strncpy_whole_fits [of "replicate n NUL" n "''XRP''"] ticker_text_props [OF assms(1)]
        ticker_text_nonempty [OF assms(1)]
      by (auto simp: format_non_standard_currency_def currency_text_def ticker_text_def poke_zeros
        peek_def split: if_splits)
  qed
qed

section \<open>Amount fields\<close>

definition issued_amount_text :: "u64 \<Rightarrow> u8 list \<Rightarrow> string" where
  "issued_amount_text v c =
     (if issued_valid v
      then if ticker_text c = [] then issued_text v else ticker_text c @ '' '' @ issued_text v
      else ''Invalid amount!'')"

lemma format_issued_currency_spec:
  assumes "length tk \<le> 3" and "NUL \<notin> set tk" and "104 \<le> n" and "n < 2 ^ 16"
  shows "\<exists>buf. length buf = n \<and> format_issued_currency v (padded n tk) n =
     (if issued_valid v
      then Some (0, padded n (if tk = [] then issued_text v else tk @ '' '' @ issued_text v))
      else Some (-1, buf))"
proof -
  define p where "p = (if tk = [] then [] else tk @ '' '')"
  have lp: "length p \<le> 4" using assms(1) by (auto simp: p_def)
  have buf: "(if length tk > 0 then poke (padded n tk) (length tk) '' '' else Some (padded n tk)) =
      Some (p @ replicate (n - length p) NUL)"
    using assms(1,3) by (auto simp: p_def padded_def poke_def simp flip: replicate_Suc)
  have pos: "(if length tk > 0 then length tk + 1 else length tk) = length p" by (auto simp: p_def)
  have sz: "(if length tk > 0 then n - length tk - 1 else n - length tk) = n - length p"
    by (auto simp: p_def)
  have len: "strlen (padded n tk) = Some (length tk)" using assms by simp
  have text': "(if tk = [] then issued_text v else tk @ '' '' @ issued_text v) = p @ issued_text v"
    by (simp add: p_def)
  have e: "int (unat (drop_bit 54 v AND 0xFF)) - 97 = issued_exponent v"
    unfolding issued_fields(1) issued_exponent_def ..
  show ?thesis
  proof (cases "push_bit 1 v = 0")
    case True
    then have z: "issued_zero v" unfolding issued_fields(4) issued_zero_def by blast
    then have "issued_valid v" "issued_text v = ''0''" by (simp_all add: issued_valid_def issued_text_def)
    moreover have "poke (p @ replicate (n - length p) NUL) (length p) ''0'' = Some (padded n (p @ ''0''))"
      using lp assms(3) by (simp add: poke_def padded_def)
    ultimately have "format_issued_currency v (padded n tk) n = Some (0, padded n (p @ issued_text v))"
      unfolding format_issued_currency_def Let_def len e
      using assms(1,3) True by (simp only: Option.bind.bind_lunit buf pos sz) simp
    with \<open>issued_valid v\<close> show ?thesis
      unfolding text' by (intro exI [of _ "replicate n NUL"]) simp
  next
    case False
    have "100 \<le> n - length p" "n - length p < 2 ^ 16" using lp assms(3,4) by simp_all
    from parse_decimal_number_spec [OF False this] have
      "format_issued_currency v (padded n tk) n =
        (if issued_valid v then Some (0, p @ padded (n - length p) (issued_text v))
         else Some (-1, p @ replicate (n - length p) NUL))"
      unfolding format_issued_currency_def Let_def len e
      using assms(1,3) False by (simp only: Option.bind.bind_lunit buf pos sz) simp
    then show ?thesis
      using lp assms(3) padded_append [of p n "issued_text v"] unfolding text'
      by (intro exI [of _ "p @ replicate (n - length p) NUL"]) simp
  qed
qed

text \<open>An amount of 8 bytes: bit 62 has to be set, the other bits are drops.\<close>

definition xrp_amount_text :: "u64 \<Rightarrow> string" where
  "xrp_amount_text v =
     (if bit v 62 \<and> unat (v XOR 0x4000000000000000) < 10 ^ 19
      then xrp_text (unat (v XOR 0x4000000000000000)) else ''Invalid amount!'')"

lemma and_exp_eq_0: "k < 64 \<Longrightarrow> v AND 2 ^ k = (0 :: u64) \<longleftrightarrow> \<not> bit v k"
  by (auto simp: bit_eq_iff [where 'a = "64 word"] bit_and_iff bit_exp_iff)

lemma bit_62: "v AND 0x4000000000000000 = (0 :: u64) \<longleftrightarrow> \<not> bit v 62"
  using and_exp_eq_0 [of 62 v] by simp

lemma format_xrp_spec:
  assumes "26 \<le> n" and "n < 2 ^ 32"
  shows "format_xrp v (replicate n NUL) =
     (if bit v 62 \<and> unat (v XOR 0x4000000000000000) < 10 ^ 19
      then Some (0, padded n (xrp_text (unat (v XOR 0x4000000000000000))))
      else Some (-1, replicate n NUL))"
  using xrp_print_amount_spec [of "replicate n NUL" n] assms
  by (simp add: format_xrp_def bit_62)

lemma invalid_amount_fits:
  "length buf = n \<Longrightarrow> 16 \<le> n \<Longrightarrow> strncpy buf 0 ''Invalid amount!'' n = Some (padded n ''Invalid amount!'')"
  by (rule strncpy_whole_fits) simp_all

text \<open>The bytes an amount field points to.\<close>

lemma amount_formatter_xrp:
  assumes "fdata field = DPtr p" and "p + 8 \<le> length bytes" and "fld_length field = 8"
    and "26 \<le> n" and "n < 2 ^ 16"
  shows "amount_formatter bytes field (replicate n NUL) =
     Some (padded n (xrp_amount_text (of_nat (be_val (take 8 (drop p bytes))))))"
proof -
  let ?v = "of_nat (be_val (take 8 (drop p bytes))) :: u64"
  have v: "read_unsigned64 (drop p bytes) = Some ?v" using assms(2) by (intro read_unsigned64_be) simp
  show ?thesis
    unfolding amount_formatter_def assms(1) data_ptr.simps Option.bind.bind_lunit v
    using format_xrp_spec [of n ?v] assms(3,4,5) invalid_amount_fits [of "replicate n NUL" n]
    by (simp add: xrp_amount_text_def)
qed

lemma amount_formatter_issued:
  assumes "fdata field = DPtr p" and "p + 28 \<le> length bytes" and "fld_length field = 48"
    and "104 \<le> n" and "n < 2 ^ 16"
  shows "amount_formatter bytes field (replicate n NUL) =
     Some (padded n (issued_amount_text (of_nat (be_val (take 8 (drop p bytes))))
       (take 20 (drop (p + 8) bytes))))"
proof -
  let ?v = "of_nat (be_val (take 8 (drop p bytes))) :: u64"
  let ?c = "take 20 (drop (p + 8) bytes)"
  have v: "read_unsigned64 (drop p bytes) = Some ?v" using assms(2) by (intro read_unsigned64_be) simp
  have c: "peek bytes (p + 8) 20 = Some ?c" and lc: "length ?c = 20" using assms(2) by simp_all
  note tk = ticker_text_props [OF lc]
  from format_issued_currency_spec [OF tk assms(4,5), of ?v] obtain buf where buf: "length buf = n"
    "format_issued_currency ?v (padded n (ticker_text ?c)) n =
      (if issued_valid ?v then Some (0, padded n (if ticker_text ?c = [] then issued_text ?v
         else ticker_text ?c @ '' '' @ issued_text ?v)) else Some (-1, buf))" by blast
  have l: "length (padded n (ticker_text ?c)) = n" using tk(1) assms(4) by simp
  show ?thesis
    unfolding amount_formatter_def assms(1) data_ptr.simps Option.bind.bind_lunit v c
    using assms(3,4) format_standard_currency_spec [OF lc, of n] buf invalid_amount_fits [OF buf(1)]
    by (simp add: issued_amount_text_def l del: length_padded)
qed

lemma amount_text_props:
  assumes "length c = 20"
  shows "NUL \<notin> set (issued_amount_text v c)" and "issued_amount_text v c \<noteq> []"
    and "length (issued_amount_text v c) \<le> 103"
    and "NUL \<notin> set (xrp_amount_text v)" and "xrp_amount_text v \<noteq> []" and "length (xrp_amount_text v) \<le> 24"
  using ticker_text_props [OF assms] issued_text_nonempty [of v] length_issued_text [of v]
    length_xrp_text [of "unat (v XOR 0x4000000000000000)"]
  by (auto simp: issued_amount_text_def xrp_amount_text_def)

text \<open>
  C18. An issued amount reads back. For a field of 48 bytes whose value is zero or has an
  exponent and a mantissa the XRP Ledger allows, the text shown is the ticker, where the currency
  is a standard code or XRP, and a decimal text that reads back as exactly the value on the
  wire: sign, all 16 digits of the mantissa and the whole range of exponents. Every other
  value is shown as an invalid amount. It fits the buffer of both targets.
\<close>

theorem issued_amount_reads_back:
  assumes "fdata field = DPtr p" and "p + 28 \<le> length bytes" and "fld_length field = 48"
    and "104 \<le> n" and "n < 2 ^ 16"
    and "v = of_nat (be_val (take 8 (drop p bytes)))" and "c = take 20 (drop (p + 8) bytes)"
  shows "(if issued_valid v
     then amount_formatter bytes field (replicate n NUL) =
            Some (padded n (if ticker_text c = [] then issued_text v
                            else ticker_text c @ '' '' @ issued_text v)) \<and>
          read_decimal (issued_text v) = Some (issued_value v)
     else amount_formatter bytes field (replicate n NUL) = Some (padded n ''Invalid amount!''))"
  using amount_formatter_issued [OF assms(1-5)] read_issued_text [of v]
  by (simp add: issued_amount_text_def flip: assms(6,7))

theorem issued_amount_reads_back_witness:
  "amount_formatter
      ([0xD4, 0x85, 0x54, 0x3D, 0xF7, 0x29, 0xC0, 0x00] @ standard_code 0x55 0x53 0x44 @ replicate 20 7)
      (zero_field\<lparr>data_type := STI_AMOUNT, fld_id := 1, fld_length := 48, fdata := DPtr 0\<rparr>)
      (replicate 128 NUL) = Some (padded 128 ''USD 1.5'') \<and>
   read_decimal ''1.5'' = Some (issued_value 15313738733059686400)"
proof -
  let ?b = "[0xD4, 0x85, 0x54, 0x3D, 0xF7, 0x29, 0xC0, 0x00] @ standard_code 0x55 0x53 0x44 @ replicate 20 7"
  let ?f = "zero_field\<lparr>data_type := STI_AMOUNT, fld_id := 1, fld_length := 48, fdata := DPtr 0\<rparr>"
  let ?v = "15313738733059686400 :: u64"
  have v: "?v = of_nat (be_val (take 8 (drop 0 ?b)))" by (simp add: be_val_def)
  have c: "standard_code 0x55 0x53 0x44 = take 20 (drop (0 + 8) ?b)" by simp
  have pos: "issued_positive ?v" by (simp add: issued_positive_def bit_iff_odd)
  have ex: "issued_exponent ?v = -15" by (simp add: issued_exponent_def)
  have man: "issued_mantissa ?v = 1500000000000000" by (simp add: issued_mantissa_def)
  have val: "issued_valid ?v" by (simp add: issued_valid_def ex man)
  have nz: "\<not> issued_zero ?v" by (simp add: issued_zero_def pos)
  have norm: "normalize 1500000000000000 (-15) = (15, -1)" by (simp add: normalize.simps)
  have t: "issued_text ?v = ''1.5''"
    by (simp add: issued_text_def nz pos ex norm num_digits.simps place_point_def digit_chars)
  have tk: "ticker_text (standard_code 0x55 0x53 0x44) = ''USD''" by code_simp
  show ?thesis
    using issued_amount_reads_back [of ?f 0 ?b 128, OF _ _ _ _ _ v c] val
    by (simp add: t tk)
qed

section \<open>What is called XRP\<close>

lemma strstr_iff: "strstr h s \<longleftrightarrow> (\<exists>a b. h = a @ s @ b)"
proof
  assume "strstr h s"
  then obtain i where "take (length s) (drop i h) = s" by (auto simp: strstr_def list_ex_iff)
  then have "h = take i h @ s @ drop (length s) (drop i h)" by (metis append_take_drop_id)
  then show "\<exists>a b. h = a @ s @ b" by blast
next
  assume "\<exists>a b. h = a @ s @ b"
  then obtain a b where "h = a @ s @ b" by blast
  then have "length a \<in> set [0..<length h + 1] \<and> take (length s) (drop (length a) h) = s" by simp
  then show "strstr h s" unfolding strstr_def list_ex_iff by blast
qed

lemma ticker_XRP_iff:
  assumes "length c = 20"
  shows "ticker_text c = ''XRP'' \<longleftrightarrow> is_all_zeros c"
proof
  assume x: "ticker_text c = ''XRP''"
  show "is_all_zeros c"
  proof (rule ccontr)
    assume z: "\<not> is_all_zeros c"
    have std: "\<not> has_non_standard_currency_internal c" using x by (auto simp: ticker_text_def)
    obtain a b d where abd: "take 3 (drop 12 c) = [a, b, d]" "c = standard_code a b d"
      using standard_ticker [OF assms std z] by blast
    have "map char_of_u8 [a, b, d] = ''XRP''" using x std z abd(1) by (simp add: ticker_text_def)
    moreover have "''XRP'' = map char_of_u8 [0x58, 0x52, 0x50]" by code_simp
    ultimately have "c = standard_code 0x58 0x52 0x50" using abd(2) by (simp add: inj_char_of_u8)
    then have "\<not> is_standard_currency_code c" using is_standard_currency_code_iff [OF assms] by blast
    with std z show False by (simp add: has_non_standard_currency_internal_def)
  qed
qed (simp add: ticker_text_def has_non_standard_currency_internal_def)

lemma currency_XRP_iff:
  assumes "length c = 20"
  shows "strstr (currency_text c) ''XRP'' \<longleftrightarrow> is_all_zeros c"
proof (cases "has_non_standard_currency_internal c")
  case False
  have "strstr (ticker_text c) ''XRP'' \<longleftrightarrow> ticker_text c = ''XRP''"
  proof
    assume "strstr (ticker_text c) ''XRP''"
    then obtain a b where ab: "ticker_text c = a @ ''XRP'' @ b" unfolding strstr_iff by blast
    with ticker_text_props(1) [OF assms] have "a = []" "b = []" by auto
    with ab show "ticker_text c = ''XRP''" by simp
  next
    assume "ticker_text c = ''XRP''"
    then have "ticker_text c = [] @ ''XRP'' @ []" by simp
    then show "strstr (ticker_text c) ''XRP''" unfolding strstr_iff by blast
  qed
  with False show ?thesis by (simp add: currency_text_def ticker_XRP_iff [OF assms])
next
  case True
  then have z: "\<not> is_all_zeros c" by (simp add: has_non_standard_currency_internal_def)
  have "\<not> strstr (hex_text c) ''XRP''"
  proof
    assume "strstr (hex_text c) ''XRP''"
    then have "CHR ''X'' \<in> set (hex_text c)" by (auto simp: strstr_iff)
    moreover have "hex d \<noteq> CHR ''X''" if "d < 16" for d
    proof
      assume "hex d = CHR ''X''"
      then have "of_char (hex d) = (88 :: nat)" by simp
      moreover have "unat d < 16" using that by (simp add: word_less_nat_alt)
      ultimately show False by (auto simp: hex_def split: if_splits)
    qed
    ultimately show False using hex_nibbles(1,2) by (fastforce simp: hex_text_def)
  qed
  with True z show ?thesis by (auto simp: currency_text_def shown_as_ascii_def)
qed

lemma currency_formatter_spec:
  assumes "fdata field = DPtr p" and "p + 20 \<le> length bytes" and "40 \<le> n"
  shows "currency_formatter bytes field (replicate n NUL) =
     Some (padded n (currency_text (take 20 (drop p bytes))))"
proof -
  have pk: "peek bytes p 20 = Some (take 20 (drop p bytes))" and l: "length (take 20 (drop p bytes)) = 20"
    using assms(2) by simp_all
  show ?thesis
    unfolding currency_formatter_def assms(1) data_ptr.simps Option.bind.bind_lunit pk
    using format_non_standard_currency_spec [OF l assms(3)] by blast
qed

text \<open>
  C20. Only XRP is called XRP. A currency field is shown as \<open>currency_text\<close> of its 20 bytes, in
  bounds and terminated. The letters XRP occur in the text exactly for the 20 zero bytes of the
  native currency, whatever a non-standard code contains, and an issued amount carries the
  ticker XRP only then. A code that is shown in hexadecimal reads back as its bytes.
\<close>

theorem only_xrp_is_called_xrp:
  assumes "fdata field = DPtr p" and "p + 20 \<le> length bytes" and "40 < n"
    and "c = take 20 (drop p bytes)"
  shows "currency_formatter bytes field (replicate n NUL) = Some (padded n (currency_text c)) \<and>
     NUL \<notin> set (currency_text c) \<and> 0 < length (currency_text c) \<and> length (currency_text c) < n \<and>
     (strstr (currency_text c) ''XRP'' \<longleftrightarrow> c = replicate 20 0) \<and>
     (ticker_text c = ''XRP'' \<longleftrightarrow> c = replicate 20 0) \<and>
     (if has_non_standard_currency_internal c \<and> \<not> shown_as_ascii c
      then read_hex_text (currency_text c) = c else True)"
proof -
  have lc: "length c = 20" using assms(2,4) by simp
  show ?thesis
    using currency_formatter_spec [OF assms(1,2), of n] format_non_standard_currency_spec [OF lc, of n]
      currency_XRP_iff [OF lc] ticker_XRP_iff [OF lc] is_all_zeros_iff [of c] lc assms(3,4)
    by (auto simp: currency_text_def)
qed

theorem only_xrp_is_called_xrp_witness:
  "currency_formatter (replicate 7 1 @ map of_char ''XRPL'' @ replicate 16 0)
     (zero_field\<lparr>data_type := STI_CURRENCY, fld_id := 1, fld_length := 20, fdata := DPtr 7\<rparr>)
     (replicate 128 NUL) =
       Some (padded 128 ''5852504c00000000000000000000000000000000'')"
proof -
  let ?c = "map of_char ''XRPL'' @ replicate 16 0 :: u8 list"
  have c: "?c = take 20 (drop 7 (replicate 7 1 @ ?c))" by simp
  have t: "currency_text ?c = ''5852504c00000000000000000000000000000000''" by code_simp
  show ?thesis
    using only_xrp_is_called_xrp [of _ 7 "replicate 7 1 @ ?c" 128, OF _ _ _ c,
      of "zero_field\<lparr>data_type := STI_CURRENCY, fld_id := 1, fld_length := 20, fdata := DPtr 7\<rparr>"]
    by (simp only: t) simp
qed

text \<open>
  What the display does not tell apart: a standard code and the non-standard code whose first
  bytes are the same characters, both accepted by \<open>is_valid_currency\<close>.
\<close>

lemma ascii_code_looks_standard:
  "let c = standard_code 0x55 0x53 0x44; d = [0x55, 0x53, 0x44] @ replicate 17 0 in
   is_valid_currency c \<and> is_valid_currency d \<and> c \<noteq> d \<and>
   currency_text c = ''USD'' \<and> currency_text d = ''USD''"
  by code_simp

section \<open>The loops end\<close>

text \<open>
  The counting loop only ends with a \<open>base\<close> above the value. For the largest value there is none,
  so there the loop does not end.
\<close>

lemma base_loop_above: "base_loop base n v = Some r \<Longrightarrow> v < fst r"
  by (erule base_loop.raw_induct [where P = "\<lambda>_ _ v r. v < fst r", rotated])
    (auto simp: not_le split: if_splits)

lemma base_loop_diverges: "base_loop base n (- 1) = None"
proof (cases "base_loop base n (- 1)")
  case (Some r)
  from base_loop_above [OF this] show ?thesis by (simp add: not_less word_le_nat_alt [symmetric])
qed

text \<open>
  C28. Printing a decimal number ends. The loop that counts the digits of a 64-bit number ends for every
  number below \<open>10 ^ 19\<close> and never ends for the largest one. The range checks and the normalisation
  of \<open>parse_decimal_number\<close> keep it in the first case: whatever sign, exponent and mantissa it is
  given, it returns, inside its buffer.
\<close>

theorem decimal_printing_returns:
  assumes "100 \<le> n" and "n < 2 ^ 16" and "unat v < 10 ^ 19"
  shows "(\<exists>r. base_loop 1 0 v = Some r) \<and> base_loop 1 0 (- 1) = None \<and>
     (\<exists>e dst. parse_decimal_number (replicate n NUL) n sign exponent mantissa = Some (e, dst) \<and>
        length dst = n)"
proof (intro conjI)
  show "\<exists>r. base_loop 1 0 v = Some r"
    using base_loop_spec [of 0 v] assms(3) by (simp add: num_digits_le_iff)
  show "base_loop 1 0 (- 1) = None" by (rule base_loop_diverges)
  obtain m' e' where norm: "normalize mantissa exponent = (m', e')" by (cases "normalize mantissa exponent")
  let ?t = "place_point (dec_digits (num_digits (unat m')) (unat m')) e'"
  obtain k where n: "n = Suc k" using assms(1) by (cases n) auto
  show "\<exists>e dst. parse_decimal_number (replicate n NUL) n sign exponent mantissa = Some (e, dst) \<and> length dst = n"
  proof (cases "MANTISSA_MIN \<le> mantissa \<and> mantissa \<le> MANTISSA_MAX \<and> EXP_MIN \<le> exponent \<and> exponent \<le> EXP_MAX")
    case True
    have dec: "print_decimal (replicate j NUL) j exponent mantissa = Some (0, padded j ?t) \<and> length (padded j ?t) = j"
      if "99 \<le> j" "j < 2 ^ 16" for j
    proof -
      have "10 ^ 15 \<le> unat mantissa" "unat mantissa < 10 ^ 16"
        using True by (simp_all add: word_le_nat_alt)
      with normalized_digits [OF norm] True length_place_point [of "dec_digits (num_digits (unat m')) (unat m')" e']
      have "length ?t \<le> j" using that(1) by simp
      with print_decimal_spec [OF norm, of j] True that show ?thesis by simp
    qed
    show ?thesis
      using True dec [of n] dec [of k] assms(1,2) n
      by (auto simp: parse_decimal_number_def poke_def not_less [symmetric])
  next
    case False
    then show ?thesis
      using assms(1) by (auto simp: parse_decimal_number_def poke_def not_less [symmetric])
  qed
qed

theorem decimal_printing_returns_witness:
  "\<exists>r e dst. base_loop 1 0 9999999999999999 = Some r \<and> base_loop 1 0 (- 1) = None \<and>
     parse_decimal_number (replicate 128 NUL) 128 1 80 9999999999999999 = Some (e, dst) \<and> length dst = 128"
  using decimal_printing_returns [of 128 9999999999999999 1 80 9999999999999999] by auto

end
