(* ===== verification/Format_Field.thy ===== *)
theory Format_Field
  imports Byte_Fields Amount Parser_Safety
begin

text \<open>
  \<open>src/src/xrp/fmt.c\<close>: the formatter of a field, whatever its type, and what the review shows for
  each field of a parsed transaction.
\<close>

section \<open>The code\<close>

text \<open>
  \<open>format_field\<close> has a return code no formatter ever sets, left out here. \<open>tx\<close> is the transaction
  type in the parse context and \<open>bytes\<close> the transaction.
\<close>

definition format_by_type ::
  "target \<Rightarrow> 'key sdk \<Rightarrow> u16 \<Rightarrow> u8 list \<Rightarrow> field_t \<Rightarrow> string \<Rightarrow> string option" where
  "format_by_type tgt sdk tx bytes field dst =
     (let t = data_type field in
      if t = STI_UINT8 then uint8_formatter field dst
      else if t = STI_UINT16 then uint16_formatter field dst
      else if t = STI_UINT32 then uint32_formatter tx field dst
      else if t = STI_HASH128 then hash_formatter128 bytes field dst
      else if t = STI_HASH256 then hash_formatter256 bytes field dst
      else if t = STI_AMOUNT then amount_formatter bytes field dst
      else if t = STI_VL then blob_formatter bytes field dst
      else if t = STI_VECTOR256 then vector_formatter256 field dst
      else if t = STI_ACCOUNT then account_formatter tgt sdk bytes field dst
      else if t = STI_CURRENCY then currency_formatter bytes field dst
      else if t = STI_ISSUE then currency_formatter bytes field dst
      else strncpy dst 0 ''[Not implemented]'' (length dst))"

definition format_field ::
  "target \<Rightarrow> 'key sdk \<Rightarrow> u16 \<Rightarrow> u8 list \<Rightarrow> field_t \<Rightarrow> string \<Rightarrow> string option" where
  "format_field tgt sdk tx bytes field dst =
     Option.bind (memset dst 0 NUL (length dst)) (\<lambda>dst.
     Option.bind (format_by_type tgt sdk tx bytes field dst) (\<lambda>dst.
     Option.bind (peek dst 0 1) (\<lambda>c. if c = [NUL] then poke dst 0 '' '' else Some dst)))"

section \<open>What a field is shown as\<close>

text \<open>The bytes a field points to.\<close>

definition content :: "u8 list \<Rightarrow> field_t \<Rightarrow> u8 list" where
  "content bytes f =
     (case fdata f of DPtr p \<Rightarrow> take (unat (fld_length f)) (drop p bytes) | _ \<Rightarrow> [])"

text \<open>The text of a field (specification).\<close>

definition field_text :: "target \<Rightarrow> 'key sdk \<Rightarrow> u16 \<Rightarrow> u8 list \<Rightarrow> field_t \<Rightarrow> string" where
  "field_text tgt sdk tx bytes f =
     (let t = data_type f; c = content bytes f in
      if t = STI_UINT8 then print_dec (unat (the (data_u8 (fdata f))))
      else if t = STI_UINT16 then uint16_text f (the (data_u16 (fdata f)))
      else if t = STI_UINT32 then uint32_text tx f (the (data_u32 (fdata f)))
      else if t = STI_HASH128 \<or> t = STI_HASH256 then hex_text c
      else if t = STI_AMOUNT then
        (if length c = 8 then xrp_amount_text (of_nat (be_val c))
         else issued_amount_text (of_nat (be_val (take 8 c))) (take 20 (drop 8 c)))
      else if t = STI_VL then blob_text (MAX_FIELD_LEN tgt) f c
      else if t = STI_VECTOR256 then print_dec (length c div 32)
      else if t = STI_ACCOUNT then (if c = [] then ''[empty]'' else account_text tgt sdk c)
      else if t = STI_CURRENCY \<or> t = STI_ISSUE then currency_text (take 20 c)
      else ''[Not implemented]'')"

definition shown_text :: "target \<Rightarrow> 'key sdk \<Rightarrow> u16 \<Rightarrow> u8 list \<Rightarrow> field_t \<Rightarrow> string" where
  "shown_text tgt sdk tx bytes f =
     (if field_text tgt sdk tx bytes f = [] then '' '' else field_text tgt sdk tx bytes f)"

lemma MAX_FIELD_LEN_bounds: "128 \<le> MAX_FIELD_LEN tgt" "MAX_FIELD_LEN tgt \<le> 1024"
  by (cases tgt; simp add: MAX_FIELD_LEN_def)+

text \<open>A formatter that shows a text which is not empty.\<close>

definition displays :: "nat \<Rightarrow> string option \<Rightarrow> string \<Rightarrow> bool" where
  "displays n r s \<longleftrightarrow> holds n r s \<and> s \<noteq> [] \<and> length s < n"

lemma displays_padded: "r = Some (padded n s) \<Longrightarrow> NUL \<notin> set s \<Longrightarrow> s \<noteq> [] \<Longrightarrow> length s < n \<Longrightarrow> displays n r s"
  by (simp add: displays_def holds_padded)

lemma spans_ptr:
  assumes "spans m P f" and "m \<le> length bytes"
  obtains p where "fdata f = DPtr p" and "p + unat (fld_length f) \<le> length bytes"
    and "P (unat (fld_length f))" and "content bytes f = take (unat (fld_length f)) (drop p bytes)"
    and "length (content bytes f) = unat (fld_length f)"
proof -
  obtain p where p: "fdata f = DPtr p" "P (unat (fld_length f))" "p + unat (fld_length f) \<le> m"
    using assms(1) by (cases "fdata f") (auto simp: spans_def)
  with assms(2) that [of p] show ?thesis by (simp add: content_def)
qed

lemma displays_numbers:
  assumes "field_shape m f" and "data_type f = STI_UINT8 \<or> data_type f = STI_UINT16 \<or> data_type f = STI_UINT32"
    and "128 \<le> n"
  shows "displays n (format_by_type tgt sdk tx bytes f (replicate n NUL)) (field_text tgt sdk tx bytes f)"
proof -
  consider (a) v where "data_type f = STI_UINT8" "fdata f = DU8 v"
    | (b) v where "data_type f = STI_UINT16" "fdata f = DU16 v"
    | (c) v where "data_type f = STI_UINT32" "fdata f = DU32 v"
    using assms(1,2) by (cases "fdata f") (auto simp: field_shape_def)
  then show ?thesis
  proof cases
    case a
    have "length (print_dec (unat v)) \<le> 10"
      using length_print_u [of "unat v"] unat_u8_less [of v] by simp
    with a assms(3) show ?thesis
      by (intro displays_padded) (simp_all add: format_by_type_def field_text_def uint8_formatter_spec)
  next
    case b
    have "length (print_dec (unat v)) \<le> 10"
      using length_print_u [of "unat v"] unat_u16_less [of v] by simp
    with b assms(3) transaction_name_text [of v] show ?thesis
      by (intro displays_padded)
        (simp_all add: format_by_type_def field_text_def uint16_formatter_spec uint16_text_def)
  next
    case c
    with uint32_formatter_spec [OF c(2) assms(3), of tx] assms(3) show ?thesis
      by (intro displays_padded) (simp_all add: format_by_type_def field_text_def)
  qed
qed

lemma displays_bytes:
  assumes "field_shape m f" and "m \<le> length bytes" and "128 \<le> n" and "n = MAX_FIELD_LEN tgt"
    and "data_type f \<in> {STI_HASH128, STI_HASH256, STI_VECTOR256, STI_CURRENCY, STI_ISSUE, STI_AMOUNT}"
  shows "displays n (format_by_type tgt sdk tx bytes f (replicate n NUL)) (field_text tgt sdk tx bytes f)"
proof -
  have n16: "n < 2 ^ 16" using MAX_FIELD_LEN_bounds [of tgt] assms(4) by simp
  define k where "k = unat (fld_length f)"
  from assms(1,5) have sp: "spans m (\<lambda>k. (data_type f = STI_HASH128 \<longrightarrow> k = 16) \<and>
      (data_type f = STI_HASH256 \<longrightarrow> k = 32) \<and> (data_type f = STI_AMOUNT \<longrightarrow> k = 8 \<or> k = 48) \<and>
      (data_type f = STI_CURRENCY \<longrightarrow> k = 20) \<and> (data_type f = STI_ISSUE \<longrightarrow> k = 20 \<or> k = 40)) f"
    by (auto simp: field_shape_def spans_def split: field_data.splits)
  obtain p where p: "fdata f = DPtr p" "p + k \<le> length bytes"
    and k: "data_type f = STI_HASH128 \<Longrightarrow> k = 16" "data_type f = STI_HASH256 \<Longrightarrow> k = 32"
      "data_type f = STI_AMOUNT \<Longrightarrow> k = 8 \<or> k = 48" "data_type f = STI_CURRENCY \<Longrightarrow> k = 20"
      "data_type f = STI_ISSUE \<Longrightarrow> k = 20 \<or> k = 40"
    and c: "content bytes f = take k (drop p bytes)" and lc: "length (content bytes f) = k"
    by (rule spans_ptr [OF sp assms(2)]) (auto simp: k_def)
  from assms(5) consider (h1) "data_type f = STI_HASH128" | (h2) "data_type f = STI_HASH256"
    | (v) "data_type f = STI_VECTOR256" | (cur) "data_type f = STI_CURRENCY \<or> data_type f = STI_ISSUE"
    | (am) "data_type f = STI_AMOUNT" by auto
  then show ?thesis
  proof cases
    case h1
    have l: "length (hex_text (content bytes f)) = 32" using k(1) [OF h1] lc by simp
    then have "hex_text (content bytes f) \<noteq> []" by force
    with l show ?thesis
      using h1 k(1) [OF h1] c hash_formatter_spec [OF p(1), of 16 bytes n] p(2) assms(3)
      by (intro displays_padded) (auto simp: format_by_type_def field_text_def hash_formatter128_def)
  next
    case h2
    have l: "length (hex_text (content bytes f)) = 64" using k(2) [OF h2] lc by simp
    then have "hex_text (content bytes f) \<noteq> []" by force
    with l show ?thesis
      using h2 k(2) [OF h2] c hash_formatter_spec [OF p(1), of 32 bytes n] p(2) assms(3)
      by (intro displays_padded) (auto simp: format_by_type_def field_text_def hash_formatter256_def)
  next
    case v
    have "k div 32 \<le> k" "k < 65536" unfolding k_def by (rule div_le_dividend, rule unat_u16_less)
    then have "k div 32 < 4294967296" by linarith
    then have "length (print_dec (k div 32)) \<le> 10" using length_print_u [of "k div 32"] by simp
    then show ?thesis
      using v assms(3) vector_formatter256_spec [of n f] lc
      by (intro displays_padded) (simp_all add: format_by_type_def field_text_def k_def)
  next
    case cur
    then have "20 \<le> k" using k(4,5) by auto
    then have t: "take 20 (content bytes f) = take 20 (drop p bytes)" and l: "length (take 20 (drop p bytes)) = 20"
      using c p(2) by (auto simp: min_def)
    show ?thesis
      using cur currency_formatter_spec [OF p(1), of bytes n] p(2) assms(3) \<open>20 \<le> k\<close> t
        format_non_standard_currency_spec [OF l, of n]
      by (intro displays_padded) (auto simp: format_by_type_def field_text_def)
  next
    case am
    show ?thesis
    proof (cases "k = 8")
      case True
      have fl: "fld_length f = 8" using True by (simp add: k_def word_unat_eq_iff)
      show ?thesis
        using am True c lc amount_formatter_xrp [OF p(1) _ fl, of bytes n] p(2) assms(3) n16
          amount_text_props(4-6) [of "replicate 20 0" "of_nat (be_val (take 8 (drop p bytes)))"]
        by (intro displays_padded) (auto simp: format_by_type_def field_text_def)
    next
      case False
      then have k48: "k = 48" using k(3) [OF am] by simp
      have fl: "fld_length f = 48" using k48 by (simp add: k_def word_unat_eq_iff)
      have l: "length (take 20 (drop (p + 8) bytes)) = 20" using p(2) k48 by simp
      have parts: "take 8 (content bytes f) = take 8 (drop p bytes)"
        "take 20 (drop 8 (content bytes f)) = take 20 (drop (p + 8) bytes)"
        by (simp_all add: c k48 drop_take add.commute)
      have "field_text tgt sdk tx bytes f =
          issued_amount_text (of_nat (be_val (take 8 (drop p bytes)))) (take 20 (drop (p + 8) bytes))"
        using am lc k48 parts by (simp add: field_text_def)
      moreover have "format_by_type tgt sdk tx bytes f (replicate n NUL) =
          amount_formatter bytes f (replicate n NUL)"
        using am by (simp add: format_by_type_def)
      ultimately show ?thesis
        using amount_formatter_issued [OF p(1) _ fl, of bytes n] p(2) k48 assms(3) n16
          amount_text_props(1-3) [OF l, of "of_nat (be_val (take 8 (drop p bytes)))"]
        by (intro displays_padded) (auto intro: le_less_trans)
    qed
  qed
qed

lemma displays_account:
  assumes "sdk_contract sdk" and "field_shape m f" and "m \<le> length bytes" and "128 \<le> n"
    and "data_type f = STI_ACCOUNT"
  shows "displays n (format_by_type tgt sdk tx bytes f (replicate n NUL)) (field_text tgt sdk tx bytes f)"
proof (cases "fdata f = DZero")
  case True
  then show ?thesis
    using assms(4,5) by (intro displays_padded)
      (simp_all add: format_by_type_def field_text_def account_formatter_def content_def strncpy_whole_fits)
next
  case False
  with assms(2,5) have "spans m (\<lambda>k. k = 20) f" by (simp add: field_shape_def)
  then obtain p where p: "fdata f = DPtr p" "p + unat (fld_length f) \<le> length bytes" "unat (fld_length f) = 20"
    and c: "content bytes f = take (unat (fld_length f)) (drop p bytes)"
    and l: "length (content bytes f) = unat (fld_length f)"
    by (rule spans_ptr [OF _ assms(3)])
  have lc: "length (content bytes f) = 20" using l p(3) by simp
  then have ne: "content bytes f \<noteq> []" by auto
  have "holds n (account_formatter tgt sdk bytes f (replicate n NUL)) (account_text tgt sdk (content bytes f))"
    using account_formatter_spec [OF assms(1) p(1), of bytes n] p(2,3) c assms(4) by simp
  then show ?thesis
    using ne assms(4,5) account_text_props [OF assms(1) lc, of tgt]
    by (simp add: displays_def format_by_type_def field_text_def)
qed

text \<open>
  The blob of no bytes is the one empty text, and then the whole buffer is zero.
\<close>

lemma holds_blob:
  assumes "field_shape m f" and "m \<le> length bytes" and "n = MAX_FIELD_LEN tgt" and "data_type f = STI_VL"
  shows "holds n (format_by_type tgt sdk tx bytes f (replicate n NUL)) (field_text tgt sdk tx bytes f) \<and>
     length (field_text tgt sdk tx bytes f) < n \<and>
     (if field_text tgt sdk tx bytes f = []
      then format_by_type tgt sdk tx bytes f (replicate n NUL) = Some (replicate n NUL) else True)"
proof -
  have n: "128 \<le> n" using MAX_FIELD_LEN_bounds [of tgt] assms(3) by simp
  from assms(1,4) have "spans m (\<lambda>k. True) f" by (simp add: field_shape_def)
  then obtain p where p: "fdata f = DPtr p" "p + unat (fld_length f) \<le> length bytes"
    and c: "content bytes f = take (unat (fld_length f)) (drop p bytes)"
    and l: "length (content bytes f) = unat (fld_length f)"
    by (rule spans_ptr [OF _ assms(2)])
  have ft: "field_text tgt sdk tx bytes f = blob_text n f (content bytes f)"
    and fb: "format_by_type tgt sdk tx bytes f (replicate n NUL) = blob_formatter bytes f (replicate n NUL)"
    using assms(3,4) by (simp_all add: field_text_def format_by_type_def)
  note spec = blob_formatter_spec [OF p(1) c p(2), of n]
  have "blob_formatter bytes f (replicate n NUL) = Some (replicate n NUL)"
    if "blob_text n f (content bytes f) = []"
  proof -
    from that n have "content bytes f = []"
      by (auto simp: blob_text_def Let_def blob_full_text_def split: if_splits
        dest: arg_cong [of _ _ length])
    with l have "unat (fld_length f) = 0" by simp
    with p n show ?thesis
      using poke_last_padded [of "[]" n]
      by (simp add: blob_formatter_def Let_def peek_def read_hex_def read_hex_loop.simps padded_Nil)
        (simp add: poke_def)
  qed
  with spec n show ?thesis unfolding ft fb by simp
qed

text \<open>One fact for all types.\<close>

lemma space_first:
  "holds n (Some buf) s \<Longrightarrow> s \<noteq> [] \<Longrightarrow> Option.bind (peek buf 0 1) (\<lambda>c. if c = [NUL] then poke buf 0 '' '' else Some buf) = Some buf"
  by (cases buf) (auto simp: holds_def peek_def cstr_def)

lemma format_field_shows:
  assumes "sdk_contract sdk" and "field_shape m f" and "m \<le> length bytes"
    and "length dst = MAX_FIELD_LEN tgt"
  shows "displays (MAX_FIELD_LEN tgt) (format_field tgt sdk tx bytes f dst) (shown_text tgt sdk tx bytes f)"
proof -
  let ?n = "MAX_FIELD_LEN tgt" and ?s = "field_text tgt sdk tx bytes f"
  let ?r = "format_by_type tgt sdk tx bytes f (replicate ?n NUL)"
  have n: "128 \<le> ?n" by (rule MAX_FIELD_LEN_bounds)
  have zero: "memset dst 0 NUL (length dst) = Some (replicate ?n NUL)"
    using assms(4) by (simp add: memset_def poke_def)
  have run: "format_field tgt sdk tx bytes f dst =
      Option.bind ?r (\<lambda>dst. Option.bind (peek dst 0 1) (\<lambda>c. if c = [NUL] then poke dst 0 '' '' else Some dst))"
    unfolding format_field_def zero Option.bind.bind_lunit ..
  show ?thesis
  proof (cases "data_type f = STI_VL")
    case True
    note blob = holds_blob [OF assms(2,3) refl True, of tgt sdk tx]
    show ?thesis
    proof (cases "?s = []")
      case empty: True
      have "Option.bind (peek (replicate ?n NUL) 0 1)
          (\<lambda>c. if c = [NUL] then poke (replicate ?n NUL) 0 '' '' else Some (replicate ?n NUL)) =
          Some (padded ?n '' '')"
        using n by (cases ?n) (simp_all add: peek_def poke_def padded_def)
      then have "format_field tgt sdk tx bytes f dst = Some (padded ?n '' '')"
        using run blob empty by simp
      then show ?thesis using n empty by (auto intro: displays_padded simp: shown_text_def)
    next
      case False
      from blob obtain buf where "?r = Some buf" "holds ?n (Some buf) ?s" by (auto simp: holds_def)
      with run space_first [OF this(2) False] blob False show ?thesis
        by (simp add: displays_def shown_text_def)
    qed
  next
    case False
    have "displays ?n ?r ?s"
    proof (cases "data_type f \<in> {STI_UINT8, STI_UINT16, STI_UINT32, STI_HASH128, STI_HASH256,
        STI_VECTOR256, STI_CURRENCY, STI_ISSUE, STI_AMOUNT, STI_ACCOUNT}")
      case True
      then show ?thesis
        using displays_numbers [OF assms(2) _ n] displays_bytes [OF assms(2,3) n refl]
          displays_account [OF assms(1-3) n] by blast
    next
      case other: False
      with False n show ?thesis
        by (intro displays_padded) (simp_all add: format_by_type_def field_text_def strncpy_whole_fits)
    qed
    then have d: "holds ?n ?r ?s" "?s \<noteq> []" "length ?s < ?n" by (simp_all add: displays_def)
    then obtain buf where "?r = Some buf" "holds ?n (Some buf) ?s" by (auto simp: holds_def)
    with run space_first [OF this(2) d(2)] d show ?thesis
      by (simp add: displays_def shown_text_def)
  qed
qed

lemma parsed_field_shape:
  assumes "unat len \<le> length bytes" and "unat len \<le> MAX_LEN"
    and "parse_tx (init_context bytes len) = Some (r, d)"
    and "r = Inr () \<or> r = Inl BLIND_SIGN_REQUIRED" and "f \<in> set (used_fields (result d))"
  shows "field_shape (unat len) f"
proof -
  from parse_tx_ends [OF init_context_inv [OF assms(1,2)]] assms(3,4)
  have d: "ctx_inv {} d" "data d = bytes" "ctx_length d = len"
    by (auto simp: ends_well_def field_error_def init_context_def split: sum.splits)
  then have "pos d \<le> unat len" by (auto simp: ctx_inv_def ctx_ok_def)
  with inv_used_shape [OF d(1) assms(5)] d(2) show ?thesis by (auto intro: field_shape_mono)
qed

lemma parsed_fields_displayed:
  assumes "sdk_contract sdk" and "unat len \<le> length bytes" and "unat len \<le> MAX_LEN"
    and "parse_tx (init_context bytes len) = Some (r, d)"
    and "r = Inr () \<or> r = Inl BLIND_SIGN_REQUIRED" and "f \<in> set (used_fields (result d))"
    and "length dst = MAX_FIELD_LEN tgt"
  shows "displays (MAX_FIELD_LEN tgt) (format_field tgt sdk tx bytes f dst) (shown_text tgt sdk tx bytes f)"
  using format_field_shows [OF assms(1) parsed_field_shape [OF assms(2-6)] assms(2,7)] .

text \<open>
  C10. Every field of a parsed transaction is shown as what it is. Whatever the transaction, if
  the parser accepts it for a review, clear or blind, then \<open>format_field\<close> on any of its fields
  stays within its buffer, on either target, and leaves in it a terminated text that is not
  empty: \<open>shown_text\<close>, the specification of the review, which gives each type its text
  (numbers in decimal, amounts as decimal numbers with their currency, hashes and
  non-printable blobs in hexadecimal, accounts as addresses, dates, percentages and flags).
\<close>

theorem parsed_fields_are_shown:
  assumes "sdk_contract sdk" and "unat len \<le> length bytes" and "unat len \<le> MAX_LEN"
    and "parse_tx (init_context bytes len) = Some (r, d)"
    and "r = Inr () \<or> r = Inl BLIND_SIGN_REQUIRED" and "f \<in> set (used_fields (result d))"
    and "length dst = MAX_FIELD_LEN tgt"
  shows "\<exists>buf. format_field tgt sdk (transaction_type d) bytes f dst = Some buf \<and>
     length buf = MAX_FIELD_LEN tgt \<and> NUL \<in> set buf \<and>
     cstr buf = shown_text tgt sdk (transaction_type d) bytes f \<and> cstr buf \<noteq> []"
  using parsed_fields_displayed [OF assms, of "transaction_type d"]
  by (auto simp: displays_def holds_def)

theorem parsed_fields_are_shown_witness:
  "\<exists>d f buf. parse_tx (init_context payment_example 110) = Some (Inr (), d) \<and>
     f \<in> set (used_fields (result d)) \<and> data_type f = STI_AMOUNT \<and>
     format_field TARGET_NANOS demo_sdk (transaction_type d) payment_example f (replicate 128 NUL) = Some buf \<and>
     length buf = 128 \<and> cstr buf \<noteq> []"
proof -
  obtain d where d: "parse_tx (init_context payment_example 110) = Some (Inr (), d)"
    and t: "map data_type (used_fields (result d)) =
      [STI_UINT16, STI_ACCOUNT, STI_AMOUNT, STI_AMOUNT, STI_ACCOUNT]"
    using payment_example_parses by (elim exE conjE)
  have "STI_AMOUNT \<in> set (map data_type (used_fields (result d)))" by (simp add: t)
  then obtain f where f: "f \<in> set (used_fields (result d))" "data_type f = STI_AMOUNT"
    by (metis imageE list.set_map)
  have len: "unat (110 :: u32) \<le> length payment_example" "unat (110 :: u32) \<le> MAX_LEN"
    by (simp_all add: payment_example_def MAX_LEN_def)
  have dst: "length (replicate 128 NUL) = MAX_FIELD_LEN TARGET_NANOS" by (simp add: MAX_FIELD_LEN_def)
  from parsed_fields_are_shown [OF demo_sdk_contract len d _ f(1) dst] d f show ?thesis
    by (auto simp: MAX_FIELD_LEN_def)
qed

section \<open>Different values look different\<close>

text \<open>
  The kinds of field whose text has to determine the value: hashes, accounts, XRP amounts, times
  and plain 32-bit numbers. (Flags, percentages with their defaults, blobs cut to the buffer
  and currencies have texts that several values share.)
\<close>

definition exactly_shown :: "field_t \<Rightarrow> bool" where
  "exactly_shown f \<longleftrightarrow>
     data_type f = STI_HASH128 \<or> data_type f = STI_HASH256 \<or>
     (data_type f = STI_ACCOUNT \<and> fdata f \<noteq> DZero) \<or>
     (data_type f = STI_AMOUNT \<and> fld_length f = 8) \<or>
     (data_type f = STI_UINT32 \<and> \<not> is_flag f \<and> \<not> is_percentage f)"

text \<open>An amount of 8 bytes that is shown as XRP: bit 62 set, and the others give less than \<open>10 ^ 19\<close> drops.\<close>

definition xrp_amount_valid :: "u64 \<Rightarrow> bool" where
  "xrp_amount_valid v \<longleftrightarrow> bit v 62 \<and> unat (v XOR 0x4000000000000000) < 10 ^ 19"

text \<open>
  What such a type of field promises: a reader that gets the meaning of a value back from its text.
  Then the text determines the value.
\<close>

locale readable_text =
  fixes text_of :: "'a \<Rightarrow> string" and read_back :: "string \<Rightarrow> 'b" and meaning :: "'a \<Rightarrow> 'b"
  assumes reads_back: "read_back (text_of v) = meaning v"
    and meaning_inj: "meaning v = meaning w \<Longrightarrow> v = w"
begin

lemma text_inj: "text_of v = text_of w \<Longrightarrow> v = w"
  by (metis reads_back meaning_inj)

end

interpretation number: readable_text print_dec dec_val "\<lambda>n. n"
  by unfold_locales simp_all

interpretation two_digits: readable_text "print_dec_pad 2" dec_val "\<lambda>n. n"
  by unfold_locales simp_all

interpretation hex_bytes: readable_text hex_text read_hex_text "\<lambda>bs. bs"
  by unfold_locales simp_all

interpretation drops: readable_text xrp_text "\<lambda>s. read_decimal (drop 4 s)" "\<lambda>n. Some (of_nat n / 10 ^ 6)"
proof
  show "read_decimal (drop 4 (xrp_text n)) = Some (of_nat n / 10 ^ 6)" for n by (rule read_xrp_text)
qed simp

lemma xrp_amount_text_inj:
  assumes "xrp_amount_valid v \<or> xrp_amount_valid w" and "xrp_amount_text v = xrp_amount_text w"
  shows "v = w"
proof -
  have "xrp_text k \<noteq> ''Invalid amount!''" "''Invalid amount!'' \<noteq> xrp_text k" for k
    by (simp_all add: xrp_text_def)
  moreover have "xrp_amount_text u = (if xrp_amount_valid u then xrp_text (unat (u XOR 0x4000000000000000))
      else ''Invalid amount!'')" for u by (simp add: xrp_amount_valid_def xrp_amount_text_def)
  ultimately have "xrp_amount_valid v" "xrp_amount_valid w"
    using assms by (auto split: if_splits)
  have "unat (v XOR 0x4000000000000000) = unat (w XOR 0x4000000000000000)"
    using assms(2) \<open>xrp_amount_valid v\<close> \<open>xrp_amount_valid w\<close>
    by (intro drops.text_inj) (simp add: xrp_amount_valid_def xrp_amount_text_def)
  then have "v XOR 0x4000000000000000 = w XOR 0x4000000000000000" by (rule unat_eqI)
  then have "(v XOR 0x4000000000000000) XOR 0x4000000000000000 = (w XOR 0x4000000000000000) XOR 0x4000000000000000"
    by simp
  then show ?thesis by (simp only: xor.assoc xor_self_eq xor.right_neutral)
qed

lemma length_print_dec_ge: "10 ^ k \<le> n \<Longrightarrow> k < length (print_dec n)"
proof (induction k arbitrary: n)
  case 0
  show ?case by simp
next
  case (Suc k)
  then have "10 ^ k \<le> n div 10" by (simp add: less_eq_div_iff_mult_less_eq mult.commute)
  moreover from this have "\<not> n < 10" using one_le_power [of "10::nat" k] by (intro notI) simp
  ultimately show ?case
    using Suc.IH [of "n div 10"] by (simp add: print_dec.simps [of n])
qed

lemma time_text_inj:
  assumes "valid_time s" and "valid_time t" and "tm_year s < 1000" and "tm_year t < 1000"
    and "time_text s = time_text t"
  shows "s = t"
proof -
  have year: "length (print_dec (nat (tm_year u + 1900))) = 4" if "valid_time u" "tm_year u < 1000" for u
  proof -
    have "nat (tm_year u + 1900) < 10 ^ 4" "10 ^ 3 \<le> nat (tm_year u + 1900)"
      using that by (simp_all add: valid_time_def le_nat_iff)
    from length_print_dec [OF this(1)] length_print_dec_ge [OF this(2)] show ?thesis by simp
  qed
  have two: "length (print_dec_pad 2 (nat i)) = 2" if "i < 100" for i
    using that length_print_dec [of "nat i" 2] by (simp add: print_dec_pad_def)
  have small: "tm_mon u + 1 < 100" "tm_mday u < 100" "tm_hour u < 100" "tm_min u < 100" "tm_sec u < 100"
    if "valid_time u" for u
    using that valid_time_mday [OF that] by (simp_all add: valid_time_def)
  note len = year [OF assms(1,3)] year [OF assms(2,4)] two [OF small(1) [OF assms(1)]]
    two [OF small(1) [OF assms(2)]] two [OF small(2) [OF assms(1)]] two [OF small(2) [OF assms(2)]]
    two [OF small(3) [OF assms(1)]] two [OF small(3) [OF assms(2)]] two [OF small(4) [OF assms(1)]]
    two [OF small(4) [OF assms(2)]] two [OF small(5) [OF assms(1)]] two [OF small(5) [OF assms(2)]]
  have "print_dec (nat (tm_year s + 1900)) = print_dec (nat (tm_year t + 1900)) \<and>
      print_dec_pad 2 (nat (tm_mon s + 1)) = print_dec_pad 2 (nat (tm_mon t + 1)) \<and>
      print_dec_pad 2 (nat (tm_mday s)) = print_dec_pad 2 (nat (tm_mday t)) \<and>
      print_dec_pad 2 (nat (tm_hour s)) = print_dec_pad 2 (nat (tm_hour t)) \<and>
      print_dec_pad 2 (nat (tm_min s)) = print_dec_pad 2 (nat (tm_min t)) \<and>
      print_dec_pad 2 (nat (tm_sec s)) = print_dec_pad 2 (nat (tm_sec t))"
    using assms(5) unfolding time_text_def by (simp add: append_eq_append_conv len)
  then have "nat (tm_year s + 1900) = nat (tm_year t + 1900)" "nat (tm_mon s + 1) = nat (tm_mon t + 1)"
    "nat (tm_mday s) = nat (tm_mday t)" "nat (tm_hour s) = nat (tm_hour t)"
    "nat (tm_min s) = nat (tm_min t)" "nat (tm_sec s) = nat (tm_sec t)"
    by (auto dest: number.text_inj two_digits.text_inj)
  with assms(1,2) show ?thesis
    by (intro tm_mini_t.equality) (auto simp: valid_time_def eq_nat_nat_iff)
qed

lemma uint32_text_inj:
  assumes "uint32_text tx f v = uint32_text tx' g w" and "fld_id f = fld_id g" and "data_type f = data_type g"
    and "\<not> is_flag f" and "\<not> is_percentage f"
  shows "v = w"
proof -
  have g: "\<not> is_flag g" "\<not> is_percentage g" "is_time g = is_time f" "is_time_delta g = is_time_delta f"
    using assms(2-5) by (simp_all add: is_flag_def is_percentage_def is_time_def is_time_delta_def)
  show ?thesis
  proof (cases "is_time f")
    case True
    have range: "0 \<le> uint x" "uint x < 2 ^ 32" for x :: u32 using uint_lt2p [of x] by simp_all
    obtain s where s: "ripple_epoch_to_tm (uint v) = Some s" "valid_time s" "tm_year s < 1000"
      "seconds_since_2000 s = uint v" using ripple_epoch_to_tm_spec [OF range] by blast
    obtain t where t: "ripple_epoch_to_tm (uint w) = Some t" "valid_time t" "tm_year t < 1000"
      "seconds_since_2000 t = uint w" using ripple_epoch_to_tm_spec [OF range] by blast
    from assms(1,4) g True s(1) t(1) have "time_text s = time_text t" by (simp add: uint32_text_def)
    with time_text_inj [OF s(2) t(2) s(3) t(3)] s(4) t(4) show ?thesis by (simp add: word_uint_eqI)
  next
    case False
    with assms(1,4,5) g have "print_dec (unat v) = print_dec (unat w)"
      by (simp add: uint32_text_def split: if_splits)
    then show ?thesis using number.text_inj by (metis unat_eqI)
  qed
qed

lemma account_text_inj:
  assumes "sdk_contract sdk" and "length a = 20" and "length b = 20"
    and "account_text tgt sdk a = account_text tgt sdk b"
  shows "a = b"
  using assms(4) account_text_props(3) [OF assms(1,2), of tgt] account_text_props(3) [OF assms(1,3), of tgt]
  by (auto intro: address_of_inj [OF assms(1-3)])

lemma be_word_inj:
  assumes "length a = 8" and "length b = 8" and "(of_nat (be_val a) :: u64) = of_nat (be_val b)"
  shows "a = b"
proof (rule be_val_inj)
  have "unat (of_nat (be_val xs) :: u64) = be_val xs" if "length xs = 8" for xs :: "u8 list"
  proof (rule unat_of_nat_eq)
    show "be_val xs < 2 ^ LENGTH(64)" using be_val_less [of xs] unfolding that by simp
  qed
  from this [OF assms(1)] this [OF assms(2)] show "be_val a = be_val b" unfolding assms(3) by simp
  show "length a = length b" using assms(1,2) by simp
qed

definition amount_of :: "u8 list \<Rightarrow> field_t \<Rightarrow> u64" where
  "amount_of bytes f = of_nat (be_val (content bytes f))"

text \<open>What such a field holds, by type.\<close>

definition width_of :: "u8 \<Rightarrow> nat" where
  "width_of t = (if t = STI_HASH128 then 16 else if t = STI_HASH256 then 32 else if t = STI_ACCOUNT then 20 else 8)"

lemma exact_pointer:
  assumes "exactly_shown f" and "field_shape m f" and "m \<le> length bytes" and "data_type f \<noteq> STI_UINT32"
  shows "data_u32 (fdata f) = None" and "length (content bytes f) = width_of (data_type f)"
proof -
  from assms(1,2,4) have "spans m (\<lambda>k. k = width_of (data_type f)) f"
    by (auto simp: exactly_shown_def field_shape_def spans_def width_of_def split: field_data.splits)
  then obtain p where "fdata f = DPtr p" "unat (fld_length f) = width_of (data_type f)"
    "length (content bytes f) = unat (fld_length f)" by (rule spans_ptr [OF _ assms(3)])
  then show "data_u32 (fdata f) = None" "length (content bytes f) = width_of (data_type f)" by simp_all
qed

lemma exact_number:
  assumes "field_shape m f" and "data_type f = STI_UINT32"
  obtains v where "fdata f = DU32 v" and "content bytes f = []" and "field_text tgt sdk tx bytes f = uint32_text tx f v"
  using assms that by (cases "fdata f") (auto simp: field_shape_def content_def field_text_def)

lemma exact_nonempty:
  assumes "sdk_contract sdk" and "exactly_shown f" and "field_shape m f" and "m \<le> length bytes"
  shows "shown_text tgt sdk tx bytes f = field_text tgt sdk tx bytes f"
proof -
  have "displays (MAX_FIELD_LEN tgt) (format_by_type tgt sdk tx bytes f (replicate (MAX_FIELD_LEN tgt) NUL))
      (field_text tgt sdk tx bytes f)"
    using assms(2) displays_numbers [OF assms(3) _ MAX_FIELD_LEN_bounds(1)]
      displays_bytes [OF assms(3,4) MAX_FIELD_LEN_bounds(1) refl]
      displays_account [OF assms(1,3,4) MAX_FIELD_LEN_bounds(1)]
    by (auto simp: exactly_shown_def)
  then show ?thesis by (simp add: displays_def shown_text_def)
qed

lemma field_text_inj:
  assumes "sdk_contract sdk" and "exactly_shown f" and "exactly_shown g"
    and "field_shape m f" and "m \<le> length bytes" and "field_shape n g" and "n \<le> length bytes'"
    and "data_type f = data_type g" and "fld_id f = fld_id g"
    and "data_type f = STI_AMOUNT \<longrightarrow> xrp_amount_valid (amount_of bytes f) \<or> xrp_amount_valid (amount_of bytes' g)"
    and "field_text tgt sdk tx bytes f = field_text tgt sdk tx' bytes' g"
  shows "content bytes f = content bytes' g \<and> data_u32 (fdata f) = data_u32 (fdata g)"
proof (cases "data_type f = STI_UINT32")
  case True
  then have not: "\<not> is_flag f" "\<not> is_percentage f" using assms(2) by (auto simp: exactly_shown_def)
  obtain v where v: "fdata f = DU32 v" "content bytes f = []" "field_text tgt sdk tx bytes f = uint32_text tx f v"
    using exact_number [OF assms(4) True] by blast
  obtain w where w: "fdata g = DU32 w" "content bytes' g = []" "field_text tgt sdk tx' bytes' g = uint32_text tx' g w"
    using exact_number [OF assms(6)] True assms(8) by metis
  from uint32_text_inj [OF _ assms(9,8) not] assms(11) v w show ?thesis by metis
next
  case False
  let ?c = "content bytes f" and ?d = "content bytes' g"
  note c = exact_pointer [OF assms(2,4,5) False]
  note d = exact_pointer [OF assms(3,6,7) False [unfolded assms(8)], folded assms(8)]
  consider (hash) "data_type f = STI_HASH128 \<or> data_type f = STI_HASH256"
    | (account) "data_type f = STI_ACCOUNT" | (amount) "data_type f = STI_AMOUNT"
    using assms(2) False by (auto simp: exactly_shown_def)
  then have "?c = ?d"
  proof cases
    case hash
    then have "field_text tgt sdk tx bytes f = hex_text ?c" "field_text tgt sdk tx' bytes' g = hex_text ?d"
      using assms(8) by (auto simp: field_text_def Let_def)
    with assms(11) show ?thesis by (auto intro: hex_bytes.text_inj)
  next
    case account
    then have len: "length ?c = 20" "length ?d = 20" using c d by (simp_all add: width_of_def)
    then have "?c \<noteq> []" "?d \<noteq> []" by auto
    with account assms(8) have "field_text tgt sdk tx bytes f = account_text tgt sdk ?c"
      "field_text tgt sdk tx' bytes' g = account_text tgt sdk ?d"
      by (simp_all add: field_text_def Let_def)
    with account_text_inj [OF assms(1) len] assms(11) show ?thesis by simp
  next
    case amount
    then have len: "length ?c = 8" "length ?d = 8" using c d by (simp_all add: width_of_def)
    with amount assms(8) have "field_text tgt sdk tx bytes f = xrp_amount_text (amount_of bytes f)"
      "field_text tgt sdk tx' bytes' g = xrp_amount_text (amount_of bytes' g)"
      by (simp_all add: field_text_def Let_def amount_of_def)
    with assms(10,11) amount have "amount_of bytes f = amount_of bytes' g"
      by (intro xrp_amount_text_inj) simp_all
    with len show ?thesis by (intro be_word_inj) (simp_all add: amount_of_def)
  qed
  with c(1) d(1) show ?thesis by simp
qed

text \<open>A field of the review of some transaction the parser accepts, clear or blind.\<close>

definition reviewed_field :: "u8 list \<Rightarrow> u16 \<Rightarrow> field_t \<Rightarrow> bool" where
  "reviewed_field bytes tx f \<longleftrightarrow>
     (\<exists>len r d. unat len \<le> length bytes \<and> unat len \<le> MAX_LEN \<and>
        parse_tx (init_context bytes len) = Some (r, d) \<and> (r = Inr () \<or> r = Inl BLIND_SIGN_REQUIRED) \<and>
        f \<in> set (used_fields (result d)) \<and> tx = transaction_type d)"

lemma reviewed_field_shape:
  assumes "reviewed_field bytes tx f"
  obtains m where "field_shape m f" and "m \<le> length bytes"
proof -
  obtain len r d where t: "unat len \<le> length bytes" "unat len \<le> MAX_LEN"
    "parse_tx (init_context bytes len) = Some (r, d)" "r = Inr () \<or> r = Inl BLIND_SIGN_REQUIRED"
    "f \<in> set (used_fields (result d))"
    using assms by (auto simp: reviewed_field_def)
  from parsed_field_shape [OF t] t(1) that show ?thesis by blast
qed

text \<open>Two payments of 1 XRP and of 1.000001 XRP.\<close>

lemma two_payments_parse:
  "\<exists>d. parse_tx (init_context payment_example 110) = Some (Inr (), d) \<and>
     (\<lambda>fs. 2 < length fs \<and> (\<lambda>f. (data_type f, fld_id f, fld_length f, fdata f)) (fs ! 2) =
       (STI_AMOUNT, 1, 8, DPtr 14)) (used_fields (result d))"
  "\<exists>d. parse_tx (init_context (payment_example[21 := 0x41]) 110) = Some (Inr (), d) \<and>
     (\<lambda>fs. 2 < length fs \<and> (\<lambda>f. (data_type f, fld_id f, fld_length f, fdata f)) (fs ! 2) =
       (STI_AMOUNT, 1, 8, DPtr 14)) (used_fields (result d))"
  by (rule parsed_resultE, code_simp)+

lemma reviewed_amount:
  assumes "\<exists>d. parse_tx (init_context bytes 110) = Some (Inr (), d) \<and>
     (\<lambda>fs. 2 < length fs \<and> (\<lambda>f. (data_type f, fld_id f, fld_length f, fdata f)) (fs ! 2) =
       (STI_AMOUNT, 1, 8, DPtr 14)) (used_fields (result d))"
    and "length bytes = 110"
  obtains tx f where "reviewed_field bytes tx f" and "exactly_shown f" and "data_type f = STI_AMOUNT"
    and "fld_id f = 1" and "content bytes f = take 8 (drop 14 bytes)"
proof -
  obtain d where d: "parse_tx (init_context bytes 110) = Some (Inr (), d)" "2 < length (used_fields (result d))"
    and f: "(\<lambda>f. (data_type f, fld_id f, fld_length f, fdata f)) (used_fields (result d) ! 2) =
      (STI_AMOUNT, 1, 8, DPtr 14)" using assms(1) by auto
  have "reviewed_field bytes (transaction_type d) (used_fields (result d) ! 2)"
    unfolding reviewed_field_def
    by (rule exI [of _ 110], rule exI [of _ "Inr ()"], rule exI [of _ d])
      (use d assms(2) in \<open>simp add: MAX_LEN_def\<close>)
  with f that show ?thesis by (simp add: exactly_shown_def content_def)
qed

lemma invalid_amount_field:
  assumes "exactly_shown f" and "data_type f = STI_AMOUNT" and "field_shape m f" and "m \<le> length bytes"
    and "\<not> xrp_amount_valid (amount_of bytes f)"
  shows "field_text tgt sdk tx bytes f = ''Invalid amount!''"
proof -
  have "length (content bytes f) = 8"
    using exact_pointer [OF assms(1,3,4)] assms(2) by (simp add: width_of_def)
  then show ?thesis
    using assms(2,5) by (auto simp: field_text_def Let_def amount_of_def xrp_amount_text_def xrp_amount_valid_def)
qed

text \<open>
  C11. The review tells values apart. Take two fields of the same id and type, of the same or of
  two different transactions the parser accepts, that are hashes, accounts, 8-byte amounts, times or
  other 32-bit numbers without flags or percentages. If they hold different bytes or different
  numbers, then the two texts the user sees differ, with one exception: the 8-byte amounts that are
  not positive XRP amounts below \<open>10 ^ 19\<close> drops (bit 62 clear, or too large) are all shown as the
  refusal \<open>Invalid amount!\<close>, which is the text of no other amount. So no two payments with different
  destinations look the same on the screen, and no XRP amount that is shown looks like another.
\<close>

theorem review_tells_values_apart:
  assumes "sdk_contract sdk" and "reviewed_field bytes tx f" and "reviewed_field bytes' tx' g"
    and "exactly_shown f" and "exactly_shown g" and "data_type f = data_type g" and "fld_id f = fld_id g"
    and "content bytes f \<noteq> content bytes' g \<or> data_u32 (fdata f) \<noteq> data_u32 (fdata g)"
    and "length dst = MAX_FIELD_LEN tgt" and "length dst' = MAX_FIELD_LEN tgt"
  shows "\<exists>s t. format_field tgt sdk tx bytes f dst = Some s \<and>
     format_field tgt sdk tx' bytes' g dst' = Some t \<and>
     (if data_type f = STI_AMOUNT \<and> \<not> xrp_amount_valid (amount_of bytes f) \<and>
         \<not> xrp_amount_valid (amount_of bytes' g)
      then cstr s = ''Invalid amount!'' \<and> cstr t = ''Invalid amount!'' else cstr s \<noteq> cstr t)"
proof -
  obtain m where m: "field_shape m f" "m \<le> length bytes" by (rule reviewed_field_shape [OF assms(2)])
  obtain n where n: "field_shape n g" "n \<le> length bytes'" by (rule reviewed_field_shape [OF assms(3)])
  let ?s = "shown_text tgt sdk tx bytes f" and ?t = "shown_text tgt sdk tx' bytes' g"
  note nonempty = exact_nonempty [OF assms(1,4) m] exact_nonempty [OF assms(1,5) n]
  have "if data_type f = STI_AMOUNT \<and> \<not> xrp_amount_valid (amount_of bytes f) \<and>
      \<not> xrp_amount_valid (amount_of bytes' g)
    then ?s = ''Invalid amount!'' \<and> ?t = ''Invalid amount!'' else ?s \<noteq> ?t" (is "if ?invalid then _ else _")
  proof (cases ?invalid)
    case True
    then show ?thesis
      using invalid_amount_field [OF assms(4) _ m, of tgt sdk tx]
        invalid_amount_field [OF assms(5) _ n, of tgt sdk tx'] assms(6)
      by (simp add: nonempty)
  next
    case False
    then have "?s \<noteq> ?t"
      using field_text_inj [OF assms(1,4,5) m n assms(6,7), of tgt tx tx'] assms(8) by (auto simp: nonempty)
    then show ?thesis unfolding if_not_P [OF False] .
  qed
  moreover obtain s where "format_field tgt sdk tx bytes f dst = Some s" "cstr s = ?s"
    using format_field_shows [OF assms(1) m assms(9), of tx] by (auto simp: displays_def holds_def)
  moreover obtain t where "format_field tgt sdk tx' bytes' g dst' = Some t" "cstr t = ?t"
    using format_field_shows [OF assms(1) n assms(10), of tx'] by (auto simp: displays_def holds_def)
  ultimately show ?thesis by (intro exI [of _ s] exI [of _ t]) (simp only: simp_thms)
qed

theorem review_tells_values_apart_witness:
  "\<exists>tx f tx' g s t. reviewed_field payment_example tx f \<and> reviewed_field (payment_example[21 := 0x41]) tx' g \<and>
     amount_of payment_example f = 0x40000000000F4240 \<and>
     amount_of (payment_example[21 := 0x41]) g = 0x40000000000F4241 \<and>
     format_field TARGET_OTHER demo_sdk tx payment_example f (replicate 1024 NUL) = Some s \<and>
     format_field TARGET_OTHER demo_sdk tx' (payment_example[21 := 0x41]) g (replicate 1024 NUL) = Some t \<and>
     cstr s \<noteq> cstr t"
proof -
  let ?a = payment_example and ?b = "payment_example[21 := 0x41]"
  obtain tx f where f: "reviewed_field ?a tx f" "exactly_shown f" "data_type f = STI_AMOUNT" "fld_id f = 1"
    "content ?a f = take 8 (drop 14 ?a)"
    by (rule reviewed_amount [OF two_payments_parse(1)]) (simp add: payment_example_def)
  obtain tx' g where g: "reviewed_field ?b tx' g" "exactly_shown g" "data_type g = STI_AMOUNT" "fld_id g = 1"
    "content ?b g = take 8 (drop 14 ?b)"
    by (rule reviewed_amount [OF two_payments_parse(2)]) (simp add: payment_example_def)
  have v: "amount_of ?a f = 0x40000000000F4240" "amount_of ?b g = 0x40000000000F4241"
    unfolding amount_of_def f(5) g(5) by (simp_all add: payment_example_def be_val_Cons)
  have ok: "xrp_amount_valid 0x40000000000F4240" "xrp_amount_valid 0x40000000000F4241"
    by (simp_all add: xrp_amount_valid_def)
  have "content ?a f \<noteq> content ?b g" using v by (auto simp: amount_of_def)
  then have "\<exists>s t. format_field TARGET_OTHER demo_sdk tx ?a f (replicate 1024 NUL) = Some s \<and>
      format_field TARGET_OTHER demo_sdk tx' ?b g (replicate 1024 NUL) = Some t \<and> cstr s \<noteq> cstr t"
    using review_tells_values_apart [OF demo_sdk_contract f(1) g(1) f(2) g(2), of "replicate 1024 NUL" TARGET_OTHER
        "replicate 1024 NUL"] f(3,4) g(3,4) v ok by (simp add: MAX_FIELD_LEN_def)
  with f(1) g(1) v show ?thesis by blast
qed

end
