(* ===== verification/Review.thy ===== *)
theory Review
  imports Format_Field
begin

text \<open>
  \<open>src/src/ui/transaction/review_menu_nbgl.c\<close>: the title and value buffers of the review. The
  screen library asks for the pairs of a page one after the other and shows them together, so the
  buffers of a page must not overwrite each other.
\<close>

section \<open>The code\<close>

text \<open>
  The static buffers, and the slot the pointers of \<open>pair\<close> point to. (\<open>pair.item\<close> and \<open>pair.value\<close>
  always point to the buffers of the same slot; before the first call they are null.)
\<close>

definition MAX_FIELDS_PER_PAGE :: nat where
  "MAX_FIELDS_PER_PAGE = 8"

record review_ui =
  txFieldValueStrings :: "string list"
  txFieldNameStrings :: "string list"
  pair :: "nat option"

definition build_title :: "field_t \<Rightarrow> string \<Rightarrow> string option" where
  "build_title field title =
     Option.bind (strncpy title 0 (resolve_field_name field) (length title)) (\<lambda>title.
     Option.bind (poke title (length title - 1) [NUL]) (\<lambda>title.
     Option.bind (strlen title) (\<lambda>len.
       let a = array_info field in
       if ai_type a = ARRAY_PATHSET then
         snprintf title len (length title - len)
           ('' [P'' @ print_dec (unat (index1 a)) @ '': S'' @ print_dec (unat (index2 a)) @ '']'')
       else if ai_type a \<noteq> ARRAY_NONE then
         snprintf title len (length title - len) ('' ['' @ print_dec (unat (index1 a)) @ '']'')
       else Some title)))"

text \<open>Work on one buffer of an array of buffers.\<close>

definition with_buffer :: "string list \<Rightarrow> nat \<Rightarrow> (string \<Rightarrow> string option) \<Rightarrow> string list option" where
  "with_buffer bufs i f = (if i < length bufs then map_option (\<lambda>b. bufs[i := b]) (f (bufs ! i)) else None)"

definition getPair ::
  "target \<Rightarrow> 'key sdk \<Rightarrow> u16 \<Rightarrow> u8 list \<Rightarrow> parseResult_t \<Rightarrow> u8 \<Rightarrow> review_ui \<Rightarrow> review_ui option" where
  "getPair tgt sdk tx bytes transaction index ui =
     (let arr_idx = unat index mod MAX_FIELDS_PER_PAGE in
      Option.bind (with_buffer (txFieldValueStrings ui) arr_idx (\<lambda>b. memset b 0 NUL (length b))) (\<lambda>values.
      Option.bind (with_buffer (txFieldNameStrings ui) arr_idx (\<lambda>b. memset b 0 NUL (length b))) (\<lambda>names.
      if length (res_fields transaction) \<le> unat index then None
      else let field = res_fields transaction ! unat index in
        Option.bind (with_buffer names arr_idx (build_title field)) (\<lambda>names.
        Option.bind (with_buffer values arr_idx (format_field tgt sdk tx bytes field)) (\<lambda>values.
          Some \<lparr>txFieldValueStrings = values, txFieldNameStrings = names, pair = Some arr_idx\<rparr>)))))"

text \<open>The buffers at the start of a review, clear or blind.\<close>

definition reset_review :: "target \<Rightarrow> review_ui" where
  "reset_review tgt =
     \<lparr>txFieldValueStrings = replicate MAX_FIELDS_PER_PAGE (replicate (MAX_FIELD_LEN tgt) NUL),
      txFieldNameStrings = replicate MAX_FIELDS_PER_PAGE (replicate MAX_FIELDNAME_LEN NUL), pair = None\<rparr>"

section \<open>Titles\<close>

text \<open>What the user reads as the title of a field (specification): the name, and in an array its place.\<close>

definition place_text :: "array_info_t \<Rightarrow> string" where
  "place_text a =
     (if ai_type a = ARRAY_PATHSET
      then '' [P'' @ print_dec (unat (index1 a)) @ '': S'' @ print_dec (unat (index2 a)) @ '']''
      else if ai_type a = ARRAY_NONE then [] else '' ['' @ print_dec (unat (index1 a)) @ '']'')"

definition title_text :: "field_t \<Rightarrow> string" where
  "title_text f = resolve_field_name f @ place_text (array_info f)"

lemma length_print_u8: "length (print_dec (unat (v :: u8))) \<le> 3"
proof (rule length_print_dec)
  show "unat v < 10 ^ 3" by (rule less_le_trans [OF unat_u8_less]) simp
qed simp

lemma place_text_props: "length (place_text a) \<le> 13" "NUL \<notin> set (place_text a)"
  using length_print_u8 [of "index1 a"] length_print_u8 [of "index2 a"] by (auto simp: place_text_def)

lemma title_text_props:
  "length (title_text f) \<le> 34" "NUL \<notin> set (title_text f)" "title_text f \<noteq> []"
  using resolve_field_name_text [of f] place_text_props [of "array_info f"] by (auto simp: title_text_def)

text \<open>Every title fits: no title is cut.\<close>

lemma build_title_spec:
  assumes "length title = MAX_FIELDNAME_LEN"
  shows "build_title f title = Some (padded MAX_FIELDNAME_LEN (title_text f))"
proof -
  let ?n = "resolve_field_name f" and ?m = MAX_FIELDNAME_LEN
  note name = resolve_field_name_text [of f] and place = place_text_props [of "array_info f"]
  have copy: "strncpy title 0 ?n ?m = Some (padded ?m ?n)"
    using name assms by (intro strncpy_whole_fits) simp_all
  have len: "length (padded ?m ?n) = ?m" using name by simp
  have last: "poke (padded ?m ?n) (?m - 1) [NUL] = Some (padded ?m ?n)"
    using name by (intro poke_last_padded) simp
  have strlen: "strlen (padded ?m ?n) = Some (length ?n)"
    using name by (intro strlen_padded) simp_all
  have append: "snprintf (padded ?m ?n) (length ?n) (?m - length ?n) t = Some (padded ?m (?n @ t))"
    if "length t \<le> 13" for t
    using name that by (intro snprintf_padded) simp
  show ?thesis
    unfolding build_title_def assms copy Option.bind.bind_lunit len last strlen Let_def
    using append [OF place(1)] by (auto simp: title_text_def place_text_def)
qed

section \<open>Pairs\<close>

definition ui_ok :: "target \<Rightarrow> review_ui \<Rightarrow> bool" where
  "ui_ok tgt ui \<longleftrightarrow>
     length (txFieldValueStrings ui) = MAX_FIELDS_PER_PAGE \<and>
     length (txFieldNameStrings ui) = MAX_FIELDS_PER_PAGE \<and>
     list_all (\<lambda>b. length b = MAX_FIELD_LEN tgt) (txFieldValueStrings ui) \<and>
     list_all (\<lambda>b. length b = MAX_FIELDNAME_LEN) (txFieldNameStrings ui)"

lemma reset_review_ok: "ui_ok tgt (reset_review tgt)"
  by (simp add: ui_ok_def reset_review_def list_all_iff)

text \<open>What is on the screen in each slot of the page.\<close>

definition on_screen :: "review_ui \<Rightarrow> nat \<Rightarrow> string \<times> string" where
  "on_screen ui k = (cstr (txFieldNameStrings ui ! k), cstr (txFieldValueStrings ui ! k))"

lemma memset_zeros: "memset b 0 NUL (length b) = Some (replicate (length b) NUL)"
  by (simp add: memset_def poke_def)

text \<open>
  One call is one update of the page: the slot \<open>index mod 8\<close> takes the title and the text of the
  field, the other slots keep theirs.
\<close>

lemma getPair_refines:
  assumes "sdk_contract sdk" and "ui_ok tgt ui" and "unat index < length (res_fields tx_fields)"
    and "field_shape m (res_fields tx_fields ! unat index)" and "m \<le> length bytes"
  shows "\<exists>ui'. getPair tgt sdk tx bytes tx_fields index ui = Some ui' \<and> ui_ok tgt ui' \<and>
     pair ui' = Some (unat index mod 8) \<and>
     on_screen ui' = (on_screen ui)(unat index mod 8 :=
       (title_text (res_fields tx_fields ! unat index),
        shown_text tgt sdk tx bytes (res_fields tx_fields ! unat index)))"
proof -
  let ?f = "res_fields tx_fields ! unat index"
  define i where "i = unat index mod MAX_FIELDS_PER_PAGE"
  define vs and ns where "vs = txFieldValueStrings ui" and "ns = txFieldNameStrings ui"
  have i: "i < length vs" "i < length ns"
    using assms(2) by (simp_all add: ui_ok_def vs_def ns_def i_def MAX_FIELDS_PER_PAGE_def)
  have lens: "length (vs ! i) = MAX_FIELD_LEN tgt" "length (ns ! i) = MAX_FIELDNAME_LEN"
    using assms(2) i by (auto simp: ui_ok_def vs_def ns_def list_all_length)
  obtain buf where buf: "format_field tgt sdk tx bytes ?f (replicate (MAX_FIELD_LEN tgt) NUL) = Some buf"
    "length buf = MAX_FIELD_LEN tgt" "cstr buf = shown_text tgt sdk tx bytes ?f"
    using format_field_shows [OF assms(1,4,5), of "replicate (MAX_FIELD_LEN tgt) NUL" tgt tx]
    by (auto simp: displays_def holds_def)
  note title = build_title_spec [of "replicate MAX_FIELDNAME_LEN NUL" ?f, OF length_replicate]
  define ui' where "ui' = \<lparr>txFieldValueStrings = vs[i := buf],
    txFieldNameStrings = ns[i := padded MAX_FIELDNAME_LEN (title_text ?f)], pair = Some i\<rparr>"
  have "getPair tgt sdk tx bytes tx_fields index ui = Some ui'"
    using i lens assms(3) buf(1) title memset_zeros [of "vs ! i"] memset_zeros [of "ns ! i"]
    unfolding getPair_def Let_def i_def [symmetric] vs_def [symmetric] ns_def [symmetric]
    by (simp add: with_buffer_def ui'_def)
  moreover have "ui_ok tgt ui'"
  proof -
    have "length (padded MAX_FIELDNAME_LEN (title_text ?f)) = MAX_FIELDNAME_LEN"
      using title_text_props(1) [of ?f] by simp
    then show ?thesis
      using assms(2) i buf(2)
      by (auto simp: ui_ok_def ui'_def vs_def ns_def list_all_length nth_list_update)
  qed
  moreover have "on_screen ui' = (on_screen ui)(i := (title_text ?f, shown_text tgt sdk tx bytes ?f))"
    using i buf(3) title_text_props(2) [of ?f]
    by (auto simp: on_screen_def ui'_def vs_def ns_def fun_eq_iff nth_list_update)
  moreover have "pair ui' = Some i" by (simp add: ui'_def)
  ultimately show ?thesis unfolding i_def MAX_FIELDS_PER_PAGE_def by blast
qed

section \<open>Pages\<close>

text \<open>
  What the screen library relies on: asking for an item is one update of one cell of the page.
  Then a page whose items have different cells keeps them all, and what was asked for before
  matters only in the cells the page does not use.
\<close>

fun asks :: "('i \<Rightarrow> 's \<Rightarrow> 's option) \<Rightarrow> 'i list \<Rightarrow> 's \<Rightarrow> 's option" where
  "asks ask [] s = Some s"
| "asks ask (i # js) s = Option.bind (ask i s) (asks ask js)"

lemma asks_append: "asks ask (js @ ks) s = Option.bind (asks ask js s) (asks ask ks)"
  by (induction js arbitrary: s) (auto split: Option.bind_split)

locale page_cells =
  fixes ask :: "'i \<Rightarrow> 's \<Rightarrow> 's option" and good :: "'s \<Rightarrow> bool" and item :: "'i \<Rightarrow> bool"
    and cell :: "'i \<Rightarrow> nat" and shown :: "'i \<Rightarrow> 'v" and view :: "'s \<Rightarrow> nat \<Rightarrow> 'v"
  assumes ask_updates: "good s \<Longrightarrow> item i \<Longrightarrow>
    \<exists>t. ask i s = Some t \<and> good t \<and> view t = (view s)(cell i := shown i)"
begin

lemma asks_total:
  assumes "good s" and "\<And>i. i \<in> set js \<Longrightarrow> item i"
  shows "\<exists>t. asks ask js s = Some t \<and> good t"
  using assms
proof (induction js arbitrary: s)
  case (Cons i js)
  obtain t where "ask i s = Some t" "good t" using ask_updates [OF Cons.prems(1)] Cons.prems(2) by force
  with Cons.IH [of t] Cons.prems(2) show ?case by simp
qed simp

lemma asks_keep:
  assumes "good s" and "\<And>i. i \<in> set js \<Longrightarrow> item i" and "distinct (map cell js)"
  shows "\<exists>t. asks ask js s = Some t \<and> good t \<and> (\<forall>i \<in> set js. view t (cell i) = shown i) \<and>
     (\<forall>k. k \<notin> cell ` set js \<longrightarrow> view t k = view s k)"
  using assms
proof (induction js arbitrary: s)
  case (Cons i js)
  obtain t where t: "ask i s = Some t" "good t" "view t = (view s)(cell i := shown i)"
    using ask_updates [OF Cons.prems(1)] Cons.prems(2) by force
  obtain u where u: "asks ask js t = Some u" "good u" "\<forall>i \<in> set js. view u (cell i) = shown i"
    "\<forall>k. k \<notin> cell ` set js \<longrightarrow> view u k = view t k"
    using Cons.IH [OF t(2)] Cons.prems(2,3) by auto
  have "cell i \<notin> cell ` set js" using Cons.prems(3) by simp
  with u(4) t(3) have "view u (cell i) = shown i" by simp
  with u t show ?case by simp
qed simp

end

definition drawable :: "'key sdk \<Rightarrow> nat \<Rightarrow> u8 list \<Rightarrow> parseResult_t \<Rightarrow> u8 \<Rightarrow> bool" where
  "drawable sdk m bytes fs i \<longleftrightarrow>
     sdk_contract sdk \<and> m \<le> length bytes \<and> unat i < length (res_fields fs) \<and>
     field_shape m (res_fields fs ! unat i)"

interpretation pages: page_cells "getPair tgt sdk tx bytes fs" "ui_ok tgt" "drawable sdk m bytes fs"
    "\<lambda>i. unat i mod 8"
    "\<lambda>i. (title_text (res_fields fs ! unat i), shown_text tgt sdk tx bytes (res_fields fs ! unat i))" on_screen
  for tgt :: target and sdk :: "'key sdk" and tx and bytes and fs and m
  by unfold_locales (use getPair_refines in \<open>unfold drawable_def, blast\<close>)

lemma mod_window:
  assumes "k \<le> 8"
  shows "distinct (map (\<lambda>i. i mod 8) [start..<start + k])"
  unfolding distinct_map
proof (intro conjI distinct_upt inj_onI)
  fix i j
  assume "i \<in> set [start..<start + k]" "j \<in> set [start..<start + k]" and eq: "i mod 8 = j mod 8"
  with assms have near: "i < j + 8" "j < i + 8" by simp_all
  have "8 * (i div 8) + i mod 8 = i" "8 * (j div 8) + j mod 8 = j" by simp_all
  with near eq have "i div 8 = j div 8" by linarith
  with eq show "i = j" by (metis div_mult_mod_eq)
qed

lemma page_is_intact:
  assumes "sdk_contract sdk" and "unat len \<le> length bytes" and "unat len \<le> MAX_LEN"
    and "parse_tx (init_context bytes len) = Some (r, d)"
    and "r = Inr () \<or> r = Inl BLIND_SIGN_REQUIRED"
    and "list_all (\<lambda>i. unat i < length (used_fields (result d))) earlier"
    and "start + k \<le> length (used_fields (result d))" and "k \<le> 8"
  shows "\<exists>ui. asks (getPair tgt sdk tx bytes (result d)) (earlier @ map of_nat [start..<start + k])
       (reset_review tgt) = Some ui \<and>
     map (\<lambda>i. on_screen ui (i mod 8)) [start..<start + k] =
       map (\<lambda>f. (title_text f, shown_text tgt sdk tx bytes f)) (take k (drop start (used_fields (result d))))"
proof -
  let ?fs = "result d" and ?page = "map of_nat [start..<start + k] :: u8 list"
  have slots: "unat i < length (res_fields ?fs) \<and> res_fields ?fs ! unat i = used_fields ?fs ! unat i \<and>
      field_shape (unat len) (res_fields ?fs ! unat i)" if "unat i < length (used_fields ?fs)" for i :: u8
    using that parsed_field_shape [OF assms(2-5) nth_mem [OF that]] by (simp add: used_fields_def)
  have "length (used_fields ?fs) \<le> unat (num_fields ?fs)" by (simp add: used_fields_def)
  then have small: "length (used_fields ?fs) < 256" by (rule le_less_trans [OF _ unat_u8_less])
  have again: "unat (of_nat i :: u8) = i" if "i < start + k" for i
    by (rule unat_of_nat_eq) (use that small assms(7) in simp)
  have page: "unat i < length (used_fields ?fs)" if "i \<in> set ?page" for i
    using that again assms(7) by auto
  have items: "drawable sdk (unat len) bytes ?fs i" if "unat i < length (used_fields ?fs)" for i
    using slots [OF that] assms(1,2) unfolding drawable_def by blast
  have before: "drawable sdk (unat len) bytes ?fs i" if "i \<in> set earlier" for i
    using items that assms(6) unfolding list_all_iff by blast
  obtain u where u: "asks (getPair tgt sdk tx bytes ?fs) earlier (reset_review tgt) = Some u" "ui_ok tgt u"
    using pages.asks_total [OF reset_review_ok before] by blast
  have "map (\<lambda>i. unat i mod 8) ?page = map (\<lambda>i. i mod 8) [start..<start + k]"
    using again by simp
  with mod_window [OF assms(8)] have "distinct (map (\<lambda>i. unat i mod 8) ?page)" by metis
  from pages.asks_keep [OF u(2) items [OF page] this]
  obtain w where w: "asks (getPair tgt sdk tx bytes ?fs) ?page u = Some w"
    and shown: "\<And>i. i \<in> set ?page \<Longrightarrow> on_screen w (unat i mod 8) =
        (title_text (res_fields ?fs ! unat i), shown_text tgt sdk tx bytes (res_fields ?fs ! unat i))"
    by blast
  have "on_screen w (i mod 8) =
      (title_text (used_fields ?fs ! i), shown_text tgt sdk tx bytes (used_fields ?fs ! i))"
    if "i < start + k" "start \<le> i" for i
    using shown [of "of_nat i"] slots [of "of_nat i"] page [of "of_nat i"] again [OF that(1)] that by simp
  then have "map (\<lambda>i. on_screen w (i mod 8)) [start..<start + k] =
       map (\<lambda>f. (title_text f, shown_text tgt sdk tx bytes f)) (take k (drop start (used_fields ?fs)))"
    using assms(7) by (auto simp: list_eq_iff_nth_eq)
  with u(1) w show ?thesis by (auto simp: asks_append)
qed

text \<open>
  C12. A page of the review is intact. After the review of a parsed transaction has been opened and
  the screen library has asked for any pairs, in any order and however often, let it ask for
  the up to eight consecutive pairs of a page. No call leaves a buffer, and when the page is
  shown every one of its slots holds the full title and the text of its own field: no value of
  another field and no earlier page shows through.
\<close>

theorem review_page_intact:
  assumes "sdk_contract sdk" and "unat len \<le> length bytes" and "unat len \<le> MAX_LEN"
    and "parse_tx (init_context bytes len) = Some (r, d)"
    and "r = Inr () \<or> r = Inl BLIND_SIGN_REQUIRED"
    and "list_all (\<lambda>i. unat i < length (used_fields (result d))) earlier"
    and "start + k \<le> length (used_fields (result d))" and "k \<le> 8"
  shows "\<exists>ui. asks (getPair tgt sdk tx bytes (result d)) (earlier @ map of_nat [start..<start + k])
       (reset_review tgt) = Some ui \<and>
     map (\<lambda>i. on_screen ui (i mod 8)) [start..<start + k] =
       map (\<lambda>f. (title_text f, shown_text tgt sdk tx bytes f)) (take k (drop start (used_fields (result d))))"
  using page_is_intact [OF assms] .

theorem review_page_intact_witness:
  "\<exists>d ui. parse_tx (init_context payment_example 110) = Some (Inr (), d) \<and>
     asks (getPair TARGET_NANOS demo_sdk (transaction_type d) payment_example (result d))
       ([4, 0] @ map of_nat [1..<1 + 4]) (reset_review TARGET_NANOS) = Some ui \<and>
     map (\<lambda>i. on_screen ui (i mod 8)) [1..<1 + 4] =
       map (\<lambda>f. (title_text f, shown_text TARGET_NANOS demo_sdk (transaction_type d) payment_example f))
         (take 4 (drop 1 (used_fields (result d))))"
proof -
  obtain d where d: "parse_tx (init_context payment_example 110) = Some (Inr (), d)"
    and t: "map data_type (used_fields (result d)) =
      [STI_UINT16, STI_ACCOUNT, STI_AMOUNT, STI_AMOUNT, STI_ACCOUNT]"
    using payment_example_parses by (elim exE conjE)
  from arg_cong [OF t, of length] have five: "length (used_fields (result d)) = 5" by simp
  have len: "unat (110 :: u32) \<le> length payment_example" "unat (110 :: u32) \<le> MAX_LEN"
    by (simp_all add: payment_example_def MAX_LEN_def)
  have before: "list_all (\<lambda>i. unat i < length (used_fields (result d))) ([4, 0] :: u8 list)"
    "1 + 4 \<le> length (used_fields (result d))"
    by (simp_all add: five)
  show ?thesis
    using review_page_intact [OF demo_sdk_contract len d _ before, of TARGET_NANOS "transaction_type d"] d
    by auto
qed

end
