(* ===== verification/Session.thy ===== *)
theory Session
  imports Keys Parser
begin

text \<open>
  The signing session, the part of the app that decides what is signed:
  \<open>src/src/apdu/\<close> (\<open>entry.c\<close>, \<open>global.c\<close>, \<open>messages/\<close>), \<open>src/src/transaction/transaction.c\<close>,
  \<open>src/src/app_main.c\<close> and the callbacks of the screens in \<open>src/src/ui/\<close>.

  One record holds the globals of these files. A handler is a computation over it that ends in
  \<open>Exited\<close> where the code leaves the app (\<open>LEDGER_ASSERT\<close>, \<open>os_lib_end\<close>) and in
  \<open>Out_Of_Bounds\<close> where C has no meaning; \<open>Session_Safety\<close> proves that the latter never occurs.
  What the app sends, and every call of a signing primitive with the key's path and the signed
  bytes, is appended to the trace \<open>trace\<close>.
\<close>

section \<open>State\<close>

datatype signState_e = IDLE | WAITING_FOR_MORE | PENDING_REVIEW

text \<open>What the display shows; the UI library calls back only for what is shown.\<close>

datatype status = Signed | Rejected | Address_Verified | Address_Rejected

datatype screen =
    No_Screen
  | Idle_Menu
  | Settings_Menu
  | Review bool
  | Blind_Warning
  | Address_Review string
  | Status status

datatype io =
    Send_SW u16
  | Send_Response "u8 list" u16
  | Signature cx_curve_t "u32 list" "u8 list"
  | Swap_Result bool

record swapStrings_t =
  sw_address :: string
  destination_tag :: string
  sw_amount :: u64
  sw_fee :: u64
  sw_tmp :: string

record publicKeyContext_t =
  pk_curve :: cx_curve_t
  pk_W :: "u8 list"
  address :: string
  chain_code :: "u8 list"
  get_chaincode :: bool

record transactionContext_t =
  tc_curve :: cx_curve_t
  path_length :: u8
  bip32_path :: "u32 list"
  raw_tx :: "u8 list"
  raw_tx_length :: u32

text \<open>
  \<open>parse_context.data\<close> is null or points to \<open>raw_tx + prefix_length\<close>: \<open>parse_data\<close> tells which.
  The parser is given the bytes themselves, and the context it leaves keeps them; the four bytes
  of prefix written afterwards lie before them. The union \<open>approval_strings\<close> is only ever used
  as \<open>swap\<close>, the union \<open>tmp_ctx\<close> as \<open>transaction_context\<close>.
\<close>

record app =
  sign_state :: signState_e
  parse_context :: parseContext_t
  parse_data :: bool
  tmp_ctx :: transactionContext_t
  approval_strings :: swapStrings_t
  last_ins :: u8
  pubkey_confirmation_pending :: bool
  pending_pubkey_ctx :: publicKeyContext_t
  G_called_from_swap :: bool
  allow_blind_sign :: u8
  switch_on :: bool
  screen :: screen
  trace :: "io list"

datatype stop = Exited | Out_Of_Bounds

type_synonym 'a act = "(stop, app, 'a) comp"

definition zero_context :: parseContext_t where
  "zero_context = init_context [] 0"

definition zero_tmp_ctx :: transactionContext_t where
  "zero_tmp_ctx =
     \<lparr>tc_curve = CX_CURVE_NONE, path_length = 0, bip32_path = replicate MAX_BIP32_PATH 0,
      raw_tx = replicate MAX_RAW_TX 0, raw_tx_length = 0\<rparr>"

definition zero_swap :: swapStrings_t where
  "zero_swap =
     \<lparr>sw_address = replicate 41 NUL, destination_tag = replicate 11 NUL, sw_amount = 0, sw_fee = 0,
      sw_tmp = replicate 41 NUL\<rparr>"

definition zero_pubkey :: publicKeyContext_t where
  "zero_pubkey =
     \<lparr>pk_curve = CX_CURVE_NONE, pk_W = replicate 65 0, address = replicate XRP_ADDRESS_SIZE NUL,
      chain_code = replicate 32 0, get_chaincode = False\<rparr>"

section \<open>Constants\<close>

abbreviation (input) CLA :: u8 where "CLA \<equiv> 0xE0"
abbreviation (input) INS_GET_PUBLIC_KEY :: u8 where "INS_GET_PUBLIC_KEY \<equiv> 0x02"
abbreviation (input) INS_SIGN :: u8 where "INS_SIGN \<equiv> 0x04"
abbreviation (input) INS_GET_APP_CONFIGURATION :: u8 where "INS_GET_APP_CONFIGURATION \<equiv> 0x06"
abbreviation (input) P1_CONFIRM :: u8 where "P1_CONFIRM \<equiv> 0x01"
abbreviation (input) P1_NON_CONFIRM :: u8 where "P1_NON_CONFIRM \<equiv> 0x00"
abbreviation (input) P2_NO_CHAINCODE :: u8 where "P2_NO_CHAINCODE \<equiv> 0x00"
abbreviation (input) P2_CHAINCODE :: u8 where "P2_CHAINCODE \<equiv> 0x01"
abbreviation (input) P1_MASK_ORDER :: u8 where "P1_MASK_ORDER \<equiv> 0x01"
abbreviation (input) P1_MASK_MORE :: u8 where "P1_MASK_MORE \<equiv> 0x80"
abbreviation (input) P2_SECP256K1 :: u8 where "P2_SECP256K1 \<equiv> 0x40"
abbreviation (input) P2_ED25519 :: u8 where "P2_ED25519 \<equiv> 0x80"
abbreviation (input) OFFSET_CLA :: nat where "OFFSET_CLA \<equiv> 0"
abbreviation (input) OFFSET_INS :: nat where "OFFSET_INS \<equiv> 1"
abbreviation (input) OFFSET_P1 :: nat where "OFFSET_P1 \<equiv> 2"
abbreviation (input) OFFSET_P2 :: nat where "OFFSET_P2 \<equiv> 3"
abbreviation (input) OFFSET_LC :: nat where "OFFSET_LC \<equiv> 4"
abbreviation (input) OFFSET_CDATA :: nat where "OFFSET_CDATA \<equiv> 5"
abbreviation (input) prefix_length :: nat where "prefix_length \<equiv> 4"
abbreviation (input) suffix_length :: nat where "suffix_length \<equiv> 20"
abbreviation (input) BlindSignDisabled :: u8 where "BlindSignDisabled \<equiv> 0"
abbreviation (input) BlindSignEnabled :: u8 where "BlindSignEnabled \<equiv> 1"
abbreviation (input) OPTION_SIGN :: nat where "OPTION_SIGN \<equiv> 0"
abbreviation (input) OPTION_REJECT :: nat where "OPTION_REJECT \<equiv> 1"

definition sign_prefix :: "u8 list" where
  "sign_prefix = [0x53, 0x54, 0x58, 0x00]"

definition sign_prefix_multi :: "u8 list" where
  "sign_prefix_multi = [0x53, 0x4D, 0x54, 0x00]"

section \<open>Globals, input and output\<close>

definition io_send :: "io \<Rightarrow> unit act" where
  "io_send e = modify (\<lambda>s. s\<lparr>trace := trace s @ [e]\<rparr>)"

definition io_send_sw :: "u16 \<Rightarrow> unit act" where
  "io_send_sw sw = io_send (Send_SW sw)"

definition show_screen :: "screen \<Rightarrow> unit act" where
  "show_screen d = modify (\<lambda>s. s\<lparr>screen := d\<rparr>)"

definition set_tmp_ctx :: "(transactionContext_t \<Rightarrow> transactionContext_t) \<Rightarrow> app \<Rightarrow> app" where
  "set_tmp_ctx f s = s\<lparr>tmp_ctx := f (tmp_ctx s)\<rparr>"

text \<open>A value that is there, or an access outside a buffer.\<close>

definition in_bounds :: "'a option \<Rightarrow> 'a act" where
  "in_bounds x = (case x of Some v \<Rightarrow> return v | None \<Rightarrow> throw Out_Of_Bounds)"

definition reset_transaction_context :: "unit act" where
  "reset_transaction_context =
     CHECK (modify (\<lambda>s. s\<lparr>parse_context := zero_context, parse_data := False, tmp_ctx := zero_tmp_ctx,
                          sign_state := IDLE\<rparr>)) (\<lambda>_.
     modify (\<lambda>s. if G_called_from_swap s then s else s\<lparr>approval_strings := zero_swap\<rparr>))"

definition send_error :: "u16 \<Rightarrow> unit act" where
  "send_error sw = CHECK reset_transaction_context (\<lambda>_. io_send_sw sw)"

section \<open>Menus and settings\<close>

definition set_switches_states :: "unit act" where
  "set_switches_states = modify (\<lambda>s. s\<lparr>switch_on := allow_blind_sign s \<noteq> BlindSignDisabled\<rparr>)"

definition display_idle_menu :: "unit act" where
  "display_idle_menu = CHECK set_switches_states (\<lambda>_. show_screen Idle_Menu)"

definition display_settings_menu :: "unit act" where
  "display_settings_menu = CHECK set_switches_states (\<lambda>_. show_screen Settings_Menu)"

text \<open>The toggle of the blind-signing switch: the opposite of what the switch shows is stored.\<close>

definition settings_controls_callback :: "unit act" where
  "settings_controls_callback =
     modify (\<lambda>s. let new_setting = \<not> switch_on s in
       s\<lparr>switch_on := new_setting, allow_blind_sign := (if new_setting then 1 else 0)\<rparr>)"

section \<open>Signing\<close>

text \<open>
  The public key's hash goes after the transaction when multi-signing. The result is \<open>False\<close> for
  an error of the cryptographic library.
\<close>

definition append_suffix :: "'key sdk \<Rightarrow> 'key \<Rightarrow> bool act" where
  "append_suffix sdk private_key =
     CHECK (gets tmp_ctx) (\<lambda>ctx.
     case sdk_pair sdk (tc_curve ctx) private_key of None \<Rightarrow> return False
     | Some W \<Rightarrow>
         CHECK (in_bounds (xrp_compress_public_key (tc_curve ctx) W)) (\<lambda>public_key_data.
         case xrp_public_key_hash160 sdk public_key_data of None \<Rightarrow> return False
         | Some suffix_data \<Rightarrow>
             CHECK (in_bounds (peek suffix_data 0 suffix_length)) (\<lambda>suffix.
             CHECK (in_bounds (poke (raw_tx ctx) (unat (raw_tx_length ctx)) suffix)) (\<lambda>raw.
             CHECK (modify (set_tmp_ctx (\<lambda>c. c\<lparr>raw_tx := raw,
                       raw_tx_length := raw_tx_length c + of_nat suffix_length\<rparr>))) (\<lambda>_.
             return True)))))"

text \<open>The signature of the first \<open>raw_tx_length\<close> bytes, \<open>None\<close> for an error of the library.\<close>

definition make_signature :: "'key sdk \<Rightarrow> 'key \<Rightarrow> u8 list option act" where
  "make_signature sdk private_key =
     CHECK (gets tmp_ctx) (\<lambda>ctx.
     CHECK (in_bounds (peek (raw_tx ctx) 0 (unat (raw_tx_length ctx)))) (\<lambda>msg.
     let sign_call = io_send (Signature (tc_curve ctx) (take (unat (path_length ctx)) (bip32_path ctx)) msg) in
     if tc_curve ctx = CX_CURVE_256K1 then
       (case sdk_sha512 sdk msg of None \<Rightarrow> return None
        | Some hash \<Rightarrow>
            CHECK (in_bounds (peek hash 0 32)) (\<lambda>key_buffer.
            CHECK sign_call (\<lambda>_. return (sdk_ecdsa sdk private_key key_buffer))))
     else CHECK sign_call (\<lambda>_. return (sdk_eddsa sdk private_key msg))))"

definition sign_raw_tx :: "'key sdk \<Rightarrow> u8 list option act" where
  "sign_raw_tx sdk =
     CHECK (gets tmp_ctx) (\<lambda>ctx.
     case sdk_privkey sdk (tc_curve ctx) (take (unat (path_length ctx)) (bip32_path ctx)) of
       None \<Rightarrow> return None
     | Some private_key \<Rightarrow>
         CHECK (gets (\<lambda>s. has_empty_pub_key (parse_context s))) (\<lambda>multi.
         CHECK (if multi then append_suffix sdk private_key else return True) (\<lambda>ok.
         if ok then make_signature sdk private_key else return None)))"

definition sign_transaction :: "'key sdk \<Rightarrow> unit act" where
  "sign_transaction sdk =
     CHECK (gets sign_state) (\<lambda>st.
     if st \<noteq> PENDING_REVIEW then CHECK reset_transaction_context (\<lambda>_. display_idle_menu)
     else
       CHECK (gets parse_data) (\<lambda>d.
       if \<not> d then display_idle_menu
       else
         CHECK (sign_raw_tx sdk) (\<lambda>sig.
         CHECK reset_transaction_context (\<lambda>_.
         case sig of None \<Rightarrow> throw Exited
         | Some bytes \<Rightarrow> io_send (Send_Response bytes 0x9000)))))"

definition reject_transaction :: "unit act" where
  "reject_transaction =
     CHECK (gets sign_state) (\<lambda>st.
     if st \<noteq> PENDING_REVIEW then CHECK reset_transaction_context (\<lambda>_. display_idle_menu)
     else
       CHECK (io_send_sw 0x6985) (\<lambda>_.
       CHECK (gets G_called_from_swap) (\<lambda>swap.
       if swap then return () else reset_transaction_context)))"

end
