(* ===== verification/Review_Gate.thy ===== *)
theory Review_Gate
  imports Session
begin

text \<open>
  \<open>src/src/transaction/transaction.c\<close> and \<open>finalize_exchange_sign_transaction\<close>: what happens to a
  parsed transaction. Called from the exchange app it is signed without a review, if it is the
  payment that was agreed on; otherwise the user reviews it, clear or blind.
\<close>

section \<open>The fields of a swap\<close>

text \<open>A member of the union of a field; reading another member than the stored one is no access.\<close>

definition check_field :: "u8 list \<Rightarrow> field_t \<Rightarrow> u8 \<Rightarrow> u8 \<Rightarrow> bool \<Rightarrow> u64 \<Rightarrow> bool option" where
  "check_field bytes field t i compare_value value =
     (if data_type field \<noteq> t \<or> fld_id field \<noteq> i then Some False
      else if \<not> compare_value then Some True
      else if t = STI_UINT16 then map_option (\<lambda>v. v = ucast value) (data_u16 (fdata field))
      else if t = STI_UINT32 then map_option (\<lambda>v. v = ucast value) (data_u32 (fdata field))
      else if t = STI_AMOUNT then
        (if fld_length field \<noteq> of_nat XRP_AMOUNT_LEN then Some False
         else Option.bind (data_ptr (fdata field)) (\<lambda>p.
              map_option (\<lambda>v. v = value) (Option.bind (peek bytes p 8) read_unsigned64)))
      else Some False)"

abbreviation (input) XRP_AMOUNT_BIT :: u64 where "XRP_AMOUNT_BIT \<equiv> 0x4000000000000000"

text \<open>\<open>strncmp(a, b, n)\<close> on two buffers, and \<open>strnlen\<close>.\<close>

definition strncmp_equal :: "string \<Rightarrow> string \<Rightarrow> nat \<Rightarrow> bool" where
  "strncmp_equal a b n \<longleftrightarrow> take n (cstr a) = take n (cstr b)"

definition strnlen :: "string \<Rightarrow> nat \<Rightarrow> nat" where
  "strnlen s n = length (cstr (take n s))"

text \<open>A step of the check: go on only if the answer is there and positive.\<close>

definition provided :: "bool option \<Rightarrow> bool act \<Rightarrow> bool act" where
  "provided b m = CHECK (in_bounds b) (\<lambda>v. if v then m else return False)"

text \<open>
  The comparison of the destination. Its field's pointer may be null for a field the parser has
  added itself; the encoder then answers with length zero. The encoder's output starts as stack
  data: only what it writes is compared.
\<close>

definition check_destination :: "'key sdk \<Rightarrow> u8 list \<Rightarrow> field_t \<Rightarrow> string \<Rightarrow> bool option" where
  "check_destination sdk bytes field expected =
     Option.bind (if fdata field = DZero then Some None
                  else Option.bind (data_ptr (fdata field)) (\<lambda>p. map_option Some (peek bytes p 20))) (\<lambda>account.
     Option.bind (xrp_public_key_to_encoded_base58 sdk None account (Some (replicate XRP_ADDRESS_SIZE NUL)) 0)
       (\<lambda>(addr_length, destination).
     let expected_length = strnlen expected 41 in
     if addr_length = 0 \<or> addr_length \<noteq> expected_length then Some False
     else case destination of None \<Rightarrow> None
       | Some buf \<Rightarrow> Option.bind (peek buf 0 addr_length) (\<lambda>a.
           map_option (\<lambda>b. a = b) (peek expected 0 addr_length))))"

definition check_swap_conditions_and_sign :: "'key sdk \<Rightarrow> bool act" where
  "check_swap_conditions_and_sign sdk =
     CHECK (gets id) (\<lambda>s.
     let transaction = result (parse_context s); bytes = data (parse_context s);
         swap = approval_strings s; field = (\<lambda>i. res_fields transaction ! i) in
     if \<not> G_called_from_swap s then return False
     else if num_fields transaction \<noteq> 6 \<or> length (res_fields transaction) < 6 then return False
     else
       provided (check_field bytes (field 0) STI_UINT16 XRP_UINT16_TRANSACTION_TYPE True
                   (ucast TRANSACTION_PAYMENT)) (
       provided (check_field bytes (field 1) STI_ACCOUNT XRP_ACCOUNT_ACCOUNT False 0) (
       provided (check_field bytes (field 2) STI_UINT32 XRP_VL_MEMO_FORMAT False 0) (
       CHECK (in_bounds (data_u32 (fdata (field 2)))) (\<lambda>tag.
       CHECK (in_bounds (snprintf (sw_tmp swap) 0 41 (print_dec (unat tag)))) (\<lambda>tmp.
       CHECK (modify (\<lambda>s. s\<lparr>approval_strings := (approval_strings s)\<lparr>sw_tmp := tmp\<rparr>\<rparr>)) (\<lambda>_.
       if \<not> strncmp_equal tmp (destination_tag swap) 11 then return False
       else if sw_amount swap AND XRP_AMOUNT_BIT \<noteq> 0 then return False
       else
         provided (check_field bytes (field 3) STI_AMOUNT XRP_UINT64_AMOUNT True
                     (sw_amount swap OR XRP_AMOUNT_BIT)) (
         if sw_fee swap AND XRP_AMOUNT_BIT \<noteq> 0 then return False
         else
           provided (check_field bytes (field 4) STI_AMOUNT XRP_UINT64_FEE True
                       (sw_fee swap OR XRP_AMOUNT_BIT)) (
           provided (check_field bytes (field 5) STI_ACCOUNT XRP_ACCOUNT_DESTINATION False 0) (
           in_bounds (check_destination sdk bytes (field 5) (sw_address swap))))))))))))"

section \<open>From the parser to a review or a signature\<close>

text \<open>The exchange app gets the answer and takes over: the app does not go on.\<close>

definition finalize_exchange_sign_transaction :: "bool \<Rightarrow> unit act" where
  "finalize_exchange_sign_transaction is_success =
     CHECK (io_send (Swap_Result is_success)) (\<lambda>_. throw Exited)"

definition ui_error_blind_signing :: "unit act" where
  "ui_error_blind_signing = CHECK (show_screen Blind_Warning) (\<lambda>_. reject_transaction)"

definition display_blind_signed_review :: "unit act" where
  "display_blind_signed_review = show_screen (Review True)"

definition display_review_menu :: "unit act" where
  "display_review_menu = show_screen (Review False)"

text \<open>
  The static \<open>approval_action\<close> and \<open>rejection_action\<close> are set here and always to the same two
  functions, \<open>sign_transaction\<close> and \<open>reject_transaction\<close>, which the model calls directly.
\<close>

definition review_transaction :: "'key sdk \<Rightarrow> bool \<Rightarrow> unit act" where
  "review_transaction sdk blind_sign =
     CHECK (gets G_called_from_swap) (\<lambda>swap.
     if swap then
       CHECK (check_swap_conditions_and_sign sdk) (\<lambda>ok.
       if ok
       then CHECK (sign_transaction sdk) (\<lambda>_. finalize_exchange_sign_transaction True)
       else CHECK reject_transaction (\<lambda>_. finalize_exchange_sign_transaction False))
     else if blind_sign then
       CHECK (gets allow_blind_sign) (\<lambda>allow.
       if allow = BlindSignDisabled then ui_error_blind_signing else display_blind_signed_review)
     else display_review_menu)"

definition on_approval_menu_result :: "'key sdk \<Rightarrow> nat \<Rightarrow> unit act" where
  "on_approval_menu_result sdk r =
     (if r = OPTION_SIGN then sign_transaction sdk
      else if r = OPTION_REJECT then reject_transaction
      else reject_transaction)"

end
