(* ===== verification/Commands.thy ===== *)
theory Commands
  imports Review_Gate
begin

text \<open>
  The commands the app answers, \<open>src/src/apdu/messages/\<close> and \<open>src/src/apdu/entry.c\<close>, the loop
  body of \<open>src/src/app_main.c\<close> and the callbacks of the screens, and the step relation they make
  together. A command is the list of the bytes received; an access beyond them would read what an
  earlier command left in \<open>G_io_apdu_buffer\<close> and is out of bounds here.
\<close>

section \<open>Signing a transaction\<close>

definition is_first :: "u8 \<Rightarrow> bool" where
  "is_first p1 \<longleftrightarrow> p1 AND P1_MASK_ORDER = 0"

definition has_more :: "u8 \<Rightarrow> bool" where
  "has_more p1 \<longleftrightarrow> p1 AND P1_MASK_MORE \<noteq> 0"

text \<open>The four bytes of prefix, before the transaction.\<close>

definition set_prefix :: "u8 list \<Rightarrow> unit act" where
  "set_prefix prefix =
     CHECK (gets (\<lambda>s. raw_tx (tmp_ctx s))) (\<lambda>raw.
     CHECK (in_bounds (poke raw 0 prefix)) (\<lambda>raw.
     modify (set_tmp_ctx (\<lambda>c. c\<lparr>raw_tx := raw\<rparr>))))"

text \<open>
  The bytes received so far. The parser gets a pointer to them and their number; in the model it
  gets just these bytes, so a read behind them counts as out of bounds.
\<close>

definition received :: "app \<Rightarrow> u8 list" where
  "received s = take (unat (ctx_length (parse_context s))) (drop prefix_length (raw_tx (tmp_ctx s)))"

text \<open>The last packet has come: \<open>parse_tx\<close> runs on the bytes received.\<close>

definition parse_received :: "(exc + unit) act" where
  "parse_received =
     CHECK (gets (\<lambda>s. (parse_context s)\<lparr>data := received s\<rparr>)) (\<lambda>c.
     CHECK (in_bounds (parse_tx c)) (\<lambda>(r, d).
     CHECK (modify (\<lambda>s. s\<lparr>parse_context := d\<rparr>)) (\<lambda>_. return r)))"

definition present_transaction :: "'key sdk \<Rightarrow> unit act" where
  "present_transaction sdk =
     CHECK (modify (\<lambda>s. set_tmp_ctx (\<lambda>c. c\<lparr>raw_tx_length := of_nat prefix_length + ctx_length (parse_context s)\<rparr>)
              (s\<lparr>sign_state := PENDING_REVIEW\<rparr>))) (\<lambda>_.
     CHECK parse_received (\<lambda>exception.
     if exception \<noteq> Inr () \<and> exception \<noteq> Inl BLIND_SIGN_REQUIRED then
       CHECK (in_bounds (err_code (projl exception))) (\<lambda>e. send_error (0x6800 OR (of_nat e AND 0x7FF)))
     else
       CHECK (gets (\<lambda>s. (has_empty_pub_key (parse_context s), raw_tx_length (tmp_ctx s)))) (\<lambda>(multi, len).
       if multi \<and> unat len + suffix_length > MAX_RAW_TX then send_error 0x6700
       else
         CHECK (set_prefix (if multi then sign_prefix_multi else sign_prefix)) (\<lambda>_.
         review_transaction sdk (exception = Inl BLIND_SIGN_REQUIRED)))))"

definition handle_packet_content :: "'key sdk \<Rightarrow> u8 \<Rightarrow> u8 list \<Rightarrow> u8 \<Rightarrow> unit act" where
  "handle_packet_content sdk p1 work_buffer data_length =
     CHECK (gets (\<lambda>s. (ctx_length (parse_context s), parse_data s, raw_tx (tmp_ctx s)))) (\<lambda>(len, d, raw).
     let total_length = ucast (of_nat prefix_length + len + ucast data_length) :: u16 in
     if unat total_length > MAX_RAW_TX then send_error 0x6700
     else
       CHECK (in_bounds (peek work_buffer 0 (unat data_length))) (\<lambda>chunk.
       CHECK (in_bounds (if d then poke raw (prefix_length + unat len) chunk else None)) (\<lambda>raw.
       CHECK (modify (\<lambda>s. set_tmp_ctx (\<lambda>c. c\<lparr>raw_tx := raw\<rparr>)
                (s\<lparr>parse_context := (parse_context s)\<lparr>ctx_length := len + ucast data_length\<rparr>\<rparr>))) (\<lambda>_.
       if has_more p1 then
         CHECK (modify (\<lambda>s. s\<lparr>sign_state := WAITING_FOR_MORE\<rparr>)) (\<lambda>_. io_send_sw 0x9000)
       else present_transaction sdk))))"

text \<open>The curve a command's \<open>p2\<close> asks for, if it asks for exactly one.\<close>

definition curve_of :: "u8 \<Rightarrow> cx_curve_t option" where
  "curve_of p2 =
     (if p2 AND P2_SECP256K1 = 0 \<and> p2 AND P2_ED25519 = 0 then None
      else if p2 AND P2_SECP256K1 \<noteq> 0 \<and> p2 AND P2_ED25519 \<noteq> 0 then None
      else Some (if p2 AND P2_ED25519 \<noteq> 0 then CX_CURVE_Ed25519 else CX_CURVE_256K1))"

definition handle_first_packet :: "'key sdk \<Rightarrow> u8 \<Rightarrow> u8 \<Rightarrow> u8 list \<Rightarrow> u8 \<Rightarrow> unit act" where
  "handle_first_packet sdk p1 p2 work_buffer data_length =
     (if \<not> is_first p1 then io_send_sw 0x6A80
      else if data_length < 1 then io_send_sw 0x6A80
      else
        CHECK reset_transaction_context (\<lambda>_.
        CHECK (modify (\<lambda>s. s\<lparr>parse_data := True\<rparr>)) (\<lambda>_.
        CHECK (in_bounds (peek work_buffer 0 1)) (\<lambda>bs.
        let n = hd bs; work_buffer = drop 1 work_buffer; data_length = data_length - 1 in
        CHECK (gets (\<lambda>s. bip32_path (tmp_ctx s))) (\<lambda>path_parsed.
        CHECK (in_bounds (parse_bip32_path work_buffer (unat n) (unat data_length) path_parsed MAX_BIP32_PATH))
          (\<lambda>(ok, path_parsed).
        CHECK (modify (set_tmp_ctx (\<lambda>c. c\<lparr>bip32_path := path_parsed\<rparr>))) (\<lambda>_.
        if \<not> ok then io_send_sw 0x6A81
        else
          CHECK (modify (set_tmp_ctx (\<lambda>c. c\<lparr>path_length := n\<rparr>))) (\<lambda>_.
          case curve_of p2 of
            None \<Rightarrow> io_send_sw 0x6B00
          | Some curve \<Rightarrow>
              CHECK (modify (set_tmp_ctx (\<lambda>c. c\<lparr>tc_curve := curve\<rparr>))) (\<lambda>_.
              handle_packet_content sdk p1 (drop (4 * unat n) work_buffer) (data_length - 4 * n))))))))))"

definition handle_subsequent_packet :: "'key sdk \<Rightarrow> u8 \<Rightarrow> u8 list \<Rightarrow> u8 \<Rightarrow> unit act" where
  "handle_subsequent_packet sdk p1 work_buffer data_length =
     (if is_first p1 then io_send_sw 0x6A80
      else handle_packet_content sdk p1 work_buffer data_length)"

definition handle_sign :: "'key sdk \<Rightarrow> u8 \<Rightarrow> u8 \<Rightarrow> u8 list \<Rightarrow> u8 \<Rightarrow> unit act" where
  "handle_sign sdk p1 p2 work_buffer data_length =
     CHECK (gets sign_state) (\<lambda>st.
     case st of
       IDLE \<Rightarrow> handle_first_packet sdk p1 p2 work_buffer data_length
     | WAITING_FOR_MORE \<Rightarrow> handle_subsequent_packet sdk p1 work_buffer data_length
     | PENDING_REVIEW \<Rightarrow> io_send_sw 0x6A80)"

section \<open>Public keys\<close>

definition byte_of_char :: "char \<Rightarrow> u8" where
  "byte_of_char c = of_nat (of_char c)"

definition set_result_get_public_key :: "unit act" where
  "set_result_get_public_key =
     CHECK (gets pending_pubkey_ctx) (\<lambda>ctx.
     CHECK (in_bounds (strlen (address ctx))) (\<lambda>address_length.
     CHECK (in_bounds (xrp_compress_public_key (pk_curve ctx) (pk_W ctx))) (\<lambda>key.
     io_send (Send_Response
       (of_nat XRP_PUBKEY_SIZE # key @ of_nat address_length #
        map byte_of_char (take address_length (address ctx)) @
        (if get_chaincode ctx then take 32 (chain_code ctx) else [])) 0x9000))))"

definition clear_pending_pubkey :: "unit act" where
  "clear_pending_pubkey = modify (\<lambda>s. s\<lparr>pending_pubkey_ctx := zero_pubkey\<rparr>)"

definition on_address_confirmed :: "unit act" where
  "on_address_confirmed =
     CHECK (modify (\<lambda>s. s\<lparr>pubkey_confirmation_pending := False\<rparr>)) (\<lambda>_.
     CHECK set_result_get_public_key (\<lambda>_. clear_pending_pubkey))"

definition on_address_rejected :: "unit act" where
  "on_address_rejected =
     CHECK (modify (\<lambda>s. s\<lparr>pubkey_confirmation_pending := False\<rparr>)) (\<lambda>_.
     CHECK clear_pending_pubkey (\<lambda>_. io_send_sw 0x6985))"

text \<open>The screen shows a copy of the address; \<open>False\<close> when it does not fit and none is shown.\<close>

definition display_address_confirmation_ui :: "string \<Rightarrow> bool act" where
  "display_address_confirmation_ui addr =
     (if length addr = 0 \<or> length addr \<ge> 43 then return False
      else CHECK (show_screen (Address_Review addr)) (\<lambda>_. return True))"

definition handle_get_public_key :: "'key sdk \<Rightarrow> u8 \<Rightarrow> u8 \<Rightarrow> u8 list \<Rightarrow> u16 \<Rightarrow> unit act" where
  "handle_get_public_key sdk p1 p2 data_buffer data_length =
     CHECK (gets pubkey_confirmation_pending) (\<lambda>pending.
     if data_length < 1 then io_send_sw 0x6A80
     else if pending then io_send_sw 0x6985
     else
       CHECK (in_bounds (peek data_buffer 0 1)) (\<lambda>bs.
       let bip32_path_length = hd bs; data_buffer = drop 1 data_buffer; data_length = data_length - 1;
           p2_chain = p2 AND 0x3F in
       if p1 \<noteq> P1_CONFIRM \<and> p1 \<noteq> P1_NON_CONFIRM then io_send_sw 0x6B00
       else if p2_chain \<noteq> P2_CHAINCODE \<and> p2_chain \<noteq> P2_NO_CHAINCODE then io_send_sw 0x6B00
       else case curve_of p2 of
         None \<Rightarrow> io_send_sw 0x6B00
       | Some curve \<Rightarrow>
           CHECK (modify (\<lambda>s. s\<lparr>pending_pubkey_ctx :=
                    zero_pubkey\<lparr>get_chaincode := p2_chain = P2_CHAINCODE\<rparr>\<rparr>)) (\<lambda>_.
           CHECK (in_bounds (get_public_key sdk curve data_buffer (unat bip32_path_length) (unat data_length)))
             (\<lambda>(error, key).
           CHECK (modify (\<lambda>s. s\<lparr>pending_pubkey_ctx :=
                    (case key of None \<Rightarrow> pending_pubkey_ctx s
                     | Some (W, chain) \<Rightarrow> (pending_pubkey_ctx s)\<lparr>pk_curve := curve, pk_W := W,
                         chain_code := (if p2_chain = P2_CHAINCODE then chain
                                        else chain_code (pending_pubkey_ctx s))\<rparr>)\<rparr>)) (\<lambda>_.
           if error \<noteq> 0 then io_send_sw (ucast error)
           else
             CHECK (gets pending_pubkey_ctx) (\<lambda>ctx.
             CHECK (in_bounds (get_address sdk (pk_curve ctx) (pk_W ctx) (address ctx))) (\<lambda>addr.
             CHECK (modify (\<lambda>s. s\<lparr>pending_pubkey_ctx := (pending_pubkey_ctx s)\<lparr>address := addr\<rparr>\<rparr>)) (\<lambda>_.
             if p1 = P1_NON_CONFIRM then
               CHECK set_result_get_public_key (\<lambda>_. clear_pending_pubkey)
             else
               CHECK (modify (\<lambda>s. s\<lparr>pubkey_confirmation_pending := True\<rparr>)) (\<lambda>_.
               CHECK (in_bounds (strlen addr)) (\<lambda>address_length.
               CHECK (display_address_confirmation_ui (take address_length addr)) (\<lambda>shown.
               if shown then return ()
               else
                 CHECK (modify (\<lambda>s. s\<lparr>pubkey_confirmation_pending := False\<rparr>)) (\<lambda>_.
                 CHECK clear_pending_pubkey (\<lambda>_.
                 io_send_sw (sdk_SWO_INCORRECT_DATA sdk))))))))))))))"

section \<open>Configuration and dispatch\<close>

definition handle_get_app_configuration :: "'key sdk \<Rightarrow> unit act" where
  "handle_get_app_configuration sdk =
     (let (major, minor, patch) = sdk_version sdk in
      io_send (Send_Response [0x00, major, minor, patch] 0x9000))"

definition handle_apdu :: "'key sdk \<Rightarrow> u8 list \<Rightarrow> unit act" where
  "handle_apdu sdk G_io_apdu_buffer =
     CHECK (in_bounds (peek G_io_apdu_buffer 0 OFFSET_CDATA)) (\<lambda>header.
     let ins = header ! OFFSET_INS; p1 = header ! OFFSET_P1; p2 = header ! OFFSET_P2;
         lc = header ! OFFSET_LC; cdata = drop OFFSET_CDATA G_io_apdu_buffer in
     if header ! OFFSET_CLA \<noteq> CLA then io_send_sw 0x6E00
     else
       CHECK (gets last_ins) (\<lambda>last.
       CHECK (if ins \<noteq> last then reset_transaction_context else return ()) (\<lambda>_.
       CHECK (modify (\<lambda>s. s\<lparr>last_ins := ins\<rparr>)) (\<lambda>_.
       if ins = INS_GET_PUBLIC_KEY then handle_get_public_key sdk p1 p2 cdata (ucast lc)
       else if ins = INS_SIGN then handle_sign sdk p1 p2 cdata lc
       else if ins = INS_GET_APP_CONFIGURATION then handle_get_app_configuration sdk
       else io_send_sw 0x6D00))))"

text \<open>One turn of the loop of \<open>app_main\<close>, for a received command.\<close>

definition app_main_turn :: "'key sdk \<Rightarrow> u8 list \<Rightarrow> unit act" where
  "app_main_turn sdk rx =
     (if \<not> sdk_apdu_parser sdk rx \<or> length rx < OFFSET_CDATA
      then CHECK reset_transaction_context (\<lambda>_. io_send_sw (sdk_SWO_WRONG_DATA_LENGTH sdk))
      else handle_apdu sdk rx)"

section \<open>Callbacks of the screens\<close>

definition reviewChoice :: "'key sdk \<Rightarrow> bool \<Rightarrow> unit act" where
  "reviewChoice sdk confirm =
     (if confirm
      then CHECK (on_approval_menu_result sdk OPTION_SIGN) (\<lambda>_. show_screen (Status Signed))
      else CHECK (on_approval_menu_result sdk OPTION_REJECT) (\<lambda>_. show_screen (Status Rejected)))"

definition confirmationChoiceClbk :: "bool \<Rightarrow> unit act" where
  "confirmationChoiceClbk confirm =
     (if confirm then CHECK on_address_confirmed (\<lambda>_. show_screen (Status Address_Verified))
      else CHECK on_address_rejected (\<lambda>_. show_screen (Status Address_Rejected)))"

definition ui_error_blind_signing_choice :: "bool \<Rightarrow> unit act" where
  "ui_error_blind_signing_choice confirm =
     (if confirm then display_settings_menu else display_idle_menu)"

text \<open>
  What can happen to a running app: a command arrives, the user answers what is shown, toggles
  the switch of the settings page (a page of the idle menu), or a status page closes.
\<close>

datatype event =
    Command "u8 list"
  | User_Choice bool
  | Toggle_Switch
  | Status_Closed

fun handle_event :: "'key sdk \<Rightarrow> event \<Rightarrow> unit act" where
  "handle_event sdk (Command rx) = app_main_turn sdk rx"
| "handle_event sdk (User_Choice confirm) =
     CHECK (gets screen) (\<lambda>d. case d of
       Review _ \<Rightarrow> reviewChoice sdk confirm
     | Address_Review _ \<Rightarrow> confirmationChoiceClbk confirm
     | Blind_Warning \<Rightarrow> ui_error_blind_signing_choice confirm
     | _ \<Rightarrow> return ())"
| "handle_event sdk Toggle_Switch =
     CHECK (gets screen) (\<lambda>d.
       if d = Idle_Menu \<or> d = Settings_Menu then settings_controls_callback else return ())"
| "handle_event sdk Status_Closed =
     CHECK (gets screen) (\<lambda>d. case d of Status _ \<Rightarrow> display_idle_menu | _ \<Rightarrow> return ())"

text \<open>The app as it starts: cleared globals, the parameters of a swap when called for one.\<close>

definition start_app :: "swapStrings_t option \<Rightarrow> u8 \<Rightarrow> app" where
  "start_app swap setting =
     \<lparr>sign_state = IDLE, parse_context = zero_context, parse_data = False, tmp_ctx = zero_tmp_ctx,
      approval_strings = (case swap of None \<Rightarrow> zero_swap | Some p \<Rightarrow> p), last_ins = 0,
      pubkey_confirmation_pending = False, pending_pubkey_ctx = zero_pubkey,
      G_called_from_swap = (swap \<noteq> None), allow_blind_sign = setting,
      switch_on = (swap = None \<and> setting \<noteq> BlindSignDisabled),
      screen = (if swap = None then Idle_Menu else No_Screen), trace = []\<rparr>"

text \<open>
  The step relation. A run that has left the app takes no further step.
\<close>

datatype run_state = Running app | Left app | Wrong app

inductive step :: "('e \<Rightarrow> unit act) \<Rightarrow> run_state \<Rightarrow> 'e \<Rightarrow> run_state \<Rightarrow> bool" for handle where
  step_on: "handle e s = (Inr (), t) \<Longrightarrow> step handle (Running s) e (Running t)"
| step_exit: "handle e s = (Inl Exited, t) \<Longrightarrow> step handle (Running s) e (Left t)"
| step_wrong: "handle e s = (Inl Out_Of_Bounds, t) \<Longrightarrow> step handle (Running s) e (Wrong t)"

inductive steps :: "('e \<Rightarrow> unit act) \<Rightarrow> run_state \<Rightarrow> 'e list \<Rightarrow> run_state \<Rightarrow> bool" for handle where
  steps_nil: "steps handle r [] r"
| steps_snoc: "steps handle r es r' \<Longrightarrow> step handle r' e r'' \<Longrightarrow> steps handle r (es @ [e]) r''"

inductive_cases step_RunningE: "step handle (Running s) e r"
inductive_cases step_LeftE [elim!]: "step handle (Left s) e r"
inductive_cases step_WrongE [elim!]: "step handle (Wrong s) e r"
inductive_simps step_Running: "step handle (Running s) e r"
inductive_simps steps_Nil: "steps handle r [] r'"

end
