(* ===== verification/Session_Safety.thy ===== *)
theory Session_Safety
  imports Commands Parser_Safety
begin

text \<open>
  The invariant of the signing session and that every command and every user action keeps it:
  no handler leaves a buffer, a transaction waiting for the user is the one shown, and a
  signature is made of the bytes received.
\<close>

section \<open>Weakest preconditions of the building blocks\<close>

lemma wp_in_bounds [wp_rules]:
  "wp (in_bounds x) Q E = (\<lambda>s. case x of Some v \<Rightarrow> Q v s | None \<Rightarrow> E Out_Of_Bounds s)"
  by (rule ext) (simp add: in_bounds_def wp_return wp_throw split: option.splits)

lemma wp_case_option [wp_rules]:
  "wp (case x of None \<Rightarrow> m | Some y \<Rightarrow> k y) Q E s =
     (case x of None \<Rightarrow> wp m Q E s | Some y \<Rightarrow> wp (k y) Q E s)"
  by (simp split: option.splits)

lemma wp_io_send [wp_rules]: "wp (io_send e) Q E = (\<lambda>s. Q () (s\<lparr>trace := trace s @ [e]\<rparr>))"
  by (simp add: io_send_def wp_modify)

lemma wp_io_send_sw [wp_rules]: "wp (io_send_sw sw) Q E = (\<lambda>s. Q () (s\<lparr>trace := trace s @ [Send_SW sw]\<rparr>))"
  by (simp add: io_send_sw_def wp_io_send)

lemma wp_show_screen [wp_rules]: "wp (show_screen d) Q E = (\<lambda>s. Q () (s\<lparr>screen := d\<rparr>))"
  by (simp add: show_screen_def wp_modify)

definition reset_app :: "app \<Rightarrow> app" where
  "reset_app s =
     (let t = s\<lparr>parse_context := zero_context, parse_data := False, tmp_ctx := zero_tmp_ctx,
                sign_state := IDLE\<rparr>
      in if G_called_from_swap s then t else t\<lparr>approval_strings := zero_swap\<rparr>)"

lemma wp_reset [wp_rules]: "wp reset_transaction_context Q E = (\<lambda>s. Q () (reset_app s))"
  by (rule ext) (simp add: reset_transaction_context_def wp_rules reset_app_def Let_def)

lemma wp_send_error [wp_rules]:
  "wp (send_error sw) Q E = (\<lambda>s. Q () ((reset_app s)\<lparr>trace := trace (reset_app s) @ [Send_SW sw]\<rparr>))"
  by (simp add: send_error_def wp_rules)

lemma reset_app_simps [simp]:
  "sign_state (reset_app s) = IDLE" "parse_context (reset_app s) = zero_context"
  "parse_data (reset_app s) = False" "tmp_ctx (reset_app s) = zero_tmp_ctx"
  "trace (reset_app s) = trace s" "last_ins (reset_app s) = last_ins s"
  "screen (reset_app s) = screen s" "allow_blind_sign (reset_app s) = allow_blind_sign s"
  "G_called_from_swap (reset_app s) = G_called_from_swap s"
  "pending_pubkey_ctx (reset_app s) = pending_pubkey_ctx s"
  "pubkey_confirmation_pending (reset_app s) = pubkey_confirmation_pending s"
  "switch_on (reset_app s) = switch_on s"
  "approval_strings (reset_app s) = (if G_called_from_swap s then approval_strings s else zero_swap)"
  by (simp_all add: reset_app_def Let_def)

lemma reset_app_trace: "reset_app (s\<lparr>trace := tr\<rparr>) = (reset_app s)\<lparr>trace := tr\<rparr>"
  by (cases s) (simp add: reset_app_def Let_def)

lemma reset_app_tmp_ctx: "reset_app (s\<lparr>tmp_ctx := c\<rparr>) = reset_app s"
  by (cases s) (simp add: reset_app_def Let_def)

definition idle_app :: "screen \<Rightarrow> app \<Rightarrow> app" where
  "idle_app d s = s\<lparr>switch_on := allow_blind_sign s \<noteq> BlindSignDisabled, screen := d\<rparr>"

lemma wp_display_idle_menu [wp_rules]: "wp display_idle_menu Q E = (\<lambda>s. Q () (idle_app Idle_Menu s))"
  by (simp add: display_idle_menu_def set_switches_states_def wp_rules idle_app_def)

lemma wp_display_settings_menu [wp_rules]:
  "wp display_settings_menu Q E = (\<lambda>s. Q () (idle_app Settings_Menu s))"
  by (simp add: display_settings_menu_def set_switches_states_def wp_rules idle_app_def)

lemma idle_app_simps [simp]:
  "sign_state (idle_app d s) = sign_state s" "parse_context (idle_app d s) = parse_context s"
  "parse_data (idle_app d s) = parse_data s" "tmp_ctx (idle_app d s) = tmp_ctx s"
  "trace (idle_app d s) = trace s" "last_ins (idle_app d s) = last_ins s"
  "screen (idle_app d s) = d" "allow_blind_sign (idle_app d s) = allow_blind_sign s"
  "G_called_from_swap (idle_app d s) = G_called_from_swap s"
  "pending_pubkey_ctx (idle_app d s) = pending_pubkey_ctx s"
  "pubkey_confirmation_pending (idle_app d s) = pubkey_confirmation_pending s"
  "approval_strings (idle_app d s) = approval_strings s"
  by (simp_all add: idle_app_def)

section \<open>The invariant\<close>

definition pubkey_ok :: "publicKeyContext_t \<Rightarrow> bool" where
  "pubkey_ok p \<longleftrightarrow> length (pk_W p) = 65 \<and> length (chain_code p) = 32 \<and>
     length (address p) = XRP_ADDRESS_SIZE \<and> NUL \<in> set (address p)"

definition swap_ok :: "swapStrings_t \<Rightarrow> bool" where
  "swap_ok w \<longleftrightarrow> length (sw_address w) = 41 \<and> NUL \<in> set (sw_address w) \<and>
     length (destination_tag w) = 11 \<and> NUL \<in> set (destination_tag w) \<and> length (sw_tmp w) = 41"

text \<open>The key is chosen: a path of one to ten elements and one of the two curves.\<close>

definition key_ok :: "transactionContext_t \<Rightarrow> bool" where
  "key_ok c \<longleftrightarrow> 1 \<le> unat (path_length c) \<and> unat (path_length c) \<le> MAX_BIP32_PATH \<and>
     tc_curve c \<in> {CX_CURVE_256K1, CX_CURVE_Ed25519}"

definition buffers_ok :: "app \<Rightarrow> bool" where
  "buffers_ok s \<longleftrightarrow> length (raw_tx (tmp_ctx s)) = MAX_RAW_TX \<and>
     length (bip32_path (tmp_ctx s)) = MAX_BIP32_PATH \<and>
     pubkey_ok (pending_pubkey_ctx s) \<and> swap_ok (approval_strings s)"

text \<open>A transaction being received: no field parsed yet.\<close>

definition collecting :: "app \<Rightarrow> bool" where
  "collecting s \<longleftrightarrow>
     (\<exists>len. parse_context s = init_context [] len \<and> prefix_length + unat len \<le> MAX_RAW_TX)"

text \<open>
  A transaction that is signed when the user agrees: the parser has run on the bytes received and
  asked for blind signing just if \<open>blind\<close>; the prefix is set and the suffix has room.
\<close>

definition prefix_of :: "bool \<Rightarrow> u8 list" where
  "prefix_of multi = (if multi then sign_prefix_multi else sign_prefix)"

definition presented :: "bool \<Rightarrow> app \<Rightarrow> bool" where
  "presented blind s \<longleftrightarrow>
     (let pc = parse_context s; c = tmp_ctx s; len = ctx_length pc in
      parse_data s \<and> key_ok c \<and> unat (raw_tx_length c) = prefix_length + unat len \<and>
      prefix_length + unat len \<le> MAX_RAW_TX \<and>
      (has_empty_pub_key pc \<longrightarrow> prefix_length + unat len + suffix_length \<le> MAX_RAW_TX) \<and>
      take prefix_length (raw_tx c) = prefix_of (has_empty_pub_key pc) \<and>
      parse_tx (init_context (received s) len) =
        Some (if blind then Inl BLIND_SIGN_REQUIRED else Inr (), pc))"

definition state_ok :: "app \<Rightarrow> bool" where
  "state_ok s \<longleftrightarrow> (case sign_state s of
     IDLE \<Rightarrow> parse_context s = zero_context
   | WAITING_FOR_MORE \<Rightarrow> parse_data s \<and> collecting s \<and> key_ok (tmp_ctx s)
   | PENDING_REVIEW \<Rightarrow> \<not> G_called_from_swap s \<and> last_ins s = INS_SIGN \<and>
       (\<exists>blind. screen s = Review blind \<and> presented blind s))"

definition screen_ok :: "app \<Rightarrow> bool" where
  "screen_ok s \<longleftrightarrow> (case screen s of
     Review blind \<Rightarrow> \<not> G_called_from_swap s \<and> (blind \<longrightarrow> allow_blind_sign s \<noteq> BlindSignDisabled)
   | Address_Review a \<Rightarrow> pubkey_confirmation_pending s \<and> a = cstr (address (pending_pubkey_ctx s))
   | _ \<Rightarrow> True)"

definition app_inv :: "app \<Rightarrow> bool" where
  "app_inv s \<longleftrightarrow> buffers_ok s \<and> state_ok s \<and> screen_ok s"

lemma zero_ok [simp]:
  "swap_ok zero_swap" "pubkey_ok zero_pubkey" "length (raw_tx zero_tmp_ctx) = MAX_RAW_TX"
  "length (bip32_path zero_tmp_ctx) = MAX_BIP32_PATH"
  by (simp_all add: swap_ok_def zero_swap_def pubkey_ok_def zero_pubkey_def zero_tmp_ctx_def)

lemma reset_buffers [simp]: "buffers_ok s \<Longrightarrow> buffers_ok (reset_app s)"
  by (simp add: buffers_ok_def)

lemma reset_inv: "buffers_ok s \<Longrightarrow> screen_ok s \<Longrightarrow> app_inv (reset_app s)"
  by (simp add: app_inv_def state_ok_def screen_ok_def split: screen.splits)

lemma inv_trace [simp]:
  "app_inv (s\<lparr>trace := tr\<rparr>) = app_inv s" "buffers_ok (s\<lparr>trace := tr\<rparr>) = buffers_ok s"
  "screen_ok (s\<lparr>trace := tr\<rparr>) = screen_ok s" "state_ok (s\<lparr>trace := tr\<rparr>) = state_ok s"
  by (simp_all add: app_inv_def buffers_ok_def state_ok_def screen_ok_def collecting_def presented_def
      received_def cong: signState_e.case_cong screen.case_cong)

lemma idle_app_inv:
  "app_inv s \<Longrightarrow> sign_state s \<noteq> PENDING_REVIEW \<Longrightarrow> d = Idle_Menu \<or> d = Settings_Menu \<Longrightarrow>
   app_inv (idle_app d s)"
  by (auto simp: app_inv_def buffers_ok_def state_ok_def screen_ok_def collecting_def
      split: signState_e.splits)

section \<open>Signing\<close>

text \<open>The bytes that are signed: the prefix, the bytes received and, for a multi-signature, the
  hash of the signer's key.\<close>

abbreviation key_path :: "transactionContext_t \<Rightarrow> u32 list" where
  "key_path c \<equiv> take (unat (path_length c)) (bip32_path c)"

definition signer_hash :: "'key sdk \<Rightarrow> transactionContext_t \<Rightarrow> u8 list" where
  "signer_hash sdk c =
     the (xrp_public_key_hash160 sdk (the (xrp_compress_public_key (tc_curve c)
       (the (sdk_pair sdk (tc_curve c) (the (sdk_privkey sdk (tc_curve c) (key_path c))))))))"

definition signed_bytes :: "'key sdk \<Rightarrow> app \<Rightarrow> u8 list" where
  "signed_bytes sdk s =
     (let multi = has_empty_pub_key (parse_context s) in
      prefix_of multi @ received s @ (if multi then signer_hash sdk (tmp_ctx s) else []))"

definition signature_of :: "'key sdk \<Rightarrow> app \<Rightarrow> io" where
  "signature_of sdk s = Signature (tc_curve (tmp_ctx s)) (key_path (tmp_ctx s)) (signed_bytes sdk s)"

text \<open>
  The signature of a message by the key of the context, as the library computes it. The library
  \<open>works\<close> if no call of it fails.
\<close>

definition signature_value :: "'key sdk \<Rightarrow> transactionContext_t \<Rightarrow> u8 list \<Rightarrow> u8 list option" where
  "signature_value sdk c msg =
     Option.bind (sdk_privkey sdk (tc_curve c) (key_path c)) (\<lambda>key.
     if tc_curve c = CX_CURVE_256K1 then sdk_ecdsa sdk key (take 32 (the (sdk_sha512 sdk msg)))
     else sdk_eddsa sdk key msg)"

definition sdk_works :: "'key sdk \<Rightarrow> bool" where
  "sdk_works sdk \<longleftrightarrow> (\<forall>c p k m. sdk_privkey sdk c p \<noteq> None \<and> sdk_pair sdk c k \<noteq> None \<and>
     sdk_ecdsa sdk k m \<noteq> None \<and> sdk_eddsa sdk k m \<noteq> None)"

lemma wp_False_conv: "wp m Q (\<lambda>e s. False) s \<longleftrightarrow> (\<exists>x t. m s = (Inr x, t) \<and> Q x t)"
  by (auto simp: wp_def split: prod.splits sum.splits)

lemma presented_bytes:
  assumes "buffers_ok s" and "presented b s"
  shows "take (unat (raw_tx_length (tmp_ctx s))) (raw_tx (tmp_ctx s)) =
     prefix_of (has_empty_pub_key (parse_context s)) @ received s"
proof -
  have "unat (raw_tx_length (tmp_ctx s)) = 4 + unat (ctx_length (parse_context s))"
    and "take 4 (raw_tx (tmp_ctx s)) = prefix_of (has_empty_pub_key (parse_context s))"
    using assms(2) by (auto simp: presented_def Let_def)
  then show ?thesis by (simp add: received_def take_add)
qed

lemma wp_append_suffix:
  assumes "sdk_contract sdk" and "buffers_ok s" and "presented b s"
    and "sdk_privkey sdk (tc_curve (tmp_ctx s)) (key_path (tmp_ctx s)) = Some key"
    and "has_empty_pub_key (parse_context s)"
  shows "wp (append_suffix sdk key) (\<lambda>ok t. \<exists>c. t = s\<lparr>tmp_ctx := c\<rparr> \<and> (\<not> ok \<longrightarrow> \<not> sdk_works sdk) \<and>
     (ok \<longrightarrow> tc_curve c = tc_curve (tmp_ctx s) \<and> key_path c = key_path (tmp_ctx s) \<and>
        unat (raw_tx_length c) \<le> length (raw_tx c) \<and>
        take (unat (raw_tx_length c)) (raw_tx c) = signed_bytes sdk s)) (\<lambda>e t. False) s"
proof (cases "sdk_pair sdk (tc_curve (tmp_ctx s)) key")
  case None
  then show ?thesis by (auto simp: append_suffix_def wp_rules sdk_works_def intro!: exI [of _ "tmp_ctx s"])
next
  case (Some W)
  then have "length W = 65" using assms(1) unfolding sdk_contract_def by blast
  then obtain p where p: "xrp_compress_public_key (tc_curve (tmp_ctx s)) W = Some p"
    using compress_total by blast
  obtain h where h: "xrp_public_key_hash160 sdk p = Some h" and l: "length h = 20"
    using hash160 [OF assms(1)] .
  let ?c = "tmp_ctx s"
  let ?n = "unat (raw_tx_length ?c)"
  have n: "?n + 20 \<le> MAX_RAW_TX" "length (raw_tx ?c) = MAX_RAW_TX"
    using assms(2,3,5) by (auto simp: presented_def Let_def buffers_ok_def)
  have sum: "unat (raw_tx_length ?c + 20) = ?n + 20" using n by (subst unat_add_noovf) auto
  have peek: "peek h 0 20 = Some h" using l by simp
  have poke: "poke (raw_tx ?c) ?n h = Some (take ?n (raw_tx ?c) @ h @ drop (?n + 20) (raw_tx ?c))"
    using n l by (simp add: poke_def)
  have "signer_hash sdk ?c = h" using assms(4) Some p h by (simp add: signer_hash_def)
  then have bytes: "take ?n (raw_tx ?c) @ h = signed_bytes sdk s"
    using presented_bytes [OF assms(2,3)] assms(5) by (simp add: signed_bytes_def)
  let ?c' = "?c\<lparr>raw_tx := take ?n (raw_tx ?c) @ h @ drop (?n + 20) (raw_tx ?c), raw_tx_length := raw_tx_length ?c + 20\<rparr>"
  have ok: "tc_curve ?c' = tc_curve ?c \<and> key_path ?c' = key_path ?c \<and>
      unat (raw_tx_length ?c') \<le> length (raw_tx ?c') \<and>
      take (unat (raw_tx_length ?c')) (raw_tx ?c') = signed_bytes sdk s"
    using bytes n l by (simp add: sum)
  show ?thesis
    using Some p h ok
    by (simp add: append_suffix_def wp_rules peek poke set_tmp_ctx_def del: peek_eq_Some take_append)
      (intro exI [of _ ?c'], simp del: take_append)
qed

lemma wp_make_signature:
  assumes "sdk_contract sdk" and "unat (raw_tx_length (tmp_ctx s)) \<le> length (raw_tx (tmp_ctx s))"
    and "sdk_privkey sdk (tc_curve (tmp_ctx s)) (key_path (tmp_ctx s)) = Some key"
  shows "wp (make_signature sdk key) (\<lambda>r t.
     (let msg = take (unat (raw_tx_length (tmp_ctx s))) (raw_tx (tmp_ctx s)) in
      r = signature_value sdk (tmp_ctx s) msg \<and> (r = None \<longrightarrow> \<not> sdk_works sdk) \<and>
      t = s\<lparr>trace := trace s @ [Signature (tc_curve (tmp_ctx s)) (key_path (tmp_ctx s)) msg]\<rparr>))
     (\<lambda>e t. False) s"
proof -
  obtain h where "sdk_sha512 sdk (take (unat (raw_tx_length (tmp_ctx s))) (raw_tx (tmp_ctx s))) = Some h"
    and "length h = 64" using assms(1) unfolding sdk_contract_def by blast
  then show ?thesis using assms(2,3)
    by (auto simp: make_signature_def wp_rules Let_def peek_def signature_value_def sdk_works_def)
qed

text \<open>The outcome of \<open>sign_raw_tx\<close>: the signature of the right bytes, or a failure of the library.\<close>

definition raw_signed :: "'key sdk \<Rightarrow> app \<Rightarrow> u8 list option \<Rightarrow> app \<Rightarrow> bool" where
  "raw_signed sdk s r t \<longleftrightarrow> (\<exists>c. (r = None \<longrightarrow> \<not> sdk_works sdk) \<and>
     ((r = None \<and> t = s\<lparr>tmp_ctx := c\<rparr>) \<or>
      (r = signature_value sdk (tmp_ctx s) (signed_bytes sdk s) \<and>
       t = s\<lparr>tmp_ctx := c, trace := trace s @ [signature_of sdk s]\<rparr>)))"

lemma signature_value_cong:
  "tc_curve c = tc_curve c' \<Longrightarrow> key_path c = key_path c' \<Longrightarrow> signature_value sdk c m = signature_value sdk c' m"
  by (simp add: signature_value_def)

lemma wp_sign_raw_tx:
  assumes "sdk_contract sdk" and "buffers_ok s" and "presented b s"
  shows "wp (sign_raw_tx sdk) (raw_signed sdk s) (\<lambda>e t. False) s"
proof (cases "sdk_privkey sdk (tc_curve (tmp_ctx s)) (key_path (tmp_ctx s))")
  case None
  then show ?thesis
    by (auto simp: sign_raw_tx_def wp_rules raw_signed_def sdk_works_def intro!: exI [of _ "tmp_ctx s"])
next
  case (Some key)
  show ?thesis
  proof (cases "has_empty_pub_key (parse_context s)")
    case True
    have "wp (append_suffix sdk key) (\<lambda>ok t. wp (if ok then make_signature sdk key else return None)
        (raw_signed sdk s) (\<lambda>e t. False) t) (\<lambda>e t. False) s"
    proof (rule wp_mono [OF wp_append_suffix [OF assms Some True]])
      fix ok t
      assume "\<exists>c. t = s\<lparr>tmp_ctx := c\<rparr> \<and> (\<not> ok \<longrightarrow> \<not> sdk_works sdk) \<and> (ok \<longrightarrow> tc_curve c = tc_curve (tmp_ctx s) \<and>
        key_path c = key_path (tmp_ctx s) \<and> unat (raw_tx_length c) \<le> length (raw_tx c) \<and>
        take (unat (raw_tx_length c)) (raw_tx c) = signed_bytes sdk s)"
      then obtain c where t: "t = s\<lparr>tmp_ctx := c\<rparr>" and nok: "\<not> ok \<longrightarrow> \<not> sdk_works sdk"
        and c: "ok \<longrightarrow> tc_curve c = tc_curve (tmp_ctx s) \<and>
        key_path c = key_path (tmp_ctx s) \<and> unat (raw_tx_length c) \<le> length (raw_tx c) \<and>
        take (unat (raw_tx_length c)) (raw_tx c) = signed_bytes sdk s" by blast
      show "wp (if ok then make_signature sdk key else return None) (raw_signed sdk s) (\<lambda>e t. False) t"
      proof (cases ok)
        case True
        with c have le: "unat (raw_tx_length (tmp_ctx t)) \<le> length (raw_tx (tmp_ctx t))"
          and k: "sdk_privkey sdk (tc_curve (tmp_ctx t)) (key_path (tmp_ctx t)) = Some key"
          using Some by (simp_all add: t)
        have "wp (make_signature sdk key) (raw_signed sdk s) (\<lambda>e t. False) t"
          by (rule wp_mono [OF wp_make_signature [OF assms(1) le k]])
            (use c True t signature_value_cong [of c "tmp_ctx s" sdk] in
              \<open>auto simp: raw_signed_def signature_of_def Let_def\<close>)
        with True show ?thesis by simp
      next
        case False
        then show ?thesis using t nok by (auto simp: wp_rules raw_signed_def)
      qed
    qed
    then show ?thesis using Some True by (simp add: sign_raw_tx_def wp_CHECK wp_gets wp_case_option)
  next
    case False
    have le: "unat (raw_tx_length (tmp_ctx s)) \<le> length (raw_tx (tmp_ctx s))"
      using assms(2,3) by (auto simp: presented_def Let_def buffers_ok_def)
    have sb: "take (unat (raw_tx_length (tmp_ctx s))) (raw_tx (tmp_ctx s)) = signed_bytes sdk s"
      using presented_bytes [OF assms(2,3)] False by (simp add: signed_bytes_def)
    have "wp (make_signature sdk key) (raw_signed sdk s) (\<lambda>e t. False) s"
      by (rule wp_mono [OF wp_make_signature [OF assms(1) le Some]])
        (auto simp: raw_signed_def signature_of_def sb Let_def intro: exI [of _ "tmp_ctx s"])
    then show ?thesis using Some False by (simp add: sign_raw_tx_def wp_rules)
  qed
qed

text \<open>Where \<open>sign_transaction\<close> leads from a presented transaction: it signs it or leaves the app.\<close>

definition signs :: "'key sdk \<Rightarrow> app \<Rightarrow> app \<Rightarrow> bool" where
  "signs sdk s t \<longleftrightarrow> (\<exists>bytes. signature_value sdk (tmp_ctx s) (signed_bytes sdk s) = Some bytes \<and>
     t = (reset_app s)\<lparr>trace := trace s @ [signature_of sdk s, Send_Response bytes 0x9000]\<rparr>)"

definition leaves_signing :: "'key sdk \<Rightarrow> app \<Rightarrow> stop \<Rightarrow> app \<Rightarrow> bool" where
  "leaves_signing sdk s e t \<longleftrightarrow> e = Exited \<and> \<not> sdk_works sdk \<and>
     (\<exists>tr. t = (reset_app s)\<lparr>trace := trace s @ tr\<rparr> \<and> (tr = [] \<or> tr = [signature_of sdk s]))"

lemma wp_sign_transaction:
  assumes "sdk_contract sdk" and "buffers_ok s" and "presented b s" and "sign_state s = PENDING_REVIEW"
  shows "wp (sign_transaction sdk) (\<lambda>_. signs sdk s) (leaves_signing sdk s) s"
proof -
  have d: "parse_data s" using assms(3) by (simp add: presented_def Let_def)
  have r: "reset_app (s\<lparr>tmp_ctx := c\<rparr>) = reset_app s"
    "reset_app (s\<lparr>tmp_ctx := c, trace := tr\<rparr>) = (reset_app s)\<lparr>trace := tr\<rparr>" for c tr
    by (simp_all add: reset_app_trace reset_app_tmp_ctx)
  have "wp (sign_raw_tx sdk) (\<lambda>sig t. wp (case sig of None \<Rightarrow> throw Exited
      | Some bytes \<Rightarrow> io_send (Send_Response bytes 0x9000)) (\<lambda>_. signs sdk s) (leaves_signing sdk s) (reset_app t))
      (leaves_signing sdk s) s"
  proof (rule wp_mono [OF wp_sign_raw_tx [OF assms(1-3)]])
    fix sig :: "u8 list option" and t
    assume "raw_signed sdk s sig t"
    then show "wp (case sig of None \<Rightarrow> throw Exited | Some bytes \<Rightarrow> io_send (Send_Response bytes 0x9000))
        (\<lambda>_. signs sdk s) (leaves_signing sdk s) (reset_app t)"
      by (cases sig)
        (auto simp: wp_rules r signs_def leaves_signing_def raw_signed_def dest: sym intro: exI [of _ "[]"]
          split: option.split)
  qed simp
  then show ?thesis using assms(4) d by (simp add: sign_transaction_def wp_rules)
qed

lemma wp_sign_transaction_late [wp_rules]:
  "sign_state s \<noteq> PENDING_REVIEW \<Longrightarrow>
   wp (sign_transaction sdk) Q E s = Q () (idle_app Idle_Menu (reset_app s))"
  by (simp add: sign_transaction_def wp_rules)

lemma wp_reject_transaction:
  "wp reject_transaction Q E s =
     Q () (if sign_state s \<noteq> PENDING_REVIEW then idle_app Idle_Menu (reset_app s)
           else if G_called_from_swap s then s\<lparr>trace := trace s @ [Send_SW 0x6985]\<rparr>
           else (reset_app s)\<lparr>trace := trace s @ [Send_SW 0x6985]\<rparr>)"
  by (simp add: reject_transaction_def wp_rules reset_app_trace)

end
