(* ===== verification/Blind_Causes.thy ===== *)
theory Blind_Causes
  imports Parser_Safety
begin

text \<open>
  The transaction type the parser records, and why it asks for blind signing: the recorded type is
  the one that is shown, and each of the causes is one the comments of \<open>xrp_parse.c\<close> name. A second
  invariant of the parser, next to the one of \<open>Parser_Safety\<close>.
\<close>

section \<open>The recorded type\<close>

text \<open>
  \<open>types_as K tx c\<close>: \<open>tx\<close> is recorded, and every TransactionType among the fields, but for those of
  \<open>K\<close>, which are being read, holds it or the value that counts as none.
\<close>

definition type_as :: "u16 \<Rightarrow> field_t \<Rightarrow> bool" where
  "type_as tx f \<longleftrightarrow> (is_transaction_type_field f \<longrightarrow>
     fdata f = DU16 tx \<or> fdata f = DU16 TRANSACTION_INVALID)"

definition types_as :: "nat set \<Rightarrow> u16 \<Rightarrow> parseContext_t \<Rightarrow> bool" where
  "types_as K tx c \<longleftrightarrow> transaction_type c = tx \<and>
     (\<forall>i < length (res_fields (result c)). i \<notin> K \<longrightarrow> type_as tx (slot c i))"

lemma type_as_other: "data_type f \<noteq> STI_UINT16 \<Longrightarrow> type_as tx f"
  by (simp add: type_as_def is_transaction_type_field_def)

lemma type_as_place [simp]:
  "type_as tx (f\<lparr>array_info := a\<rparr>) = type_as tx f"
  "type_as tx (f\<lparr>object_depth := d\<rparr>) = type_as tx f"
  by (simp_all add: type_as_def is_transaction_type_field_def)

lemma types_as_insert: "types_as K tx c \<Longrightarrow> types_as (insert n K) tx c"
  by (simp add: types_as_def)

text \<open>An operation keeps the types if it does so whatever type is recorded.\<close>

definition keeps :: "nat set \<Rightarrow> 'a parse \<Rightarrow> bool" where
  "keeps K m \<longleftrightarrow> (\<forall>tx c. types_as K tx c \<longrightarrow> wp m (\<lambda>_. types_as K tx) (\<lambda>_ _. True) c)"

named_theorems keeping \<open>operations that keep the recorded type\<close>

lemma keepsD: "keeps K m \<Longrightarrow> types_as K tx c \<Longrightarrow> wp m (\<lambda>_. types_as K tx) (\<lambda>_ _. True) c"
  by (simp add: keeps_def)

lemma keeps_CHECK [keeping]:
  assumes "keeps K m" and "\<And>x. keeps K (g x)"
  shows "keeps K (CHECK m g)"
  unfolding keeps_def wp_CHECK
proof (intro allI impI)
  fix tx c assume "types_as K tx c"
  from keepsD [OF assms(1) this]
  show "wp m (\<lambda>x. wp (g x) (\<lambda>_. types_as K tx) (\<lambda>_ _. True)) (\<lambda>_ _. True) c"
    by (rule wp_mono) (rule keepsD [OF assms(2)], assumption, rule TrueI)
qed

lemma keeps_basic [keeping]:
  "keeps K (return x)" "keeps K (throw e)" "keeps K (gets f)" "keeps K (mem p n)"
  "keeps K (get_field i)" "keeps K (from_union u)" "keeps K (field_ptr i)"
  by (auto simp: keeps_def wp_rules split: option.split field_data.split)

lemma keeps_if [keeping]: "keeps K m \<Longrightarrow> keeps K m' \<Longrightarrow> keeps K (if b then m else m')"
  by simp

lemma keeps_Let [keeping]: "(\<And>x. keeps K (g x)) \<Longrightarrow> keeps K (let x = a in g x)"
  by simp

lemma keeps_prod [keeping]: "(\<And>x y. keeps K (g x y)) \<Longrightarrow> keeps K (case p of (x, y) \<Rightarrow> g x y)"
  by (cases p) simp

lemma keeps_modify [keeping]:
  "(\<And>c. transaction_type (f c) = transaction_type c \<and> res_fields (result (f c)) = res_fields (result c)) \<Longrightarrow>
   keeps K (modify f)"
  by (simp add: keeps_def wp_rules types_as_def)

lemma keeps_upd:
  assumes "\<And>f tx. n \<notin> K \<Longrightarrow> type_as tx f \<Longrightarrow> type_as tx (g f)"
  shows "keeps K (upd_field n g)"
  using assms by (auto simp: keeps_def wp_upd_field types_as_def nth_list_update)

lemma keeps_own [keeping]: "n \<in> K \<Longrightarrow> keeps K (upd_field n g)"
  by (rule keeps_upd) simp

lemma keeps_place [keeping]:
  "keeps K (upd_field n (\<lambda>f. f\<lparr>array_info := a f\<rparr>))" "keeps K (upd_field n (\<lambda>f. f\<lparr>object_depth := d f\<rparr>))"
  by (rule keeps_upd; simp)+

lemma keeps_typed [keeping]: "t \<noteq> STI_UINT16 \<Longrightarrow> keeps K (make_field n t i p len)"
  unfolding make_field_def by (rule keeps_upd) (simp add: type_as_other)

section \<open>Operations on one field\<close>

lemma keeps_reading [keeping]:
  "keeps K (advance_position n)" "keeps K peak_next_byte" "keeps K read_next_byte" "keeps K read_vl_length"
  unfolding advance_position_def peak_next_byte_def read_next_byte_def read_vl_length_def
  by (intro keeping; simp)+

lemma keeps_append [keeping]: "keeps K append_new_field"
  unfolding append_new_field_def append_array_info_def by (intro keeping) (simp_all add: set_fields_def)

lemma keeps_fixed [keeping]:
  "k \<in> K \<Longrightarrow> keeps K (read_fixed_size_field k n)" "k \<in> K \<Longrightarrow> keeps K (read_variable_length_field k)"
  unfolding read_variable_length_field_def read_fixed_size_field_def by (intro keeping; simp)+

lemma keeps_amount [keeping]: "k \<in> K \<Longrightarrow> keeps K (read_amount k)"
  unfolding read_amount_def append_issued_fields_def has_non_standard_currency_def
  by (intro keeping) simp_all

lemma keeps_entries [keeping]: "keeps K (vector256_entries k i left)"
  by (induction left arbitrary: i) (simp_all, (intro keeping; simp)+)

lemma keeps_vector256 [keeping]: "k \<in> K \<Longrightarrow> keeps K (read_vector256_field k)"
  unfolding read_vector256_field_def by (intro keeping) simp_all

lemma keeps_issue [keeping]: "k \<in> K \<Longrightarrow> keeps K (read_issue k)"
  unfolding read_issue_def by (intro keeping) simp_all

lemma keeps_handlers [keeping]:
  "keeps K (handle_array_field k)" "keeps K (handle_object_field k)" "keeps K handle_path_set_field"
  unfolding handle_array_field_def handle_object_field_def handle_path_set_field_def
  by (intro keeping; simp)+

text \<open>A field that was opened is closed by giving it another type.\<close>

lemma keeps_close:
  assumes "keeps (insert n K) m" and "\<And>f. data_type (g f) \<noteq> STI_UINT16"
  shows "keeps K (CHECK m (\<lambda>_. upd_field n g))"
  unfolding keeps_def wp_CHECK
proof (intro allI impI)
  fix tx c assume "types_as K tx c"
  from keepsD [OF assms(1) types_as_insert [OF this]]
  show "wp m (\<lambda>_. wp (upd_field n g) (\<lambda>_. types_as K tx) (\<lambda>_ _. True)) (\<lambda>_ _. True) c"
    by (rule wp_mono) (auto simp: wp_upd_field types_as_def nth_list_update type_as_other assms(2))
qed

lemma keeps_issuer_step [keeping]: "keeps K (handle_path_step n 0x20)"
proof -
  have "keeps K (CHECK (read_fixed_size_field n 20) (\<lambda>_.
      upd_field n (\<lambda>f. f\<lparr>data_type := STI_ACCOUNT, fld_id := XRP_ACCOUNT_ISSUER\<rparr>)))"
    by (intro keeps_close keeping) simp_all
  then show ?thesis by (subst handle_path_step.simps) simp
qed

lemma keeps_path_step [keeping]: "k \<in> K \<Longrightarrow> keeps K (handle_path_step k step)"
  by (subst handle_path_step.simps) (intro keeping; simp)

lemma keeps_path_field [keeping]: "k \<in> K \<Longrightarrow> keeps K (handle_path_field k)"
  unfolding handle_path_field_def by (intro keeping) simp_all

lemma keeps_value [keeping]: "k \<in> K \<Longrightarrow> keeps K (read_field_value k)"
  unfolding read_field_value_def by (intro keeping) simp_all

lemma keeps_header [keeping]: "k \<in> K \<Longrightarrow> keeps K (read_field_header k)"
  unfolding read_field_header_def read_field_code_def by (intro keeping) simp_all

text \<open>A TransactionType that is nested, or comes when one has been recorded.\<close>

definition second_type :: "parseContext_t \<Rightarrow> field_t \<Rightarrow> bool" where
  "second_type d f \<longleftrightarrow> is_transaction_type_field f \<and>
     (ai_type (array_info f) \<noteq> ARRAY_NONE \<or> ctx_object_depth d \<noteq> 0 \<or>
      transaction_type d \<noteq> TRANSACTION_INVALID)"

text \<open>The last field of the table is the one named.\<close>

definition field_done :: "nat \<Rightarrow> u16 \<Rightarrow> parseContext_t \<Rightarrow> bool" where
  "field_done k tx d \<longleftrightarrow> types_as {} (transaction_type d) d \<and>
     (transaction_type d = tx \<or>
      is_transaction_type_field (slot d k) \<and> fdata (slot d k) = DU16 (transaction_type d))"

definition stopped_at :: "nat \<Rightarrow> exc \<Rightarrow> parseContext_t \<Rightarrow> bool" where
  "stopped_at k e d \<longleftrightarrow> (e = BLIND_SIGN_REQUIRED \<longrightarrow> nf d = Suc k \<and> second_type d (slot d k))"

lemma types_closed:
  assumes "types_as {k} tx c" and "type_as tx (slot c k)"
  shows "types_as {} tx c"
  using assms by (auto simp: types_as_def)

lemma plain_is_stopped: "plain_error e d \<Longrightarrow> stopped_at k e d"
  by (simp add: plain_error_def stopped_at_def)

lemma post_process_types:
  assumes "types_as {k} tx c" and "data_type (slot c k) = STI_UINT16 \<longrightarrow>
      nf c = Suc k \<and> (\<exists>w. fdata (slot c k) = DU16 w)"
  shows "wp (post_process_field k) (\<lambda>_. field_done k tx) (stopped_at k) c"
proof -
  have tx: "transaction_type c = tx" using assms(1) by (simp add: types_as_def)
  have same: "field_done k tx c" if "\<not> is_transaction_type_field (slot c k)"
    using types_closed [OF assms(1)] that tx by (simp add: field_done_def type_as_def)
  have first: "field_done k tx (c\<lparr>transaction_type := v\<rparr>)"
    if "is_transaction_type_field (slot c k)" "tx = TRANSACTION_INVALID" "fdata (slot c k) = DU16 v" for v
    using that assms(1) by (auto simp: field_done_def types_as_def type_as_def)
  have key: "field_done k tx (c\<lparr>has_empty_pub_key := b\<rparr>)" if "field_done k tx c" for b
    using that by (simp add: field_done_def types_as_def)
  have no: "\<not> is_transaction_type_field (slot c k)" if "data_type (slot c k) \<noteq> STI_UINT16"
    using that by (simp add: is_transaction_type_field_def)
  have second: "stopped_at k BLIND_SIGN_REQUIRED c"
    if "is_transaction_type_field (slot c k)"
      "\<not> (ai_type (array_info (slot c k)) = ARRAY_NONE \<and> ctx_object_depth c = 0 \<and> tx = TRANSACTION_INVALID)"
    using that assms(2) tx by (auto simp: stopped_at_def second_type_def is_transaction_type_field_def)
  have u16: "data_u16 (fdata (slot c k)) = Some v \<longrightarrow> fdata (slot c k) = DU16 v"
    if "is_transaction_type_field (slot c k)" for v
    using that assms(2) by (auto simp: is_transaction_type_field_def)
  show ?thesis
    using same first key [OF same] no second tx u16
    by (auto simp: post_process_field_def wp_rules Let_def stopped_at_def [of _ BAD_ACCESS]
        stopped_at_def [of _ INVALID_STATE] split: option.split)
qed

lemma value_read_types:
  assumes "value_read k c d" and "nf c = Suc k"
  shows "data_type (slot d k) = STI_UINT16 \<longrightarrow> nf d = Suc k \<and> (\<exists>w. fdata (slot d k) = DU16 w)"
  using assms by (auto simp: value_read_def may_add_fields_def value_shape_def field_shape_def
      split: field_data.splits)

text \<open>A contract of \<open>Parser_Safety\<close> and the recorded type, together.\<close>

lemma wp_keeping:
  assumes "wp m (\<lambda>_. P) plain_error c" and "keeps {k} m" and "types_as {k} tx c"
    and "\<And>d. P d \<Longrightarrow> types_as {k} tx d \<Longrightarrow> wp n Q (stopped_at k) d"
  shows "wp m (\<lambda>_. wp n Q (stopped_at k)) (stopped_at k) c"
  by (rule wp_mono [OF wp_conj [OF assms(1) keepsD [OF assms(2,3)]]])
    (use assms(4) plain_is_stopped in auto)

lemma read_field_types:
  assumes "ctx_inv {k} c" and "nf c = Suc k" and "types_as {k} tx c"
  shows "wp (read_field k) (\<lambda>_. field_done k tx) (stopped_at k) c"
proof -
  have k: "k < nf c" using assms(2) by simp
  let ?rest = "\<lambda>_. wp (post_process_field k) (\<lambda>_. field_done k tx) (stopped_at k)"
  have path: "wp (handle_path_field k) ?rest (stopped_at k) c"
    by (rule wp_keeping [OF handle_path_field_wp [OF assms(1) k] _ assms(3)])
      (use post_process_types value_read_types [OF _ assms(2)] in \<open>auto intro: keeping\<close>)
  have "wp (read_field_value k) ?rest (stopped_at k) d" if d: "header_read k c d" "types_as {k} tx d" for d
  proof -
    have n: "ctx_inv {k} d" "k < nf d" "nf d = Suc k" using d(1) assms(2) by (simp_all add: header_read_def)
    show ?thesis
      by (rule wp_keeping [OF read_field_value_wp [OF n(1,2)] _ d(2)])
        (use post_process_types value_read_types [OF _ n(3)] in \<open>auto intro: keeping\<close>)
  qed
  then have "wp (read_field_header k) (\<lambda>_. wp (CHECK (read_field_value k) (\<lambda>_. post_process_field k))
      (\<lambda>_. field_done k tx) (stopped_at k)) (stopped_at k) c"
    by (intro wp_keeping [OF read_field_header_wp [OF assms(1) k] _ assms(3)])
      (auto simp: wp_CHECK intro: keeping)
  with path show ?thesis by (simp add: read_field_def wp_rules)
qed

section \<open>The loop\<close>

text \<open>The recorded type agrees with the fields, and a recorded one is among them.\<close>

abbreviation holds_type :: "field_t \<Rightarrow> u16 \<Rightarrow> bool" where
  "holds_type f tx \<equiv> is_transaction_type_field f \<and> fdata f = DU16 tx"

definition recorded :: "parseContext_t \<Rightarrow> bool" where
  "recorded c \<longleftrightarrow> types_as {} (transaction_type c) c \<and>
     (transaction_type c \<noteq> TRANSACTION_INVALID \<longrightarrow> (\<exists>i < nf c. holds_type (slot c i) (transaction_type c)))"

text \<open>Reading stopped at a second or nested TransactionType, which is the last field of the table.\<close>

definition blind_stop :: "exc \<Rightarrow> parseContext_t \<Rightarrow> bool" where
  "blind_stop e d \<longleftrightarrow> (e = BLIND_SIGN_REQUIRED \<longrightarrow> 0 < nf d \<and> second_type d (slot d (nf d - 1)))"

lemma stopped_is_blind_stop: "stopped_at k e d \<Longrightarrow> blind_stop e d"
  by (simp add: stopped_at_def blind_stop_def)

lemma type_not_hidden: "is_transaction_type_field f \<Longrightarrow> \<not> is_field_hidden f"
  by (simp add: is_transaction_type_field_def is_field_hidden_def HIDE_def is_flag_hidden_def is_flag_def)

lemma remove_keeps_types:
  assumes "field_done k tx c" and "is_field_hidden (slot c k)"
  shows "wp (remove_last_field k) (\<lambda>_ d. types_as {} tx d) blind_stop c"
  using assms type_not_hidden
  by (auto simp: remove_last_field_def wp_rules wp_upd_field blind_stop_def field_done_def types_as_def
      nth_list_update type_as_def is_transaction_type_field_def zero_field_def)

lemma parse_one_field_types:
  assumes "ctx_inv {} c" and "types_as {} tx c"
  shows "wp parse_one_field (\<lambda>_ d. types_as {} tx d \<or>
     types_as {} (transaction_type d) d \<and> nf c < nf d \<and> holds_type (slot d (nf c)) (transaction_type d))
     blind_stop c"
  (is "wp _ ?Q _ c")
proof -
  let ?k = "nf c"
  have last: "wp (get_field ?k) (\<lambda>f. wp (if is_field_hidden f then remove_last_field ?k else return ())
      ?Q blind_stop) blind_stop d"
    if "field_done ?k tx d" "?k < nf d" for d
    using that wp_mono [OF remove_keeps_types [OF that(1)], of ?Q blind_stop]
    by (auto simp: wp_rules field_done_def blind_stop_def [of BAD_ACCESS])
  have body: "wp (read_field ?k) (\<lambda>_. wp (get_field ?k) (\<lambda>f. wp (if is_field_hidden f
      then remove_last_field ?k else return ()) ?Q blind_stop) blind_stop) blind_stop d"
    if d: "ctx_inv {?k} d" "nf d = ?k + 1" "types_as {?k} tx d" for d
  proof -
    have n: "nf d = Suc ?k" "?k < nf d" using d(2) by simp_all
    show ?thesis
      by (rule wp_mono [OF wp_conj [OF read_field_types [OF d(1) n(1) d(3)] read_field_wp [OF d(1) n(2)]]])
        (use n last in \<open>auto simp: field_read_def frame_def intro: stopped_is_blind_stop\<close>)
  qed
  have append: "wp append_new_field (\<lambda>k d. k = ?k \<and> ctx_inv {?k} d \<and> nf d = ?k + 1) blind_stop c"
    using assms(1) by (intro append_new_field_wp [OF inv_ctx_ok [OF assms(1)]])
      (auto simp: blind_stop_def plain_error_def)
  have "wp append_new_field (\<lambda>_. types_as {?k} tx) (\<lambda>_ _. True) c"
    using keepsD [OF keeps_append types_as_insert [OF assms(2)]] by simp
  from wp_conj [OF append this] show ?thesis
    unfolding parse_one_field_def wp_CHECK by (rule wp_mono) (auto intro: body)
qed

lemma recorded_turn:
  assumes "recorded c" and "turn c d" and "types_as {} (transaction_type c) d \<or>
     types_as {} (transaction_type d) d \<and> nf c < nf d \<and> holds_type (slot d (nf c)) (transaction_type d)"
  shows "recorded d"
  using assms unfolding recorded_def turn_def
  by (elim disjE) (metis order_less_le_trans types_as_def, metis)

lemma parse_loop_types:
  assumes "parse_loop c = Some (r, d)" and "ctx_inv {} c" and "recorded c"
  shows "case r of Inl e \<Rightarrow> blind_stop e d | Inr _ \<Rightarrow> recorded d"
  using assms
proof (induction "unat (ctx_length c) - pos c" arbitrary: c rule: less_induct)
  case less
  have le: "pos c \<le> unat (ctx_length c)" using less.prems(2) by (simp add: ctx_inv_def ctx_ok_def)
  show ?case
  proof (cases "offset c = ctx_length c")
    case True
    then show ?thesis
      using less.prems parse_loop.simps [of c] by auto
  next
    case False
    with le have lt: "\<not> offset c > ctx_length c" by (simp add: word_less_nat_alt)
    have types: "types_as {} (transaction_type c) c" using less.prems(3) by (simp add: recorded_def)
    from wp_conj [OF parse_one_field_wp [OF less.prems(2)] parse_one_field_types [OF less.prems(2) types]]
    show ?thesis
    proof (cases rule: wp_cases)
      case (1 x e)
      then have e: "turn c e" "recorded e" using recorded_turn [OF less.prems(3)] by blast+
      have "pos e \<le> unat (ctx_length e)" "ctx_length e = ctx_length c" "pos c < pos e" "ctx_inv {} e"
        using e(1) by (auto simp: turn_def ctx_inv_def ctx_ok_def)
      moreover have "parse_loop e = Some (r, d)"
        using 1(1) less.prems(1) False lt parse_loop.simps [of c] by simp
      ultimately show ?thesis using less.hyps [of e] e(2) by simp
    next
      case (2 x e)
      then have "r = Inl x" "d = e" "blind_stop x e"
        using less.prems(1) False lt parse_loop.simps [of c] by auto
      then show ?thesis by simp
    qed
  qed
qed

section \<open>The checks at the end\<close>

text \<open>What the final checks look for, in a transaction that has been read to its end.\<close>

definition not_clear :: "u16 \<Rightarrow> field_t list \<Rightarrow> bool" where
  "not_clear tx fs \<longleftrightarrow>
     \<not> is_supported_transaction_type tx \<or>
     length (filter is_top_level_flags fs) > 1 \<or>
     (\<exists>f \<in> set fs. \<exists>v. is_top_level_flags f \<and> data_u32 (fdata f) = Some v \<and> has_unknown_flags tx v) \<or>
     (\<exists>f \<in> set fs. \<not> is_field_recognized f)"

lemma invalid_not_supported: "\<not> is_supported_transaction_type TRANSACTION_INVALID"
  by (simp add: is_supported_transaction_type_def)

lemma final_checks_not_clear:
  "wp final_checks (\<lambda>_ d. d = c) (\<lambda>e d. d = c \<and>
     (e = BLIND_SIGN_REQUIRED \<longrightarrow> not_clear (transaction_type c) (used_fields (result c)))) c"
proof (cases "filter is_top_level_flags (used_fields (result c))")
  case Nil
  then have "find_top_level_flags_value c = Some (None, False)"
    by (simp add: find_top_level_flags_value_def find_flags_loop_filter)
  then show ?thesis
    using invalid_not_supported by (auto simp: final_checks_def wp_rules not_clear_def list_all_iff)
next
  case (Cons f rest)
  then have "f \<in> set (filter is_top_level_flags (used_fields (result c)))" by simp
  then have f: "f \<in> set (used_fields (result c))" "is_top_level_flags f" by simp_all
  show ?thesis
  proof (cases "data_u32 (fdata f)")
    case (Some v)
    then have "find_top_level_flags_value c = Some (Some v, rest \<noteq> [])"
      using Cons by (simp add: find_top_level_flags_value_def find_flags_loop_filter)
    then show ?thesis
      using invalid_not_supported f Some Cons
      by (auto simp: final_checks_def wp_rules not_clear_def list_all_iff)
  qed (use Cons in \<open>auto simp: find_top_level_flags_value_def find_flags_loop_filter final_checks_def
      wp_rules not_clear_def invalid_not_supported list_all_iff\<close>)
qed

lemma append_reg_key_types:
  "keeps K (CHECK append_new_field (\<lambda>n. upd_field n (\<lambda>f. f\<lparr>data_type := STI_ACCOUNT,
     fld_id := XRP_ACCOUNT_REGULAR_KEY, fdata := DZero\<rparr>)))"
  by (intro keeping keeps_upd) (simp add: type_as_other)

lemma post_process_transaction_types: "keeps {} post_process_transaction"
  unfolding post_process_transaction_def
  by (intro keeping append_reg_key_types)

text \<open>The type is among the fields that are shown.\<close>

definition type_shown :: "u16 \<Rightarrow> field_t list \<Rightarrow> bool" where
  "type_shown tx fs \<longleftrightarrow> (\<forall>f \<in> set fs. type_as tx f) \<and>
     (tx \<noteq> TRANSACTION_INVALID \<longrightarrow> (\<exists>f \<in> set fs. holds_type f tx))"

lemma recorded_shown:
  assumes "recorded c" and "ctx_ok c"
  shows "type_shown (transaction_type c) (used_fields (result c))"
proof -
  have "nf c \<le> length (res_fields (result c))" using assms(2) by (simp add: ctx_ok_def)
  note used = in_used_fields [OF this]
  have "\<exists>f \<in> set (used_fields (result c)). holds_type f (transaction_type c)"
    if "transaction_type c \<noteq> TRANSACTION_INVALID"
    using assms(1) that used unfolding recorded_def by metis
  moreover have "type_as (transaction_type c) f" if "f \<in> set (used_fields (result c))" for f
    using assms(1) that used \<open>nf c \<le> length (res_fields (result c))\<close> by (auto simp: recorded_def types_as_def)
  ultimately show ?thesis by (simp add: type_shown_def)
qed

text \<open>How the parser ends, as far as the type and blind signing go.\<close>

definition type_end :: "exc + unit \<Rightarrow> parseContext_t \<Rightarrow> bool" where
  "type_end r d \<longleftrightarrow>
     (let tx = transaction_type d; fs = used_fields (result d) in
      case r of
        Inr _ \<Rightarrow> type_shown tx fs
      | Inl e \<Rightarrow> e = BLIND_SIGN_REQUIRED \<longrightarrow>
          fs \<noteq> [] \<and> second_type d (last fs) \<or>
          offset d = ctx_length d \<and> type_shown tx fs \<and> not_clear tx fs)"

lemma finish_parse_types:
  assumes "ctx_inv {} c" and "recorded c" and "offset c = ctx_length c"
  shows "wp finish_parse (\<lambda>_. type_end (Inr ())) (\<lambda>e. type_end (Inl e)) c"
proof -
  have plain: "type_end (Inl e) d" if "plain_error e d" for e d
    using that by (simp add: type_end_def plain_error_def)
  have checks: "wp sort_result (\<lambda>_. wp final_checks (\<lambda>_. type_end (Inr ())) (\<lambda>e. type_end (Inl e)))
      (\<lambda>e. type_end (Inl e)) d" if d: "ctx_inv {} d" "recorded d" "offset d = ctx_length d" for d
  proof -
    obtain r where r: "sort_fields (result d) = Some r"
      using sort_fields_sort_key [of "result d"] d(1) by (auto simp: ctx_inv_def ctx_ok_def)
    have shown: "type_shown (transaction_type d) (used_fields r)"
      using recorded_shown [OF d(2) inv_ctx_ok [OF d(1)]] ctx_inv_sorted(2) [OF d(1) r]
      by (simp add: type_shown_def)
    have "wp final_checks (\<lambda>_. type_end (Inr ())) (\<lambda>e. type_end (Inl e)) (d\<lparr>result := r\<rparr>)"
      by (rule wp_mono [OF final_checks_not_clear]) (use shown d(3) in \<open>auto simp: type_end_def Let_def\<close>)
    with r show ?thesis by (simp add: wp_def sort_result_def)
  qed
  have types: "types_as {} (transaction_type c) c" using assms(2) by (simp add: recorded_def)
  have safe: "wp post_process_transaction
      (\<lambda>_ d. (ctx_inv {} d \<and> offset d = ctx_length d) \<and> frame (Suc (nf c)) c d) plain_error c"
    by (rule post_process_transaction_wp [OF assms(1)]) (use assms(3) in \<open>simp add: frame_def\<close>)
  have kept: "recorded d" if "ctx_inv {} d" "frame (Suc (nf c)) c d" "types_as {} (transaction_type c) d" for d
  proof -
    have "transaction_type d = transaction_type c" using that(3) by (simp add: types_as_def)
    moreover have "nf c \<le> nf d" "\<forall>i < nf c. slot d i = slot c i" using that(2) by (auto simp: frame_def)
    ultimately show ?thesis
      using that(3) assms(2) unfolding recorded_def by (metis order_less_le_trans)
  qed
  have "wp post_process_transaction
      (\<lambda>_ d. (ctx_inv {} d \<and> recorded d) \<and> offset d = ctx_length d) plain_error c"
    by (rule wp_mono [OF wp_conj [OF safe keepsD [OF post_process_transaction_types types]]])
      (auto intro: kept)
  then show ?thesis
    unfolding finish_parse_def wp_CHECK wp_gets
    by (rule wp_mono) (auto simp: wp_rules intro: checks plain)
qed

lemma parse_tx_type_end:
  assumes "unat len \<le> length bytes" and "unat len \<le> MAX_LEN"
    and "parse_tx (init_context bytes len) = Some (r, d)"
  shows "type_end r d"
proof -
  let ?c = "(init_context bytes len)\<lparr>transaction_type := TRANSACTION_INVALID, has_empty_pub_key := False,
    ctx_object_depth := 0\<rparr>"
  have inv: "ctx_inv {} ?c"
    using init_context_inv [OF assms(1,2)] by (simp add: ctx_inv_def ctx_ok_def)
  have rec: "recorded ?c"
    by (simp add: recorded_def types_as_def init_context_def zero_result_def zero_field_def type_as_other)
  obtain r' e where l: "parse_loop ?c = Some (r', e)" and ends: "ends_well ?c r' e"
    using parse_loop_ends [OF inv] by blast
  note loop = parse_loop_types [OF l inv rec]
  show ?thesis
  proof (cases r')
    case (Inl x)
    then have r: "r = Inl x" "d = e"
      using assms(3) l by (simp_all add: parse_tx_def parse_tx_internal_def)
    have "used_fields (result e) \<noteq> [] \<and> last (used_fields (result e)) = slot e (nf e - 1)"
      if "ctx_inv {} e" "0 < nf e"
    proof -
      have "nf e \<le> length (res_fields (result e))" using that(1) by (simp add: ctx_inv_def ctx_ok_def)
      then have n: "length (used_fields (result e)) = nf e" by (simp add: used_fields_def)
      then have "used_fields (result e) \<noteq> []" using that(2) by auto
      with last_conv_nth [OF this] n that(2) show ?thesis by (simp add: used_fields_def)
    qed
    then show ?thesis
      using loop ends Inl r by (auto simp: type_end_def blind_stop_def ends_well_def field_error_def Let_def)
  next
    case (Inr x)
    then have d: "ctx_inv {} e" "recorded e" "offset e = ctx_length e" "finish_parse e = (r, d)"
      using assms(3) l ends loop by (simp_all add: parse_tx_def parse_tx_internal_def ends_well_def)
    from finish_parse_types [OF d(1-3)] d(4) show ?thesis
      by (cases r) (simp_all add: wp_def)
  qed
qed

section \<open>What the review and blind signing rest on\<close>

text \<open>
  C14. The type that counts is the type that is shown. A transaction the parser clears for signing
  shows a TransactionType field with the very type its flags were checked for; every other
  TransactionType it shows holds 0xFFFF, which is no type.
\<close>

theorem recorded_type_is_shown:
  assumes "unat len \<le> length bytes" and "unat len \<le> MAX_LEN"
    and "parse_tx (init_context bytes len) = Some (Inr (), d)"
  shows "(\<exists>f \<in> set (used_fields (result d)).
       is_transaction_type_field f \<and> fdata f = DU16 (transaction_type d)) \<and>
     (\<forall>f \<in> set (used_fields (result d)). is_transaction_type_field f \<longrightarrow>
       fdata f = DU16 (transaction_type d) \<or> fdata f = DU16 TRANSACTION_INVALID)"
proof -
  have "transaction_type d \<noteq> TRANSACTION_INVALID"
    using parse_tx_ends [OF init_context_inv [OF assms(1,2)]] assms(3)
    by (auto simp: clear_signable_def Let_def)
  with parse_tx_type_end [OF assms] show ?thesis
    by (auto simp: type_end_def type_shown_def type_as_def Let_def)
qed

theorem recorded_type_is_shown_witness:
  "\<exists>d f. parse_tx (init_context payment_example 110) = Some (Inr (), d) \<and> f \<in> set (used_fields (result d)) \<and>
     is_transaction_type_field f \<and> fdata f = DU16 (transaction_type d)"
proof -
  obtain d where d: "parse_tx (init_context payment_example 110) = Some (Inr (), d)"
    using payment_example_parses by blast
  have "unat (110 :: u32) \<le> length payment_example" "unat (110 :: u32) \<le> MAX_LEN"
    by (simp_all add: payment_example_def MAX_LEN_def)
  from recorded_type_is_shown [OF this d] d show ?thesis by blast
qed

text \<open>
  C15. Blind signing has a cause. When the parser asks for it, it has stopped at a TransactionType
  that is nested or not the first, which is the last field of the table; or the transaction has
  been read to its last byte, a type that was recorded is among the fields on display, and that type
  is not supported, or there are two top-level Flags fields or an unknown bit in one, or a field
  without a name.
\<close>

theorem blind_signing_has_a_cause:
  assumes "unat len \<le> length bytes" and "unat len \<le> MAX_LEN"
    and "parse_tx (init_context bytes len) = Some (Inl BLIND_SIGN_REQUIRED, d)"
  defines "fs \<equiv> used_fields (result d)" and "tx \<equiv> transaction_type d"
  shows "(fs \<noteq> [] \<and> is_transaction_type_field (last fs) \<and>
       (ai_type (array_info (last fs)) \<noteq> ARRAY_NONE \<or> ctx_object_depth d \<noteq> 0 \<or> tx \<noteq> TRANSACTION_INVALID)) \<or>
     (offset d = ctx_length d \<and>
       (tx \<noteq> TRANSACTION_INVALID \<longrightarrow> (\<exists>f \<in> set fs. is_transaction_type_field f \<and> fdata f = DU16 tx)) \<and>
       (\<not> is_supported_transaction_type tx \<or>
        length (filter is_top_level_flags fs) > 1 \<or>
        (\<exists>f \<in> set fs. \<exists>v. is_top_level_flags f \<and> data_u32 (fdata f) = Some v \<and> has_unknown_flags tx v) \<or>
        (\<exists>f \<in> set fs. \<not> is_field_recognized f)))"
  using parse_tx_type_end [OF assms(1-3)]
  by (auto simp: type_end_def Let_def second_type_def not_clear_def type_shown_def fs_def tx_def)

lemma parsed_blindE:
  assumes "case x of Some (Inl e, d) \<Rightarrow> e = BLIND_SIGN_REQUIRED \<and> P d | _ \<Rightarrow> False"
  shows "\<exists>d. x = Some (Inl BLIND_SIGN_REQUIRED, d) \<and> P d"
proof (cases x)
  case (Some p)
  then show ?thesis using assms by (cases p; cases "fst p") simp_all
qed (use assms in simp)

theorem blind_signing_has_a_cause_witness:
  "(\<exists>d. parse_tx (init_context [0x12, 0, 0, 0x12, 0, 0, 0x24] 7) = Some (Inl BLIND_SIGN_REQUIRED, d) \<and>
     is_transaction_type_field (last (used_fields (result d)))) \<and>
   (\<exists>d. parse_tx (init_context (payment_example[2 := 0x7F]) 110) = Some (Inl BLIND_SIGN_REQUIRED, d) \<and>
     (\<exists>f \<in> set (used_fields (result d)). is_transaction_type_field f \<and> fdata f = DU16 0x7F))"
proof (intro conjI)
  let ?a = "[0x12, 0, 0, 0x12, 0, 0, 0x24] :: u8 list" and ?b = "payment_example[2 := 0x7F]"
  have "case parse_tx (init_context ?a 7) of
      Some (Inl e, d) \<Rightarrow> e = BLIND_SIGN_REQUIRED \<and> offset d \<noteq> ctx_length d | _ \<Rightarrow> False"
    by code_simp
  from parsed_blindE [OF this]
  obtain d where d: "parse_tx (init_context ?a 7) = Some (Inl BLIND_SIGN_REQUIRED, d)"
    "offset d \<noteq> ctx_length d" by blast
  have "unat (7 :: u32) \<le> length ?a" "unat (7 :: u32) \<le> MAX_LEN" by (simp_all add: MAX_LEN_def)
  from blind_signing_has_a_cause [OF this d(1)] d
  show "\<exists>d. parse_tx (init_context ?a 7) = Some (Inl BLIND_SIGN_REQUIRED, d) \<and>
      is_transaction_type_field (last (used_fields (result d)))" by blast
  have "case parse_tx (init_context ?b 110) of
      Some (Inl e, d) \<Rightarrow> e = BLIND_SIGN_REQUIRED \<and> transaction_type d = 0x7F \<and>
        \<not> is_transaction_type_field (last (used_fields (result d))) | _ \<Rightarrow> False"
    by code_simp
  from parsed_blindE [OF this]
  obtain e where e: "parse_tx (init_context ?b 110) = Some (Inl BLIND_SIGN_REQUIRED, e)"
    "transaction_type e = 0x7F" "\<not> is_transaction_type_field (last (used_fields (result e)))" by blast
  have "unat (110 :: u32) \<le> length ?b" "unat (110 :: u32) \<le> MAX_LEN"
    by (simp_all add: payment_example_def MAX_LEN_def)
  from blind_signing_has_a_cause [OF this e(1)] e(2,3)
  have "\<exists>f \<in> set (used_fields (result e)). is_transaction_type_field f \<and> fdata f = DU16 0x7F" by auto
  with e(1) show "\<exists>d. parse_tx (init_context ?b 110) = Some (Inl BLIND_SIGN_REQUIRED, d) \<and>
      (\<exists>f \<in> set (used_fields (result d)). is_transaction_type_field f \<and> fdata f = DU16 0x7F)" by blast
qed

end
