(* ===== verification/Swap_Check.thy ===== *)
theory Swap_Check
  imports Session_Safety Blind_Causes
begin

text \<open>
  What the check for a swap accepts: exactly the payment the exchange app announced.
\<close>

section \<open>The agreement\<close>

text \<open>
  The six fields, in the order of the review: a payment, any account, the announced tag as
  decimal text, the announced amount and fee as positive XRP amounts, and an account whose
  address is the announced one.
\<close>

definition has_code :: "field_t \<Rightarrow> u8 \<Rightarrow> u8 \<Rightarrow> bool" where
  "has_code f t i \<longleftrightarrow> data_type f = t \<and> fld_id f = i"

definition xrp_amount_is :: "u8 list \<Rightarrow> field_t \<Rightarrow> u64 \<Rightarrow> bool" where
  "xrp_amount_is bytes f v \<longleftrightarrow> fld_length f = 8 \<and>
     (\<exists>p. fdata f = DPtr p \<and> p + 8 \<le> length bytes \<and> be_val (take 8 (drop p bytes)) = 2 ^ 62 + unat v)"

definition account_is :: "'key sdk \<Rightarrow> u8 list \<Rightarrow> field_t \<Rightarrow> string \<Rightarrow> bool" where
  "account_is sdk bytes f addr \<longleftrightarrow>
     (\<exists>p. fdata f = DPtr p \<and> p + 20 \<le> length bytes \<and> address_of sdk (take 20 (drop p bytes)) = addr)"

definition swap_agreed :: "'key sdk \<Rightarrow> swapStrings_t \<Rightarrow> parseContext_t \<Rightarrow> bool" where
  "swap_agreed sdk w d \<longleftrightarrow>
     (\<exists>f0 f1 f2 f3 f4 f5. used_fields (result d) = [f0, f1, f2, f3, f4, f5] \<and>
        has_code f0 STI_UINT16 XRP_UINT16_TRANSACTION_TYPE \<and> fdata f0 = DU16 TRANSACTION_PAYMENT \<and>
        has_code f1 STI_ACCOUNT XRP_ACCOUNT_ACCOUNT \<and>
        has_code f2 STI_UINT32 0x0E \<and>
        (\<exists>tag. fdata f2 = DU32 tag \<and> cstr (destination_tag w) = print_dec (unat tag)) \<and>
        has_code f3 STI_AMOUNT XRP_UINT64_AMOUNT \<and> xrp_amount_is (data d) f3 (sw_amount w) \<and>
        has_code f4 STI_AMOUNT XRP_UINT64_FEE \<and> xrp_amount_is (data d) f4 (sw_fee w) \<and>
        has_code f5 STI_ACCOUNT XRP_ACCOUNT_DESTINATION \<and> account_is sdk (data d) f5 (cstr (sw_address w)))"

text \<open>The announced amounts leave the bit free that marks a positive XRP amount.\<close>

definition amounts_positive :: "swapStrings_t \<Rightarrow> bool" where
  "amounts_positive w \<longleftrightarrow> sw_amount w AND XRP_AMOUNT_BIT = 0 \<and> sw_fee w AND XRP_AMOUNT_BIT = 0"

text \<open>
  The parser never asks for blind signing of an agreed payment: none of the causes fits its six
  fields. So the check for a swap, which does not look at the parser's answer, needs not look.
\<close>

lemma agreed_fields:
  assumes "swap_agreed sdk w d"
  defines "fs \<equiv> used_fields (result d)"
  shows "\<not> is_transaction_type_field (last fs)" and "list_all is_field_recognized fs"
    and "filter is_top_level_flags fs = []"
    and "\<exists>f \<in> set fs. holds_type f TRANSACTION_PAYMENT"
  using assms(1)
  by (auto simp: fs_def swap_agreed_def has_code_def is_transaction_type_field_def is_top_level_flags_def
      is_field_recognized_def resolve_field_name_switch_def uint16_names_def uint32_names_def
      amount_names_def account_names_def)

lemma agreed_is_clear:
  assumes "unat len \<le> length bytes" and "unat len \<le> MAX_LEN"
    and "parse_tx (init_context bytes len) = Some (if b then Inl BLIND_SIGN_REQUIRED else Inr (), d)"
    and "swap_agreed sdk w d"
  shows "\<not> b"
proof
  assume b
  let ?fs = "used_fields (result d)" and ?tx = "transaction_type d"
  note agreed = agreed_fields [OF assms(4)]
  have "type_end (Inl BLIND_SIGN_REQUIRED) d"
    using parse_tx_type_end [OF assms(1-3)] \<open>b\<close> by simp
  with agreed(1) have shown: "type_shown ?tx ?fs" and causes: "not_clear ?tx ?fs"
    by (auto simp: type_end_def second_type_def Let_def)
  from shown agreed(4) have "?tx = TRANSACTION_PAYMENT"
    by (auto simp: type_shown_def type_as_def)
  then have "is_supported_transaction_type ?tx" by (simp add: is_supported_transaction_type_def)
  moreover have "\<forall>f \<in> set ?fs. \<not> is_top_level_flags f"
    using agreed(3) by (simp add: filter_empty_conv)
  ultimately show False
    using causes agreed(2,3) by (simp add: not_clear_def list_all_iff)
qed

section \<open>The comparisons\<close>

lemma check_code: "check_field bytes f t i False v = Some (has_code f t i)"
  by (simp add: check_field_def has_code_def)

lemma check_u16:
  "field_shape lim f \<Longrightarrow> check_field bytes f STI_UINT16 i True v =
     Some (has_code f STI_UINT16 i \<and> fdata f = DU16 (ucast v))"
  by (auto simp: check_field_def has_code_def field_shape_def split: field_data.splits)

lemma u64_be_val:
  assumes "length bs = 8"
  shows "(of_nat (be_val bs) :: u64) = v \<longleftrightarrow> be_val bs = unat v"
proof -
  have "be_val bs < 2 ^ LENGTH(64)" using be_val_less [of bs] assms by simp
  then have "unat (of_nat (be_val bs) :: u64) = be_val bs" by (rule unat_of_nat_eq)
  then show ?thesis by (metis unat_eqI)
qed

lemma amount_bit:
  assumes "v AND XRP_AMOUNT_BIT = (0 :: u64)"
  shows "unat (v OR XRP_AMOUNT_BIT) = 2 ^ 62 + unat v"
proof -
  have x: "unat XRP_AMOUNT_BIT = 2 ^ 62" by simp
  have "unat v AND 2 ^ 62 = 0" using arg_cong [OF assms, of unat] by (simp add: unsigned_and_eq)
  then have "unat v OR 2 ^ 62 = unat v + 2 ^ 62"
    by (intro disjunctive_add [symmetric]) (metis bit_and_iff bit_0_eq bot_apply bot_bool_def)
  then show ?thesis unfolding unsigned_or_eq x by simp
qed

lemma check_amount:
  assumes "field_shape (length bytes) f" and "w AND XRP_AMOUNT_BIT = 0"
  shows "check_field bytes f STI_AMOUNT i True (w OR XRP_AMOUNT_BIT) =
     Some (has_code f STI_AMOUNT i \<and> xrp_amount_is bytes f w)"
proof (cases "has_code f STI_AMOUNT i \<and> fld_length f = 8")
  case True
  then obtain p where p: "fdata f = DPtr p" "p + 8 \<le> length bytes"
    using assms(1) by (auto simp: field_shape_def has_code_def spans_def split: field_data.splits)
  have "read_unsigned64 (take 8 (drop p bytes)) = Some (of_nat (be_val (take 8 (drop p bytes))))"
    using read_unsigned64_be [of "take 8 (drop p bytes)"] p by simp
  moreover have "((of_nat (be_val (take 8 (drop p bytes))) :: u64) = w OR XRP_AMOUNT_BIT) =
      (be_val (take 8 (drop p bytes)) = 2 ^ 62 + unat w)"
    using p u64_be_val [of "take 8 (drop p bytes)" "w OR XRP_AMOUNT_BIT"]
    by (simp only: amount_bit [OF assms(2)] length_take length_drop)
  ultimately show ?thesis
    using True p by (simp add: check_field_def has_code_def xrp_amount_is_def peek_def)
next
  case False
  then show ?thesis by (auto simp: check_field_def has_code_def xrp_amount_is_def)
qed

lemma check_destination:
  assumes "sdk_contract sdk" and "field_shape (length bytes) f" and "data_type f = STI_ACCOUNT"
    and "length expected = 41" and "NUL \<in> set expected"
  shows "check_destination sdk bytes f expected = Some (account_is sdk bytes f (cstr expected))"
proof (cases "fdata f = DZero")
  case True
  then show ?thesis
    by (simp add: check_destination_def xrp_public_key_to_encoded_base58_def account_is_def)
next
  case False
  then obtain p where p: "fdata f = DPtr p" "p + 20 \<le> length bytes"
    using assms(2,3) by (auto simp: field_shape_def spans_def split: field_data.splits)
  let ?a = "address_of sdk (take 20 (drop p bytes))"
  have acc: "length (take 20 (drop p bytes)) = 20" using p by simp
  note enc = encoded_account [OF assms(1) acc, of "replicate XRP_ADDRESS_SIZE NUL"]
  have sl: "strnlen expected 41 = length (cstr expected)" using assms(4) by (simp add: strnlen_def)
  have cl: "length (cstr expected) \<le> length expected" by (simp add: cstr_def length_takeWhile_le)
  have ct: "take (length (cstr expected)) expected = cstr expected"
    unfolding cstr_def by (rule takeWhile_eq_take [symmetric])
  have eq: "(?a = take (length ?a) expected) = (?a = cstr expected)" if "length ?a = length (cstr expected)"
    using ct that by simp
  show ?thesis
    using p enc address_nonempty [of sdk "take 20 (drop p bytes)"] sl cl eq ct
    by (auto simp: check_destination_def account_is_def Let_def peek_def)
qed

lemma tag_digits: "length (print_dec (unat (tag :: u32))) \<le> 10"
proof (rule length_print_dec)
  show "unat tag < 10 ^ 10" using unat_u32_less [of tag] by (rule less_le_trans) simp
qed simp

lemma tag_text:
  assumes "length dest = 11" and "NUL \<in> set dest"
  shows "strncmp_equal (print_dec (unat (tag :: u32)) @ NUL # rest) dest 11 \<longleftrightarrow>
     cstr dest = print_dec (unat tag)"
proof -
  have "length (print_dec (unat tag)) \<le> 10" by (rule tag_digits)
  moreover have "length (cstr dest) < 11"
  proof -
    have "cstr dest \<noteq> dest" using assms(2) NUL_notin_cstr [of dest] by metis
    then show ?thesis using assms(1) length_takeWhile_le [of "\<lambda>c. c \<noteq> NUL" dest]
      takeWhile_eq_take [of "\<lambda>c. c \<noteq> NUL" dest] unfolding cstr_def by (metis le_neq_implies_less take_all_iff)
  qed
  ultimately show ?thesis by (auto simp: strncmp_equal_def)
qed

lemma snprintf_tag:
  assumes "length buf = 41"
  shows "snprintf buf 0 41 (print_dec (unat (tag :: u32))) =
     Some (print_dec (unat tag) @ NUL # drop (Suc (length (print_dec (unat tag)))) buf)"
proof -
  have "length (print_dec (unat tag)) \<le> 10" by (rule tag_digits)
  then show ?thesis using assms by (simp add: snprintf_def poke_def)
qed

section \<open>The check\<close>

lemma wp_provided: "wp (provided (Some v) m) Q E s = (if v then wp m Q E s else Q False s)"
  by (simp add: provided_def wp_rules)

definition after_check :: "'key sdk \<Rightarrow> app \<Rightarrow> bool \<Rightarrow> app \<Rightarrow> bool" where
  "after_check sdk s ok t \<longleftrightarrow>
     (\<exists>tmp. t = s\<lparr>approval_strings := (approval_strings s)\<lparr>sw_tmp := tmp\<rparr>\<rparr> \<and> length tmp = length (sw_tmp (approval_strings s))) \<and>
     (ok \<longleftrightarrow> swap_agreed sdk (approval_strings s) (parse_context s) \<and> amounts_positive (approval_strings s))"

lemma after_check_False:
  "\<not> swap_agreed sdk (approval_strings s) (parse_context s) \<Longrightarrow> after_check sdk s False s"
  "\<not> (swap_agreed sdk (approval_strings s) (parse_context s) \<and> amounts_positive (approval_strings s)) \<Longrightarrow> length tmp = length (sw_tmp (approval_strings s)) \<Longrightarrow>
   after_check sdk s False (s\<lparr>approval_strings := (approval_strings s)\<lparr>sw_tmp := tmp\<rparr>\<rparr>)"
  by (auto simp: after_check_def) (rule exI [of _ "sw_tmp (approval_strings s)"], simp)

lemma take_six: "6 \<le> length xs \<Longrightarrow> take 6 xs = [xs ! 0, xs ! 1, xs ! 2, xs ! 3, xs ! 4, xs ! 5]"
  by (auto simp: Suc_le_length_iff eval_nat_numeral)

lemma wp_check_swap:
  assumes "sdk_contract sdk" and "G_called_from_swap s" and "swap_ok (approval_strings s)"
    and "ctx_inv {} (parse_context s)"
  shows "wp (check_swap_conditions_and_sign sdk) (after_check sdk s) (\<lambda>e t. False) s"
proof (cases "num_fields (result (parse_context s)) = 6")
  case False
  have "length (res_fields (result (parse_context s))) = 60" using assms(4) by (simp add: ctx_inv_def ctx_ok_def)
  moreover have "unat (num_fields (result (parse_context s))) \<noteq> 6"
    using False using unat_eqI [of "num_fields (result (parse_context s))" 6] by auto
  ultimately have "length (used_fields (result (parse_context s))) \<noteq> 6" unfolding used_fields_def length_take by linarith
  then have "\<not> swap_agreed sdk (approval_strings s) (parse_context s)" by (auto simp: swap_agreed_def)
  then show ?thesis using assms(2) False
    by (simp add: check_swap_conditions_and_sign_def wp_rules Let_def after_check_False)
next
  case True
  let ?d = "parse_context s" and ?w = "approval_strings s"
  let ?f = "\<lambda>i. res_fields (result ?d) ! i"
  have len: "length (res_fields (result ?d)) = 60" using assms(4) by (simp add: ctx_inv_def ctx_ok_def)
  have lim: "pos ?d \<le> length (data ?d)" using assms(4) by (auto simp: ctx_inv_def ctx_ok_def)
  have shape: "field_shape (length (data ?d)) (?f i)" if "i < 6" for i
  proof -
    have "field_shape (pos ?d) (?f i)" using assms(4) that True by (simp add: ctx_inv_def)
    then show ?thesis using lim by (rule field_shape_mono)
  qed
  have used: "used_fields (result ?d) = [?f 0, ?f 1, ?f 2, ?f 3, ?f 4, ?f 5]"
    using True len by (simp add: used_fields_def take_six)
  have sw: "length (sw_address ?w) = 41" "NUL \<in> set (sw_address ?w)" "length (destination_tag ?w) = 11"
    "NUL \<in> set (destination_tag ?w)" "length (sw_tmp ?w) = 41"
    using assms(3) by (auto simp: swap_ok_def)
  have "\<exists>tag. has_code (?f 2) STI_UINT32 0x0E \<longrightarrow> fdata (?f 2) = DU32 tag"
    using shape [of 2] by (auto simp: field_shape_def has_code_def Let_def split: field_data.splits)
  then obtain tag where tag: "has_code (?f 2) STI_UINT32 0x0E \<Longrightarrow> fdata (?f 2) = DU32 tag" by blast
  have dst: "has_code (?f 5) STI_ACCOUNT XRP_ACCOUNT_DESTINATION \<Longrightarrow>
      check_destination sdk (data ?d) (?f 5) (sw_address ?w) =
        Some (account_is sdk (data ?d) (?f 5) (cstr (sw_address ?w)))"
    using check_destination [OF assms(1) shape [of 5] _ sw(1,2)] by (simp add: has_code_def)
  note checks = check_u16 [OF shape [of 0]] check_code
  let ?head = "has_code (?f 0) STI_UINT16 XRP_UINT16_TRANSACTION_TYPE \<and> fdata (?f 0) = DU16 TRANSACTION_PAYMENT \<and>
    has_code (?f 1) STI_ACCOUNT XRP_ACCOUNT_ACCOUNT \<and> has_code (?f 2) STI_UINT32 0x0E"
  let ?tmp = "print_dec (unat tag) @ NUL # drop (Suc (length (print_dec (unat tag)))) (sw_tmp ?w)"
  let ?t = "s\<lparr>approval_strings := ?w\<lparr>sw_tmp := ?tmp\<rparr>\<rparr>"
  have tmp: "length ?tmp = length (sw_tmp ?w)" using sw(5) tag_digits [of tag] by simp
  have yes: "after_check sdk s b ?t" if "b \<longleftrightarrow> swap_agreed sdk ?w ?d \<and> amounts_positive ?w" for b
    using that tmp by (auto simp: after_check_def)
  show ?thesis
  proof (cases ?head)
    case False
    then have "\<not> swap_agreed sdk ?w ?d" by (auto simp: swap_agreed_def used)
    with False show ?thesis
      using assms(2) True len
      by (auto simp: check_swap_conditions_and_sign_def wp_CHECK wp_gets Let_def wp_provided checks
          after_check_False wp_return)
  next
    case head: True
    note start = checks [of "data ?d"] tag
    have "wp (check_swap_conditions_and_sign sdk) (after_check sdk s) (\<lambda>e t. False) s =
       wp (if \<not> strncmp_equal ?tmp (destination_tag ?w) 11 then return False
           else if sw_amount ?w AND XRP_AMOUNT_BIT \<noteq> 0 then return False
           else
             provided (check_field (data ?d) (?f 3) STI_AMOUNT XRP_UINT64_AMOUNT True
                         (sw_amount ?w OR XRP_AMOUNT_BIT)) (
             if sw_fee ?w AND XRP_AMOUNT_BIT \<noteq> 0 then return False
             else
               provided (check_field (data ?d) (?f 4) STI_AMOUNT XRP_UINT64_FEE True
                           (sw_fee ?w OR XRP_AMOUNT_BIT)) (
               provided (check_field (data ?d) (?f 5) STI_ACCOUNT XRP_ACCOUNT_DESTINATION False 0) (
               in_bounds (check_destination sdk (data ?d) (?f 5) (sw_address ?w))))))
         (after_check sdk s) (\<lambda>e t. False) ?t"
      using head assms(2) True len tag snprintf_tag [OF sw(5)]
      by (simp add: check_swap_conditions_and_sign_def wp_CHECK wp_gets wp_modify Let_def wp_provided checks
          wp_in_bounds)
    also have "\<dots>"
      using check_amount [OF shape [of 3]] check_amount [OF shape [of 4]] head tag dst
      by (auto simp: wp_provided check_code wp_return wp_in_bounds tag_text [OF sw(3,4)]
          intro!: yes simp: swap_agreed_def used amounts_positive_def)
    finally show ?thesis .
  qed
qed

end
