(* ===== verification/Session_Steps.thy ===== *)
theory Session_Steps
  imports Swap_Check
begin

text \<open>
  Every command and every action of the user keeps the invariant of the session, and what each
  may add to the trace. The lemmas follow the handlers of \<open>Commands\<close> from the inside out.
\<close>

section \<open>Signatures in the trace\<close>

fun is_signature :: "io \<Rightarrow> bool" where
  "is_signature (Signature _ _ _) = True"
| "is_signature _ = False"

definition signatures :: "app \<Rightarrow> io list" where
  "signatures s = filter is_signature (trace s)"

text \<open>A step that signs nothing and leaves the setting and the announced swap as they are.\<close>

definition quiet :: "app \<Rightarrow> app \<Rightarrow> bool" where
  "quiet s t \<longleftrightarrow> signatures t = signatures s \<and> G_called_from_swap t = G_called_from_swap s \<and>
     allow_blind_sign t = allow_blind_sign s \<and>
     (G_called_from_swap s \<longrightarrow> approval_strings t = approval_strings s)"

lemma quiet_refl [simp]: "quiet s s"
  by (simp add: quiet_def)

lemma quiet_trans: "quiet s t \<Longrightarrow> quiet t u \<Longrightarrow> quiet s u"
  by (simp add: quiet_def)

lemma signatures_simps [simp]:
  "signatures (s\<lparr>trace := trace u @ es\<rparr>) = signatures u @ filter is_signature es"
  "signatures (s\<lparr>trace := trace u\<rparr>) = signatures u"
  "signatures (s\<lparr>sign_state := v1\<rparr>) = signatures s" "signatures (s\<lparr>parse_context := v2\<rparr>) = signatures s"
  "signatures (s\<lparr>parse_data := v3\<rparr>) = signatures s" "signatures (s\<lparr>tmp_ctx := v4\<rparr>) = signatures s"
  "signatures (s\<lparr>approval_strings := v5\<rparr>) = signatures s" "signatures (s\<lparr>last_ins := v6\<rparr>) = signatures s"
  "signatures (s\<lparr>pubkey_confirmation_pending := v7\<rparr>) = signatures s"
  "signatures (s\<lparr>pending_pubkey_ctx := v8\<rparr>) = signatures s"
  "signatures (s\<lparr>allow_blind_sign := v9\<rparr>) = signatures s" "signatures (s\<lparr>switch_on := v10\<rparr>) = signatures s"
  "signatures (s\<lparr>screen := v11\<rparr>) = signatures s" "signatures (set_tmp_ctx f s) = signatures s"
  "signatures (reset_app s) = signatures s" "signatures (idle_app d s) = signatures s"
  by (simp_all add: signatures_def set_tmp_ctx_def)

text \<open>
  How a run for a swap ends: nothing signed, or the one signature, of the bytes of a transaction
  that needs no blind signing and whose fields are the agreed ones.
\<close>

definition swap_signature :: "'key sdk \<Rightarrow> swapStrings_t \<Rightarrow> io \<Rightarrow> bool" where
  "swap_signature sdk w sig \<longleftrightarrow>
     (\<exists>curve path bytes suffix d.
        sig = Signature curve path (prefix_of (has_empty_pub_key d) @ bytes @ suffix) \<and>
        (suffix \<noteq> [] \<longrightarrow> has_empty_pub_key d) \<and>
        parse_tx (init_context bytes (of_nat (length bytes))) = Some (Inr (), d) \<and>
        swap_agreed sdk w d)"

definition swap_exit :: "'key sdk \<Rightarrow> app \<Rightarrow> app \<Rightarrow> bool" where
  "swap_exit sdk s t \<longleftrightarrow> signatures t = signatures s \<or>
     (\<exists>sig. signatures t = signatures s @ [sig] \<and> swap_signature sdk (approval_strings s) sig)"

text \<open>What a command may do: keep the invariant quietly, or, for a swap, leave the app.\<close>

abbreviation command_post :: "app \<Rightarrow> app \<Rightarrow> bool" where
  "command_post s t \<equiv> app_inv t \<and> quiet s t"

definition command_exit :: "'key sdk \<Rightarrow> app \<Rightarrow> stop \<Rightarrow> app \<Rightarrow> bool" where
  "command_exit sdk s e t \<longleftrightarrow> e = Exited \<and> G_called_from_swap s \<and> swap_exit sdk s t"

lemma command_trans: "quiet s t \<Longrightarrow> command_exit sdk t e u \<Longrightarrow> command_exit sdk s e u"
  by (auto simp: quiet_def command_exit_def swap_exit_def)

lemma wp_after:
  assumes "quiet s t" and "wp m (\<lambda>_. command_post t) (command_exit sdk t) t"
  shows "wp m (\<lambda>_. command_post s) (command_exit sdk s) t"
  using assms(2) by (rule wp_mono) (use assms(1) in \<open>auto intro: quiet_trans command_trans\<close>)

section \<open>A presented transaction\<close>

lemma length_received:
  "buffers_ok s \<Longrightarrow> prefix_length + unat (ctx_length (parse_context s)) \<le> MAX_RAW_TX \<Longrightarrow>
   length (received s) = unat (ctx_length (parse_context s))"
  by (simp add: received_def buffers_ok_def)

lemma presented_parse:
  assumes "buffers_ok s" and "presented b s"
  shows "unat (ctx_length (parse_context s)) \<le> length (received s)"
    and "unat (ctx_length (parse_context s)) \<le> MAX_LEN"
    and "parse_tx (init_context (received s) (ctx_length (parse_context s))) =
      Some (if b then Inl BLIND_SIGN_REQUIRED else Inr (), parse_context s)"
proof -
  have l: "prefix_length + unat (ctx_length (parse_context s)) \<le> MAX_RAW_TX"
    using assms(2) by (auto simp: presented_def Let_def)
  then show "unat (ctx_length (parse_context s)) \<le> length (received s)"
    and "unat (ctx_length (parse_context s)) \<le> MAX_LEN"
    using length_received [OF assms(1) l] by (simp_all add: MAX_LEN_def)
  show "parse_tx (init_context (received s) (ctx_length (parse_context s))) =
      Some (if b then Inl BLIND_SIGN_REQUIRED else Inr (), parse_context s)"
    using assms(2) by (auto simp: presented_def Let_def)
qed

lemma presented_ctx_inv:
  assumes "buffers_ok s" and "presented b s"
  shows "ctx_inv {} (parse_context s)"
proof -
  from parse_tx_ends [OF init_context_inv [OF presented_parse(1,2) [OF assms]]] presented_parse(3) [OF assms]
  show ?thesis
    by (auto simp: ends_well_def field_error_def split: if_splits sum.splits)
qed

lemma presented_cong:
  "parse_context t = parse_context s \<Longrightarrow> tmp_ctx t = tmp_ctx s \<Longrightarrow> parse_data t = parse_data s \<Longrightarrow>
   presented b t = presented b s"
  by (simp add: presented_def received_def)

lemma signature_cong:
  "parse_context t = parse_context s \<Longrightarrow> tmp_ctx t = tmp_ctx s \<Longrightarrow> signature_of sdk t = signature_of sdk s"
  by (simp add: received_def signature_of_def signed_bytes_def Let_def)

lemma wp_review_swap:
  assumes "sdk_contract sdk" and "buffers_ok s" and "presented b s" and "sign_state s = PENDING_REVIEW"
    and "G_called_from_swap s"
  shows "wp (review_transaction sdk b) (\<lambda>_ _. False) (command_exit sdk s) s"
proof -
  have sw: "swap_ok (approval_strings s)" using assms(2) by (simp add: buffers_ok_def)
  have sig: "swap_signature sdk (approval_strings s) (signature_of sdk s)"
    if "swap_agreed sdk (approval_strings s) (parse_context s)"
  proof -
    have l: "prefix_length + unat (ctx_length (parse_context s)) \<le> MAX_RAW_TX"
      using assms(3) by (auto simp: presented_def Let_def)
    have "of_nat (length (received s)) = ctx_length (parse_context s)"
      using length_received [OF assms(2) l] by simp
    then have "parse_tx (init_context (received s) (of_nat (length (received s)))) =
        Some (if b then Inl BLIND_SIGN_REQUIRED else Inr (), parse_context s)"
      using assms(3) by (simp add: presented_def Let_def)
    moreover have "\<not> b"
      using agreed_is_clear [OF _ _ _ that] presented_parse [OF assms(2,3)] by blast
    ultimately show ?thesis
      using that unfolding swap_signature_def signature_of_def signed_bytes_def Let_def
      by (intro exI conjI) (rule refl, auto)
  qed
  have "wp (check_swap_conditions_and_sign sdk) (\<lambda>ok. wp
      (if ok then CHECK (sign_transaction sdk) (\<lambda>_. finalize_exchange_sign_transaction True)
       else CHECK reject_transaction (\<lambda>_. finalize_exchange_sign_transaction False))
      (\<lambda>_ _. False) (command_exit sdk s)) (command_exit sdk s) s"
  proof (rule wp_mono [OF wp_check_swap [OF assms(1,5) sw presented_ctx_inv [OF assms(2,3)]]])
    fix ok t
    assume after: "after_check sdk s ok t"
    then obtain tmp where t: "t = s\<lparr>approval_strings := (approval_strings s)\<lparr>sw_tmp := tmp\<rparr>\<rparr>"
      and tmp: "length tmp = length (sw_tmp (approval_strings s))" by (auto simp: after_check_def)
    have st: "presented b t" "signature_of sdk t = signature_of sdk s" "buffers_ok t"
      "sign_state t = PENDING_REVIEW" "G_called_from_swap t" "signatures t = signatures s"
      using presented_cong [of t s b] signature_cong [of t s sdk] assms tmp by (auto simp: t buffers_ok_def swap_ok_def)
    show "wp (if ok then CHECK (sign_transaction sdk) (\<lambda>_. finalize_exchange_sign_transaction True)
       else CHECK reject_transaction (\<lambda>_. finalize_exchange_sign_transaction False))
      (\<lambda>_ _. False) (command_exit sdk s) t"
    proof (cases ok)
      case True
      then have agreed: "swap_signature sdk (approval_strings s) (signature_of sdk s)"
        using after sig by (simp add: after_check_def)
      have "wp (sign_transaction sdk) (\<lambda>_. wp (finalize_exchange_sign_transaction True) (\<lambda>_ _. False)
          (command_exit sdk s)) (command_exit sdk s) t"
      proof (rule wp_mono [OF wp_sign_transaction [OF assms(1) st(3,1,4)]])
        fix u
        assume "signs sdk t u"
        then have "signatures u = signatures s @ [signature_of sdk s]"
          using st by (auto simp: signs_def signature_of_def)
        then show "wp (finalize_exchange_sign_transaction True) (\<lambda>_ _. False) (command_exit sdk s) u"
          using agreed assms(5)
          by (auto simp: finalize_exchange_sign_transaction_def wp_rules command_exit_def swap_exit_def)
      next
        fix e u
        assume "leaves_signing sdk t e u"
        then show "command_exit sdk s e u"
          using st agreed assms(5)
          by (auto simp: leaves_signing_def command_exit_def swap_exit_def signature_of_def)
      qed
      with True show ?thesis by (simp add: wp_CHECK)
    next
      case False
      then show ?thesis
        using st assms(5)
        by (simp add: wp_CHECK wp_reject_transaction finalize_exchange_sign_transaction_def wp_rules
            command_exit_def swap_exit_def)
    qed
  qed simp
  then show ?thesis using assms(5) by (simp add: review_transaction_def wp_CHECK wp_gets)
qed

lemma wp_review_normal:
  assumes "buffers_ok s" and "presented b s" and "sign_state s = PENDING_REVIEW"
    and "\<not> G_called_from_swap s" and "last_ins s = INS_SIGN"
  shows "wp (review_transaction sdk b) (\<lambda>_. command_post s) (command_exit sdk s) s"
proof -
  have pres: "presented b (s\<lparr>screen := d\<rparr>)" for d using presented_cong [of "s\<lparr>screen := d\<rparr>" s b] assms(2) by simp
  have buf: "buffers_ok (s\<lparr>screen := d\<rparr>)" for d using assms(1) by (simp add: buffers_ok_def)
  have shown: "app_inv (s\<lparr>screen := Review b\<rparr>)" if "b \<longrightarrow> allow_blind_sign s \<noteq> BlindSignDisabled"
    using that assms pres buf by (simp add: app_inv_def state_ok_def screen_ok_def)
  have q: "quiet s (s\<lparr>screen := d\<rparr>)" for d by (simp add: quiet_def)
  have warned: "app_inv (reset_app (s\<lparr>screen := Blind_Warning\<rparr>))"
    using buf by (intro reset_inv) (simp_all add: screen_ok_def)
  show ?thesis
    using assms(3,4) shown q warned
    by (auto simp: review_transaction_def wp_CHECK wp_gets wp_show_screen wp_reject_transaction
        display_review_menu_def display_blind_signed_review_def ui_error_blind_signing_def quiet_def)
qed

section \<open>The packets of a transaction\<close>

lemma quiet_send_error: "quiet s ((reset_app s)\<lparr>trace := trace s @ [Send_SW sw]\<rparr>)"
  by (simp add: quiet_def)

lemma send_error_inv:
  "buffers_ok s \<Longrightarrow> screen_ok s \<Longrightarrow> command_post s ((reset_app s)\<lparr>trace := trace s @ [Send_SW sw]\<rparr>)"
  by (simp add: reset_inv quiet_send_error)

text \<open>A chunk appended to the bytes received.\<close>

definition store_chunk :: "u8 list \<Rightarrow> app \<Rightarrow> app" where
  "store_chunk chunk s =
     (let len = unat (ctx_length (parse_context s)) in
      set_tmp_ctx (\<lambda>c. c\<lparr>raw_tx := take (4 + len) (raw_tx c) @ chunk @ drop (4 + len + length chunk) (raw_tx c)\<rparr>)
        (s\<lparr>parse_context := (parse_context s)\<lparr>ctx_length := ctx_length (parse_context s) + of_nat (length chunk)\<rparr>\<rparr>))"

lemma store_chunk_simps [simp]:
  "sign_state (store_chunk ch s) = sign_state s" "parse_data (store_chunk ch s) = parse_data s"
  "screen (store_chunk ch s) = screen s" "last_ins (store_chunk ch s) = last_ins s"
  "G_called_from_swap (store_chunk ch s) = G_called_from_swap s"
  "allow_blind_sign (store_chunk ch s) = allow_blind_sign s"
  "approval_strings (store_chunk ch s) = approval_strings s"
  "pending_pubkey_ctx (store_chunk ch s) = pending_pubkey_ctx s"
  "pubkey_confirmation_pending (store_chunk ch s) = pubkey_confirmation_pending s"
  "signatures (store_chunk ch s) = signatures s" "trace (store_chunk ch s) = trace s"
  "key_ok (tmp_ctx (store_chunk ch s)) = key_ok (tmp_ctx s)"
  "path_length (tmp_ctx (store_chunk ch s)) = path_length (tmp_ctx s)"
  "bip32_path (tmp_ctx (store_chunk ch s)) = bip32_path (tmp_ctx s)"
  "tc_curve (tmp_ctx (store_chunk ch s)) = tc_curve (tmp_ctx s)"
  by (simp_all add: store_chunk_def Let_def set_tmp_ctx_def key_ok_def)

lemma store_chunk:
  assumes "buffers_ok s" and "collecting s"
    and "prefix_length + unat (ctx_length (parse_context s)) + length chunk \<le> MAX_RAW_TX"
  shows "buffers_ok (store_chunk chunk s)" and "collecting (store_chunk chunk s)"
    and "received (store_chunk chunk s) = received s @ chunk"
    and "parse_context (store_chunk chunk s) = init_context [] (of_nat (length (received s @ chunk)))"
proof -
  obtain len where pc: "parse_context s = init_context [] len" and l: "prefix_length + unat len \<le> MAX_RAW_TX"
    using assms(2) by (auto simp: collecting_def)
  have cl: "ctx_length (parse_context s) = len" by (simp add: pc init_context_def)
  have b: "unat (of_nat (length chunk) :: u32) = length chunk"
    using assms(3) by (intro unat_of_nat_eq) simp
  have sum: "unat (len + of_nat (length chunk)) = unat len + length chunk"
    using assms(3) cl b by (subst unat_add_noovf) auto
  have raw: "length (raw_tx (tmp_ctx s)) = MAX_RAW_TX" using assms(1) by (simp add: buffers_ok_def)
  have r: "length (received s) = unat len" using length_received [OF assms(1)] l cl by simp
  show "buffers_ok (store_chunk chunk s)"
    using assms cl by (simp add: buffers_ok_def store_chunk_def Let_def set_tmp_ctx_def)
  have pc': "parse_context (store_chunk chunk s) = init_context [] (len + of_nat (length chunk))"
    by (simp add: store_chunk_def Let_def set_tmp_ctx_def pc init_context_def)
  then show "collecting (store_chunk chunk s)"
    using assms(3) cl sum by (auto simp: collecting_def)
  have "of_nat (length (received s @ chunk)) = len + of_nat (length chunk)"
    using r by simp
  with pc' show "parse_context (store_chunk chunk s) = init_context [] (of_nat (length (received s @ chunk)))"
    by simp
  have t: "take (unat len + length chunk) (take (unat len) xs @ chunk @ ys) = take (unat len) xs @ chunk"
    if "unat len \<le> length xs" for xs ys :: "u8 list"
    using that by simp
  show "received (store_chunk chunk s) = received s @ chunk"
    using t [of "drop 4 (raw_tx (tmp_ctx s))"] assms(3) cl raw sum
    by (simp add: received_def store_chunk_def Let_def set_tmp_ctx_def pc init_context_def drop_take)
qed

lemma set_prefix_result:
  assumes "buffers_ok s" and "length prefix = 4"
  shows "set_prefix prefix s = (Inr (), set_tmp_ctx (\<lambda>c. c\<lparr>raw_tx := prefix @ drop 4 (raw_tx c)\<rparr>) s)"
  using assms by (simp add: set_prefix_def CHECK_def gets_def in_bounds_def poke_def return_def modify_def
      set_tmp_ctx_def buffers_ok_def)

lemma length_prefix_of [simp]: "length (prefix_of m) = 4"
  by (simp add: prefix_of_def sign_prefix_def sign_prefix_multi_def)

lemma wp_eq: "m s = (Inr x, t) \<Longrightarrow> wp m Q E s = Q x t"
  by (simp add: wp_def)

text \<open>The transaction as it stands after its last packet, before and after the parser.\<close>

definition pending_app :: "app \<Rightarrow> app" where
  "pending_app s = set_tmp_ctx (\<lambda>c. c\<lparr>raw_tx_length := 4 + ctx_length (parse_context s)\<rparr>)
     (s\<lparr>sign_state := PENDING_REVIEW\<rparr>)"

lemma pending_app_simps [simp]:
  "sign_state (pending_app s) = PENDING_REVIEW" "parse_data (pending_app s) = parse_data s"
  "parse_context (pending_app s) = parse_context s" "screen (pending_app s) = screen s"
  "last_ins (pending_app s) = last_ins s" "received (pending_app s) = received s"
  "G_called_from_swap (pending_app s) = G_called_from_swap s" "signatures (pending_app s) = signatures s"
  "allow_blind_sign (pending_app s) = allow_blind_sign s" "approval_strings (pending_app s) = approval_strings s"
  "buffers_ok (pending_app s) = buffers_ok s" "key_ok (tmp_ctx (pending_app s)) = key_ok (tmp_ctx s)"
  "pending_pubkey_ctx (pending_app s) = pending_pubkey_ctx s" "trace (pending_app s) = trace s"
  "pubkey_confirmation_pending (pending_app s) = pubkey_confirmation_pending s"
  "raw_tx (tmp_ctx (pending_app s)) = raw_tx (tmp_ctx s)"
  "bip32_path (tmp_ctx (pending_app s)) = bip32_path (tmp_ctx s)"
  "path_length (tmp_ctx (pending_app s)) = path_length (tmp_ctx s)"
  "tc_curve (tmp_ctx (pending_app s)) = tc_curve (tmp_ctx s)"
  "raw_tx_length (tmp_ctx (pending_app s)) = 4 + ctx_length (parse_context s)"
  by (simp_all add: pending_app_def set_tmp_ctx_def received_def buffers_ok_def key_ok_def)

lemma screen_ok_cong:
  "screen t = screen s \<Longrightarrow> allow_blind_sign t = allow_blind_sign s \<Longrightarrow>
   G_called_from_swap t = G_called_from_swap s \<Longrightarrow> pending_pubkey_ctx t = pending_pubkey_ctx s \<Longrightarrow>
   pubkey_confirmation_pending t = pubkey_confirmation_pending s \<Longrightarrow> screen_ok t = screen_ok s"
  by (simp add: screen_ok_def cong: screen.case_cong)

text \<open>The transaction with its prefix, as the review gets it.\<close>

definition presented_app :: "app \<Rightarrow> parseContext_t \<Rightarrow> app" where
  "presented_app s d = set_tmp_ctx (\<lambda>c. c\<lparr>raw_tx := prefix_of (has_empty_pub_key d) @ drop 4 (raw_tx c)\<rparr>)
     ((pending_app s)\<lparr>parse_context := d\<rparr>)"

lemma presented_app_simps [simp]:
  "sign_state (presented_app s d) = PENDING_REVIEW" "parse_data (presented_app s d) = parse_data s"
  "parse_context (presented_app s d) = d" "screen (presented_app s d) = screen s"
  "last_ins (presented_app s d) = last_ins s" "G_called_from_swap (presented_app s d) = G_called_from_swap s"
  "signatures (presented_app s d) = signatures s" "allow_blind_sign (presented_app s d) = allow_blind_sign s"
  "approval_strings (presented_app s d) = approval_strings s" "trace (presented_app s d) = trace s"
  "buffers_ok (presented_app s d) = buffers_ok s" "key_ok (tmp_ctx (presented_app s d)) = key_ok (tmp_ctx s)"
  "tc_curve (tmp_ctx (presented_app s d)) = tc_curve (tmp_ctx s)"
  "path_length (tmp_ctx (presented_app s d)) = path_length (tmp_ctx s)"
  "bip32_path (tmp_ctx (presented_app s d)) = bip32_path (tmp_ctx s)" "quiet s (presented_app s d)"
  by (auto simp: presented_app_def set_tmp_ctx_def buffers_ok_def key_ok_def quiet_def)

lemma parse_outcome:
  assumes "buffers_ok s" and "collecting s"
  obtains x d where "parse_tx (init_context (received s) (ctx_length (parse_context s))) = Some (x, d)"
    and "ends_well (init_context (received s) (ctx_length (parse_context s))) x d"
proof -
  obtain len where pc: "parse_context s = init_context [] len" and l: "prefix_length + unat len \<le> MAX_RAW_TX"
    using assms(2) by (auto simp: collecting_def)
  have cl: "ctx_length (parse_context s) = len" by (simp add: pc init_context_def)
  have "length (received s) = unat len" using length_received [OF assms(1)] l cl by simp
  then have "ctx_inv {} (init_context (received s) len)"
    using l by (intro init_context_inv) (simp_all add: MAX_LEN_def)
  from parse_tx_ends [OF this] that show thesis by (auto simp: cl)
qed

lemma wp_present_result:
  assumes "buffers_ok s" and "collecting s"
    and parse: "parse_tx (init_context (received s) (ctx_length (parse_context s))) = Some (x, d)"
    and ends: "ends_well (init_context (received s) (ctx_length (parse_context s))) x d"
  shows "wp (present_transaction sdk) Q E s =
     (let fail = (\<lambda>sw. (reset_app s)\<lparr>trace := trace s @ [Send_SW sw]\<rparr>) in
      if x \<noteq> Inr () \<and> x \<noteq> Inl BLIND_SIGN_REQUIRED
      then Q () (fail (0x6800 OR (of_nat (the (err_code (projl x))) AND 0x7FF)))
      else if has_empty_pub_key d \<and> prefix_length + length (received s) + suffix_length > MAX_RAW_TX
      then Q () (fail 0x6700)
      else wp (review_transaction sdk (x = Inl BLIND_SIGN_REQUIRED)) Q E (presented_app s d))"
proof -
  obtain len where pc: "parse_context s = init_context [] len" and l: "prefix_length + unat len \<le> MAX_RAW_TX"
    using assms(2) by (auto simp: collecting_def)
  have cl: "ctx_length (parse_context s) = len" by (simp add: pc init_context_def)
  have fits: "unat (4 + len) = 4 + unat len" using l by (subst unat_add_noovf) auto
  have r: "length (received s) = unat len" using length_received [OF assms(1)] l cl by simp
  let ?p = "pending_app s"
  let ?q = "?p\<lparr>parse_context := d\<rparr>"
  have received: "parse_received ?p = (Inr x, ?q)"
    using parse by (simp add: parse_received_def CHECK_def gets_def in_bounds_def return_def modify_def pc init_context_def)
  have q: "buffers_ok ?q" using assms(1) by (simp add: buffers_ok_def)
  have rq: "reset_app ?q = reset_app s"
    by (cases s) (simp add: reset_app_def Let_def pending_app_def set_tmp_ctx_def)
  have start: "wp (present_transaction sdk) Q E s =
     wp (if x \<noteq> Inr () \<and> x \<noteq> Inl BLIND_SIGN_REQUIRED then
       CHECK (in_bounds (err_code (projl x))) (\<lambda>e. send_error (0x6800 OR (of_nat e AND 0x7FF)))
     else
       CHECK (gets (\<lambda>s. (has_empty_pub_key (parse_context s), raw_tx_length (tmp_ctx s)))) (\<lambda>(multi, len).
       if multi \<and> unat len + suffix_length > MAX_RAW_TX then send_error 0x6700
       else
         CHECK (set_prefix (if multi then sign_prefix_multi else sign_prefix)) (\<lambda>_.
         review_transaction sdk (x = Inl BLIND_SIGN_REQUIRED)))) Q E ?q"
    unfolding present_transaction_def wp_CHECK wp_modify
    using wp_eq [where m = parse_received and s = ?p, OF received] by (simp add: pending_app_def)
  show ?thesis
  proof (cases "x \<noteq> Inr () \<and> x \<noteq> Inl BLIND_SIGN_REQUIRED")
    case True
    then obtain e where e: "x = Inl e" by (cases x) auto
    then have "e \<noteq> BAD_ACCESS" using ends by (simp add: ends_well_def field_error_def)
    then obtain n where "err_code e = Some n" by (cases e) auto
    then show ?thesis using True e by (simp add: start wp_CHECK wp_in_bounds wp_send_error rq Let_def)
  next
    case False
    have p: "(if has_empty_pub_key d then sign_prefix_multi else sign_prefix) = prefix_of (has_empty_pub_key d)"
      by (simp add: prefix_of_def)
    show ?thesis
      using False cl set_prefix_result [OF q length_prefix_of [of "has_empty_pub_key d"]]
      by (auto simp: start wp_CHECK wp_gets wp_eq wp_send_error rq fits r p presented_app_def Let_def)
  qed
qed

text \<open>An accepted transaction is presented: what the invariant asks for while it is pending.\<close>

lemma presented_presented_app:
  assumes "buffers_ok s" and "collecting s" and "parse_data s" and "key_ok (tmp_ctx s)"
    and parse: "parse_tx (init_context (received s) (ctx_length (parse_context s))) =
      Some (if b then Inl BLIND_SIGN_REQUIRED else Inr (), d)"
    and ends: "ends_well (init_context (received s) (ctx_length (parse_context s)))
      (if b then Inl BLIND_SIGN_REQUIRED else Inr ()) d"
    and room: "has_empty_pub_key d \<longrightarrow> prefix_length + length (received s) + suffix_length \<le> MAX_RAW_TX"
  shows "presented b (presented_app s d)" and "received (presented_app s d) = received s"
proof -
  obtain len where pc: "parse_context s = init_context [] len" and l: "prefix_length + unat len \<le> MAX_RAW_TX"
    using assms(2) by (auto simp: collecting_def)
  have cl: "ctx_length (parse_context s) = len" by (simp add: pc init_context_def)
  have fits: "unat (4 + len) = 4 + unat len" using l by (subst unat_add_noovf) auto
  have r: "length (received s) = unat len" using length_received [OF assms(1)] l cl by simp
  have dl: "ctx_length d = len" using ends cl
    by (auto simp: ends_well_def field_error_def init_context_def split: if_splits)
  show recv: "received (presented_app s d) = received s"
    using dl cl by (simp add: received_def presented_app_def set_tmp_ctx_def)
  show "presented b (presented_app s d)"
    unfolding presented_def Let_def recv
    using assms(3,4) l dl room parse fits cl r
    by (auto simp: presented_app_def set_tmp_ctx_def key_ok_def)
qed

lemma wp_present_transaction:
  assumes "sdk_contract sdk" and "buffers_ok s" and "collecting s" and "parse_data s"
    and "key_ok (tmp_ctx s)" and "screen_ok s" and "last_ins s = INS_SIGN"
  shows "wp (present_transaction sdk) (\<lambda>_. command_post s) (command_exit sdk s) s"
proof -
  obtain x d where parse: "parse_tx (init_context (received s) (ctx_length (parse_context s))) = Some (x, d)"
    and ends: "ends_well (init_context (received s) (ctx_length (parse_context s))) x d"
    using parse_outcome [OF assms(2,3)] .
  note result = wp_present_result [OF assms(2,3) parse ends, of sdk]
  show ?thesis
  proof (cases "(x = Inr () \<or> x = Inl BLIND_SIGN_REQUIRED) \<and>
      (has_empty_pub_key d \<longrightarrow> prefix_length + length (received s) + suffix_length \<le> MAX_RAW_TX)")
    case False
    then show ?thesis using send_error_inv [OF assms(2,6)] by (auto simp: result Let_def)
  next
    case True
    define b where "b = (x = Inl BLIND_SIGN_REQUIRED)"
    have x: "x = (if b then Inl BLIND_SIGN_REQUIRED else Inr ())" using True by (auto simp: b_def)
    let ?r = "presented_app s d"
    have pres: "presented b ?r"
      using presented_presented_app [OF assms(2-5)] parse ends x True by blast
    have "wp (review_transaction sdk b) (\<lambda>_. command_post ?r) (command_exit sdk ?r) ?r"
    proof (cases "G_called_from_swap s")
      case True
      have "wp (review_transaction sdk b) (\<lambda>_ _. False) (command_exit sdk ?r) ?r"
        using True assms(2) pres by (intro wp_review_swap [OF assms(1)]) simp_all
      then show ?thesis by (rule wp_mono) simp_all
    next
      case False
      then show ?thesis using assms(2,7) pres by (intro wp_review_normal) simp_all
    qed
    from wp_after [OF _ this] show ?thesis using True by (auto simp: result Let_def b_def)
  qed
qed

text \<open>One packet's bytes: too many, more to come, or the last.\<close>

lemma wp_packet_result:
  assumes "buffers_ok s" and "collecting s" and "parse_data s" and "unat n \<le> length work_buffer"
  shows "wp (handle_packet_content sdk p1 work_buffer n) Q E s =
     (let t = store_chunk (take (unat n) work_buffer) s in
      if prefix_length + length (received s) + unat n > MAX_RAW_TX
      then Q () ((reset_app s)\<lparr>trace := trace s @ [Send_SW 0x6700]\<rparr>)
      else if has_more p1
      then Q () (t\<lparr>sign_state := WAITING_FOR_MORE, trace := trace s @ [Send_SW 0x9000]\<rparr>)
      else wp (present_transaction sdk) Q E t)"
proof -
  obtain len where pc: "parse_context s = init_context [] len" and l: "prefix_length + unat len \<le> MAX_RAW_TX"
    using assms(2) by (auto simp: collecting_def)
  have cl: "ctx_length (parse_context s) = len" by (simp add: pc init_context_def)
  have r: "length (received s) = unat len" using length_received [OF assms(1)] l cl by simp
  have raw: "length (raw_tx (tmp_ctx s)) = MAX_RAW_TX" using assms(1) by (simp add: buffers_ok_def)
  let ?chunk = "take (unat n) work_buffer"
  have ch: "length ?chunk = unat n" using assms(4) by simp
  have "unat (of_nat 4 + len + ucast n :: u32) = 4 + unat len + unat n"
  proof -
    have a: "unat (4 + len) = 4 + unat len" using l by (subst unat_add_noovf) simp_all
    have "unat len + unat n < 4294967292" using l unat_u8_less [of n] by linarith
    then have "unat (4 + len + ucast n) = unat (4 + len) + unat (ucast n :: u32)"
      by (intro unat_add_noovf) (simp add: a)
    then show ?thesis by (simp add: a)
  qed
  moreover have "4 + unat len + unat n < 65536" using l unat_u8_less [of n] by linarith
  ultimately have total: "unat (ucast (of_nat 4 + len + ucast n :: u32) :: u16) = 4 + unat len + unat n"
    by (simp add: unsigned_ucast_eq take_bit_nat_eq_self)
  show ?thesis
  proof (cases "4 + unat len + unat n > MAX_RAW_TX")
    case True
    then show ?thesis
      using total cl r by (simp add: handle_packet_content_def wp_CHECK wp_gets wp_send_error Let_def)
  next
    case False
    let ?t = "store_chunk ?chunk s"
    have n: "(of_nat (length ?chunk) :: u32) = ucast n" using ch by simp
    have poke: "poke (raw_tx (tmp_ctx s)) (4 + unat len) ?chunk = Some (raw_tx (tmp_ctx ?t))"
      using False raw ch cl by (simp add: poke_def store_chunk_def Let_def set_tmp_ctx_def)
    have stored: "set_tmp_ctx (\<lambda>c. c\<lparr>raw_tx := raw_tx (tmp_ctx ?t)\<rparr>)
        (s\<lparr>parse_context := (parse_context s)\<lparr>ctx_length := len + ucast n\<rparr>\<rparr>) = ?t"
      using cl n by (simp add: store_chunk_def Let_def set_tmp_ctx_def)
    show ?thesis
      using False total cl assms(3,4) poke stored r
      by (simp add: handle_packet_content_def wp_CHECK wp_gets wp_modify wp_in_bounds wp_io_send_sw Let_def
          peek_def)
  qed
qed

lemma received_fits:
  "buffers_ok s \<Longrightarrow> collecting s \<Longrightarrow> length (received s) = unat (ctx_length (parse_context s))"
  using length_received by (auto simp: collecting_def init_context_def)

lemma wp_handle_packet_content:
  assumes "sdk_contract sdk" and "buffers_ok s" and "collecting s" and "parse_data s"
    and "key_ok (tmp_ctx s)" and "screen_ok s" and "last_ins s = INS_SIGN"
    and "unat n \<le> length work_buffer"
  shows "wp (handle_packet_content sdk p1 work_buffer n) (\<lambda>_. command_post s) (command_exit sdk s) s"
proof (cases "prefix_length + length (received s) + unat n > MAX_RAW_TX")
  case True
  then show ?thesis
    using send_error_inv [OF assms(2,6)] by (simp add: wp_packet_result [OF assms(2,3,4,8)] Let_def)
next
  case False
  let ?t = "store_chunk (take (unat n) work_buffer) s"
  let ?w = "?t\<lparr>sign_state := WAITING_FOR_MORE, trace := trace s @ [Send_SW 0x9000]\<rparr>"
  have fit: "prefix_length + unat (ctx_length (parse_context s)) + length (take (unat n) work_buffer) \<le> MAX_RAW_TX"
    using False assms(8) received_fits [OF assms(2,3)] by simp
  note st = store_chunk [OF assms(2,3) fit]
  have q: "quiet s ?t" "screen_ok ?t" using assms(6) screen_ok_cong [of ?t s] by (simp_all add: quiet_def)
  have "screen_ok ?w = screen_ok ?t" by (rule screen_ok_cong) simp_all
  then have waiting: "command_post s ?w"
    using st(1,2) q(2) assms(4,5)
    by (simp add: app_inv_def state_ok_def buffers_ok_def collecting_def quiet_def)
  have "wp (present_transaction sdk) (\<lambda>_. command_post ?t) (command_exit sdk ?t) ?t"
    using st q assms by (intro wp_present_transaction) simp_all
  from wp_after [OF q(1) this] waiting False show ?thesis
    by (simp add: wp_packet_result [OF assms(2,3,4,8)] Let_def)
qed

text \<open>The first packet, when the path is accepted: what is set up before its bytes are stored.\<close>

definition keyed_app :: "app \<Rightarrow> u32 list \<Rightarrow> u8 \<Rightarrow> cx_curve_t \<Rightarrow> app" where
  "keyed_app s path n curve = set_tmp_ctx (\<lambda>c. c\<lparr>bip32_path := path, path_length := n, tc_curve := curve\<rparr>)
     ((reset_app s)\<lparr>parse_data := True\<rparr>)"

lemma keyed_app:
  assumes "buffers_ok s" and "screen_ok s" and "length path = MAX_BIP32_PATH"
  shows "buffers_ok (keyed_app s path n c)" "screen_ok (keyed_app s path n c)" "quiet s (keyed_app s path n c)"
    "parse_data (keyed_app s path n c)" "collecting (keyed_app s path n c)"
    "last_ins (keyed_app s path n c) = last_ins s" "state_ok (keyed_app s path n c)"
    "received (keyed_app s path n c) = []" "trace (keyed_app s path n c) = trace s"
    "G_called_from_swap (keyed_app s path n c) = G_called_from_swap s"
    "allow_blind_sign (keyed_app s path n c) = allow_blind_sign s"
  using assms screen_ok_cong [of "keyed_app s path n c" s]
  by (auto simp: keyed_app_def set_tmp_ctx_def buffers_ok_def quiet_def collecting_def zero_context_def
      init_context_def state_ok_def received_def)

lemma wp_first_packet_result:
  assumes "is_first p1" and "1 \<le> unat n" and "unat n \<le> length work_buffer"
    and "m = hd work_buffer"
    and "ok \<longleftrightarrow> 1 \<le> unat m \<and> unat m \<le> MAX_BIP32_PATH \<and> 4 * unat m \<le> unat n - 1"
    and "parse_bip32_path (drop 1 work_buffer) (unat m) (unat n - 1) (replicate MAX_BIP32_PATH 0) MAX_BIP32_PATH = Some (ok, path)"
  shows "wp (handle_first_packet sdk p1 p2 work_buffer n) Q E s =
     (let stop = (\<lambda>pl sw. Q () ((keyed_app s path pl CX_CURVE_NONE)\<lparr>trace := trace s @ [Send_SW sw]\<rparr>)) in
      if \<not> ok then stop 0 0x6A81
      else case curve_of p2 of
        None \<Rightarrow> stop m 0x6B00
      | Some curve \<Rightarrow> wp (handle_packet_content sdk p1 (drop (4 * unat m) (drop 1 work_buffer)) (n - 1 - 4 * m)) Q E
                         (keyed_app s path m curve))"
proof -
  have n: "\<not> n < 1" using assms(2) by (simp add: word_less_nat_alt)
  have n1: "unat (n - 1) = unat n - 1" using assms(2) by (intro unat_dec) simp
  have hd: "peek work_buffer 0 1 = Some [m]" using assms(2,3,4) by (cases work_buffer) auto
  let ?a = "(reset_app s)\<lparr>parse_data := True\<rparr>"
  have bs: "set_tmp_ctx (\<lambda>c. c\<lparr>bip32_path := path\<rparr>) ?a = keyed_app s path 0 CX_CURVE_NONE"
    "set_tmp_ctx (\<lambda>c. c\<lparr>path_length := k\<rparr>) (keyed_app s path pl cv) = keyed_app s path k cv"
    "set_tmp_ctx (\<lambda>c. c\<lparr>tc_curve := c'\<rparr>) (keyed_app s path pl cv) = keyed_app s path pl c'" for k pl cv c'
    by (simp_all add: keyed_app_def set_tmp_ctx_def zero_tmp_ctx_def)
  have path0: "bip32_path (tmp_ctx ?a) = replicate 10 0" by (simp add: zero_tmp_ctx_def)
  have tr: "trace (keyed_app s path pl cv) = trace s" for pl cv by (simp add: keyed_app_def set_tmp_ctx_def)
  show ?thesis
    using assms(1,6) hd n path0
    by (simp add: handle_first_packet_def wp_CHECK wp_reset wp_modify wp_gets wp_in_bounds Let_def bs tr n1
        wp_io_send_sw wp_case_option del: peek_eq_Some drop_drop split: option.split)
qed

lemma packet_rest:
  assumes "1 \<le> unat n" and "4 * unat m \<le> unat n - 1"
  shows "unat (n - 1 - 4 * m) = unat n - 1 - 4 * unat (m :: u8)"
proof -
  have "unat (n - 1) = unat n - 1" using assms(1) by (intro unat_dec) simp
  moreover have "4 * unat m < 256" using assms unat_u8_less [of n] by linarith
  then have "unat (4 * m) = 4 * unat m" by (simp add: unat_word_ariths)
  ultimately show ?thesis using assms by (subst unat_sub) (auto simp: word_le_nat_alt)
qed

lemma curve_of_ok: "curve_of p2 = Some c \<Longrightarrow> c \<in> {CX_CURVE_256K1, CX_CURVE_Ed25519}"
  by (auto simp: curve_of_def split: if_splits)

lemma wp_first_packet:
  assumes "sdk_contract sdk" and "app_inv s" and "last_ins s = INS_SIGN"
    and "unat n \<le> length work_buffer"
  shows "wp (handle_first_packet sdk p1 p2 work_buffer n) (\<lambda>_. command_post s) (command_exit sdk s) s"
proof (cases "is_first p1 \<and> 1 \<le> unat n")
  case False
  then have "\<not> is_first p1 \<or> n < 1" by (auto simp: word_less_nat_alt)
  then show ?thesis
    using assms(2) by (auto simp: handle_first_packet_def wp_io_send_sw quiet_def)
next
  case True
  let ?m = "hd work_buffer" and ?w = "drop 1 work_buffer"
  have buf: "buffers_ok s" "screen_ok s" using assms(2) by (simp_all add: app_inv_def)
  define ok where "ok \<longleftrightarrow> 1 \<le> unat ?m \<and> unat ?m \<le> MAX_BIP32_PATH \<and> 4 * unat ?m \<le> unat n - 1"
  have "unat n - 1 \<le> length ?w" using assms(4) by simp
  then obtain path where parse: "parse_bip32_path ?w (unat ?m) (unat n - 1) (replicate MAX_BIP32_PATH 0) MAX_BIP32_PATH =
      Some (ok, path)" and path: "length path = MAX_BIP32_PATH"
    using parse_path_total [where path = ?w and k = "unat ?m" and n = "unat n - 1" and buf = "replicate 10 0"]
    by (auto simp: ok_def)
  note base = keyed_app [OF buf path]
  have stop: "command_post s ((keyed_app s path pl cv)\<lparr>trace := trace s @ [Send_SW sw]\<rparr>)" for pl cv sw
    using base(1-3,7) [of pl cv] by (auto simp: app_inv_def quiet_def)
  have rest: "wp (handle_packet_content sdk p1 (drop (4 * unat ?m) ?w) (n - 1 - 4 * ?m))
      (\<lambda>_. command_post s) (command_exit sdk s) (keyed_app s path ?m c)" if ok "curve_of p2 = Some c" for c
  proof (rule wp_after [OF base(3)])
    have "key_ok (tmp_ctx (keyed_app s path ?m c))"
      using that(1) curve_of_ok [OF that(2)] by (auto simp: ok_def key_ok_def keyed_app_def set_tmp_ctx_def)
    moreover have "unat (n - 1 - 4 * ?m) = unat n - 1 - 4 * unat ?m"
      using that(1) True by (intro packet_rest) (simp_all add: ok_def)
    ultimately show "wp (handle_packet_content sdk p1 (drop (4 * unat ?m) ?w) (n - 1 - 4 * ?m))
        (\<lambda>_. command_post (keyed_app s path ?m c)) (command_exit sdk (keyed_app s path ?m c)) (keyed_app s path ?m c)"
      using assms(1,3,4) base [of ?m c] by (intro wp_handle_packet_content) auto
  qed
  show ?thesis
    unfolding wp_first_packet_result [OF conjunct1 [OF True] conjunct2 [OF True] assms(4) refl ok_def parse] Let_def
    using stop rest by (auto simp del: drop_drop split: option.split)
qed

lemma sends_sw: "app_inv s \<Longrightarrow> command_post s (s\<lparr>trace := trace s @ [Send_SW sw]\<rparr>)"
  by (simp add: quiet_def)

lemma wp_handle_sign:
  assumes "sdk_contract sdk" and "app_inv s" and "last_ins s = INS_SIGN" and "unat n \<le> length work_buffer"
  shows "wp (handle_sign sdk p1 p2 work_buffer n) (\<lambda>_. command_post s) (command_exit sdk s) s"
proof (cases "sign_state s")
  case IDLE
  then show ?thesis using wp_first_packet [OF assms] by (simp add: handle_sign_def wp_CHECK wp_gets)
next
  case WAITING_FOR_MORE
  with assms(2) have "parse_data s" "collecting s" "key_ok (tmp_ctx s)" "buffers_ok s" "screen_ok s"
    by (simp_all add: app_inv_def state_ok_def)
  then have "wp (handle_packet_content sdk p1 work_buffer n) (\<lambda>_. command_post s) (command_exit sdk s) s"
    using assms by (intro wp_handle_packet_content)
  then show ?thesis
    using WAITING_FOR_MORE sends_sw [OF assms(2)]
    by (simp add: handle_sign_def handle_subsequent_packet_def wp_CHECK wp_gets wp_io_send_sw)
next
  case PENDING_REVIEW
  then show ?thesis
    using sends_sw [OF assms(2)] by (simp add: handle_sign_def wp_CHECK wp_gets wp_io_send_sw)
qed

section \<open>Public keys\<close>

lemma cstr_take: "take (length (cstr s)) s = cstr s"
  unfolding cstr_def by (rule takeWhile_eq_take [symmetric])

text \<open>The answer for a key: the compressed key, the address and the chain code.\<close>

definition pubkey_response :: "publicKeyContext_t \<Rightarrow> io" where
  "pubkey_response ctx =
     Send_Response (33 # the (xrp_compress_public_key (pk_curve ctx) (pk_W ctx)) @
       of_nat (length (cstr (address ctx))) # map byte_of_char (cstr (address ctx)) @
       (if get_chaincode ctx then chain_code ctx else [])) 0x9000"

lemma wp_set_result:
  assumes "pubkey_ok (pending_pubkey_ctx s)"
  shows "wp set_result_get_public_key Q E s = Q () (s\<lparr>trace := trace s @ [pubkey_response (pending_pubkey_ctx s)]\<rparr>)"
proof -
  let ?c = "pending_pubkey_ctx s"
  have "strlen (address ?c) = Some (length (cstr (address ?c)))"
    using assms by (simp add: strlen_def pubkey_ok_def)
  moreover obtain p where "xrp_compress_public_key (pk_curve ?c) (pk_W ?c) = Some p"
    using compress_total assms by (auto simp: pubkey_ok_def)
  ultimately show ?thesis
    using assms
    by (simp add: set_result_get_public_key_def wp_CHECK wp_gets wp_in_bounds wp_io_send pubkey_response_def
        cstr_take pubkey_ok_def)
qed

text \<open>The parts of the state a public key command works on.\<close>

lemma pubkey_inv:
  assumes "app_inv s" and "sign_state s \<noteq> PENDING_REVIEW" and "pubkey_ok ctx"
    and "case d of Address_Review a \<Rightarrow> pending \<and> a = cstr (address ctx)
         | Review b \<Rightarrow> d = screen s | _ \<Rightarrow> True"
  shows "command_post s (s\<lparr>pending_pubkey_ctx := ctx, pubkey_confirmation_pending := pending, screen := d\<rparr>)"
  using assms
  by (auto simp: app_inv_def buffers_ok_def state_ok_def screen_ok_def collecting_def quiet_def key_ok_def
      split: signState_e.splits screen.splits)

lemma not_address_screen:
  "app_inv s \<Longrightarrow> \<not> pubkey_confirmation_pending s \<Longrightarrow> screen s \<noteq> Address_Review a"
  by (auto simp: app_inv_def screen_ok_def)

text \<open>The command for a key once the key is derived, with the context it fills.\<close>

definition key_ctx :: "cx_curve_t \<Rightarrow> u8 list \<Rightarrow> u8 list \<Rightarrow> bool \<Rightarrow> publicKeyContext_t" where
  "key_ctx curve W chain ch = zero_pubkey\<lparr>get_chaincode := ch, pk_curve := curve, pk_W := W,
     chain_code := (if ch then chain else chain_code zero_pubkey)\<rparr>"

lemma key_ctx_ok:
  assumes "length W = 65" and "length chain = 32"
  shows "pubkey_ok (key_ctx curve W chain ch)"
    and "length addr = XRP_ADDRESS_SIZE \<Longrightarrow> NUL \<in> set addr \<Longrightarrow>
      pubkey_ok ((key_ctx curve W chain ch)\<lparr>address := addr\<rparr>)"
  using zero_ok(2) assms by (simp_all add: pubkey_ok_def key_ctx_def)

lemma wp_pubkey_result:
  assumes "\<not> n < 1" and "\<not> pubkey_confirmation_pending s" and hd: "peek data_buffer 0 1 = Some [m]"
    and curve: "curve_of p2 = Some curve"
    and gk: "get_public_key sdk curve (drop 1 data_buffer) (unat m) (unat (n - 1)) = Some (err, Some (W, chain))"
    and l: "length W = 65" "length chain = 32"
    and addr: "get_address sdk curve W (address zero_pubkey) = Some addr"
      "length addr = XRP_ADDRESS_SIZE" "NUL \<in> set addr"
  shows "wp (handle_get_public_key sdk p1 p2 data_buffer n) Q E s =
    (let ch = (p2 AND 0x3F = P2_CHAINCODE) in
     if p1 \<noteq> P1_CONFIRM \<and> p1 \<noteq> P1_NON_CONFIRM then Q () (s\<lparr>trace := trace s @ [Send_SW 0x6B00]\<rparr>)
     else if \<not> ch \<and> p2 AND 0x3F \<noteq> P2_NO_CHAINCODE then Q () (s\<lparr>trace := trace s @ [Send_SW 0x6B00]\<rparr>)
     else if err \<noteq> 0
       then Q () (s\<lparr>pending_pubkey_ctx := key_ctx curve W chain ch, trace := trace s @ [Send_SW (ucast err)]\<rparr>)
     else if p1 = P1_NON_CONFIRM
       then Q () (s\<lparr>pending_pubkey_ctx := zero_pubkey,
                   trace := trace s @ [pubkey_response ((key_ctx curve W chain ch)\<lparr>address := addr\<rparr>)]\<rparr>)
     else if length (cstr addr) = 0 \<or> length (cstr addr) \<ge> 43
       then Q () (s\<lparr>pubkey_confirmation_pending := False, pending_pubkey_ctx := zero_pubkey,
                   trace := trace s @ [Send_SW (sdk_SWO_INCORRECT_DATA sdk)]\<rparr>)
     else Q () (s\<lparr>pending_pubkey_ctx := (key_ctx curve W chain ch)\<lparr>address := addr\<rparr>,
                 pubkey_confirmation_pending := True, screen := Address_Review (cstr addr)\<rparr>))"
proof -
  have sl: "strlen addr = Some (length (cstr addr))" using addr(3) by (simp add: strlen_def)
  have cl: "length (cstr addr) \<le> 41"
    using addr(2) length_takeWhile_le [of "\<lambda>c. c \<noteq> NUL" addr] by (simp add: cstr_def)
  have ne: "addr \<noteq> []" using addr(3) by auto
  have tk: "length (take (length (cstr addr)) addr) = length (cstr addr)" by (simp only: cstr_take)
  have order: "s\<lparr>trace := tr, pending_pubkey_ctx := zero_pubkey\<rparr> = s\<lparr>pending_pubkey_ctx := zero_pubkey, trace := tr\<rparr>" for tr
    by (cases s, simp)
  note ok = key_ctx_ok(2) [OF l addr(2,3), of curve, unfolded key_ctx_def, simplified]
  show ?thesis
    using assms(1,2) hd curve gk addr(1) sl cl ne ok [of True] ok [of False]
    by (cases "p2 AND 0x3F = P2_CHAINCODE")
      (simp_all add: handle_get_public_key_def wp_CHECK wp_gets wp_io_send_sw wp_in_bounds wp_modify wp_return
        Let_def key_ctx_def wp_set_result clear_pending_pubkey_def order
        display_address_confirmation_ui_def wp_show_screen cstr_take tk del: peek_eq_Some length_take)
qed

text \<open>The address in the buffer.\<close>

lemma address_made:
  assumes "sdk_contract sdk" and "length W = 65"
  obtains addr p h where "xrp_compress_public_key curve W = Some p" and "xrp_public_key_hash160 sdk p = Some h"
    and "get_address sdk curve W (address zero_pubkey) = Some addr" and "length addr = XRP_ADDRESS_SIZE"
    and "NUL \<in> set addr" and "cstr addr = address_of sdk h"
proof -
  obtain p where p: "xrp_compress_public_key curve W = Some p" using compress_total [OF assms(2)] by blast
  obtain h where h: "xrp_public_key_hash160 sdk p = Some h" using hash160 [OF assms(1)] .
  obtain rest where "get_address sdk curve W (address zero_pubkey) = Some (address_of sdk h @ NUL # rest)"
    and "length (address_of sdk h @ NUL # rest) = XRP_ADDRESS_SIZE"
    using get_address_text [OF assms(1) p h, of "address zero_pubkey"] by (auto simp: zero_pubkey_def)
  moreover have "cstr (address_of sdk h @ NUL # rest) = address_of sdk h"
    unfolding address_of_def by (rule cstr_append_NUL) (rule NUL_notin_base58)
  ultimately show thesis using p h that [of p h "address_of sdk h @ NUL # rest"] by simp
qed

lemma wp_handle_get_public_key:
  assumes "sdk_contract sdk" and "app_inv s" and "sign_state s \<noteq> PENDING_REVIEW"
    and "unat n \<le> length data_buffer"
  shows "wp (handle_get_public_key sdk p1 p2 data_buffer n) (\<lambda>_. command_post s) (command_exit sdk s) s"
proof -
  note sw = sends_sw [OF assms(2)]
  show ?thesis
  proof (cases "n < 1 \<or> pubkey_confirmation_pending s")
    case True
    then show ?thesis using sw by (auto simp: handle_get_public_key_def wp_CHECK wp_gets wp_io_send_sw)
  next
    case False
    then have n: "1 \<le> unat n" by (simp add: word_less_nat_alt)
    let ?m = "hd data_buffer" and ?d = "drop 1 data_buffer"
    have hd: "peek data_buffer 0 1 = Some [?m]" using n assms(4) by (cases data_buffer) auto
    have n1: "unat (n - 1) = unat n - 1" using n by (intro unat_dec) simp
    define with_key where "with_key ctx = s\<lparr>pending_pubkey_ctx := ctx\<rparr>" for ctx
    have d: "screen s \<noteq> Address_Review a" for a using not_address_screen [OF assms(2)] False by blast
    have keep: "command_post s (with_key ctx)" if "pubkey_ok ctx" for ctx
      using pubkey_inv [OF assms(2,3) that, of "screen s" "pubkey_confirmation_pending s"] d
      by (simp add: with_key_def split: screen.splits)
    have keep_sw: "command_post s ((with_key ctx)\<lparr>trace := trace s @ [e]\<rparr>)" if "pubkey_ok ctx" "\<not> is_signature e" for ctx e
      using keep [OF that(1)] that(2) by (auto simp: quiet_def with_key_def)
    have answer: "command_post s (s\<lparr>pending_pubkey_ctx := zero_pubkey, trace := trace s @ [e]\<rparr>)" if "\<not> is_signature e" for e
      using keep_sw [of zero_pubkey e] that by (simp add: with_key_def)
    show ?thesis
    proof (cases "curve_of p2")
      case None
      then show ?thesis using False hd sw
        by (simp add: handle_get_public_key_def wp_CHECK wp_gets wp_io_send_sw wp_in_bounds Let_def del: peek_eq_Some)
    next
      case (Some curve)
      have c0: "pubkey_ok (zero_pubkey\<lparr>get_chaincode := ch\<rparr>)" for ch
        using zero_ok(2) by (simp add: pubkey_ok_def)
      have len: "unat n - 1 \<le> length ?d" using assms(4) by simp
      obtain ok path where gp: "parse_bip32_path ?d (unat ?m) (unat n - 1) (replicate 10 0) 10 = Some (ok, path)"
        using parse_path_total [OF len, of "replicate 10 0" "unat ?m"] by auto
      show ?thesis
      proof (cases ok)
        case False
        then have "get_public_key sdk curve ?d (unat ?m) (unat (n - 1)) = Some (0x6a80, None)"
          using gp by (simp add: get_public_key_def n1)
        then show ?thesis
          using \<open>\<not> (n < 1 \<or> pubkey_confirmation_pending s)\<close> hd sw Some keep_sw [OF c0] keep [OF c0]
          by (simp add: handle_get_public_key_def wp_CHECK wp_gets wp_io_send_sw wp_in_bounds wp_modify Let_def
              with_key_def del: peek_eq_Some)
      next
        case True
        obtain err W chain where key: "sdk_pubkey sdk curve (take (unat ?m) path) = (err, W, chain)"
          by (cases "sdk_pubkey sdk curve (take (unat ?m) path)") auto
        have "length (fst (snd (sdk_pubkey sdk curve (take (unat ?m) path)))) = 65 \<and>
            length (snd (snd (sdk_pubkey sdk curve (take (unat ?m) path)))) = 32"
          using assms(1) unfolding sdk_contract_def by blast
        then have l: "length W = 65" "length chain = 32" by (simp_all add: key)
        have gk: "get_public_key sdk curve ?d (unat ?m) (unat (n - 1)) = Some (err, Some (W, chain))"
          using gp True by (simp add: get_public_key_def n1 key)
        obtain addr where addr: "get_address sdk curve W (address zero_pubkey) = Some addr"
          "length addr = XRP_ADDRESS_SIZE" "NUL \<in> set addr"
          using address_made [OF assms(1) l(1), of curve] by metis
        let ?c = "key_ctx curve W chain"
        note c1 = key_ctx_ok [OF l, where curve = curve]
        have shown: "command_post s (s\<lparr>pending_pubkey_ctx := (?c ch)\<lparr>address := addr\<rparr>,
            pubkey_confirmation_pending := True, screen := Address_Review (cstr addr)\<rparr>)" for ch
          using c1(2) [OF addr(2,3)] by (intro pubkey_inv [OF assms(2,3)]) simp_all
        have order: "s\<lparr>pubkey_confirmation_pending := False, pending_pubkey_ctx := zero_pubkey\<rparr> =
            s\<lparr>pending_pubkey_ctx := zero_pubkey, pubkey_confirmation_pending := False, screen := screen s\<rparr>"
          by (cases s, simp)
        have unshown: "command_post s (s\<lparr>pubkey_confirmation_pending := False, pending_pubkey_ctx := zero_pubkey,
            trace := trace s @ [Send_SW v]\<rparr>)" for v
          using pubkey_inv [OF assms(2,3) zero_ok(2), of "screen s" False] d
          by (auto simp: quiet_def order split: screen.splits)
        have nf: "\<not> n < 1" "\<not> pubkey_confirmation_pending s" using \<open>\<not> (n < 1 \<or> pubkey_confirmation_pending s)\<close> by simp_all
        show ?thesis
          unfolding wp_pubkey_result [OF nf hd Some gk l addr] Let_def
          using sw keep_sw [OF c1(1)] keep [OF c1(1)] keep [OF zero_ok(2)] answer shown unshown
          by (simp add: pubkey_response_def with_key_def)
      qed
    qed
  qed
qed

section \<open>Commands\<close>

lemma inv_last_ins:
  "app_inv s \<Longrightarrow> sign_state s \<noteq> PENDING_REVIEW \<Longrightarrow> command_post s (s\<lparr>last_ins := i\<rparr>)"
  by (auto simp: app_inv_def buffers_ok_def state_ok_def screen_ok_def collecting_def quiet_def
      split: signState_e.splits screen.splits)

lemma reset_post: "app_inv s \<Longrightarrow> command_post s (reset_app s)"
  by (simp add: app_inv_def quiet_def reset_inv [unfolded app_inv_def])

lemma wp_handle_apdu:
  assumes "sdk_contract sdk" and "app_inv s" and "5 \<le> length rx" and "length rx = 5 + unat (rx ! 4)"
  shows "wp (handle_apdu sdk rx) (\<lambda>_. command_post s) (command_exit sdk s) s"
proof -
  let ?h = "take 5 rx"
  let ?ins = "rx ! 1"
  have hd: "peek rx 0 5 = Some ?h" using assms(3) by simp
  have h: "?h ! 0 = rx ! 0" "?h ! 1 = rx ! 1" "?h ! 2 = rx ! 2" "?h ! 3 = rx ! 3" "?h ! 4 = rx ! 4"
    by simp_all
  define t where "t = (if ?ins \<noteq> last_ins s then reset_app s else s)"
  let ?u = "t\<lparr>last_ins := ?ins\<rparr>"
  have t: "app_inv t" "quiet s t" using assms(2) reset_post by (auto simp: t_def)
  have u: "command_post s ?u"
  proof (cases "sign_state t = PENDING_REVIEW")
    case True
    then have "last_ins t = ?ins" by (auto simp: t_def split: if_splits)
    then have "?u = t" by simp
    then show ?thesis using t by simp
  next
    case False
    then show ?thesis using inv_last_ins [OF t(1)] t(2) quiet_trans by blast
  qed
  have start: "wp (handle_apdu sdk rx) Q E s =
     (if rx ! 0 \<noteq> CLA then Q () (s\<lparr>trace := trace s @ [Send_SW 0x6E00]\<rparr>)
      else wp (if ?ins = INS_GET_PUBLIC_KEY
               then handle_get_public_key sdk (rx ! 2) (rx ! 3) (drop 5 rx) (ucast (rx ! 4))
               else if ?ins = INS_SIGN then handle_sign sdk (rx ! 2) (rx ! 3) (drop 5 rx) (rx ! 4)
               else if ?ins = INS_GET_APP_CONFIGURATION then handle_get_app_configuration sdk
               else io_send_sw 0x6D00) Q E ?u)" for Q E
    using hd by (simp add: handle_apdu_def wp_CHECK wp_in_bounds wp_gets wp_modify wp_io_send_sw Let_def
        wp_if wp_return wp_reset t_def h [simplified] del: peek_eq_Some)
  have inv: "app_inv ?u" "last_ins ?u = ?ins" using u by simp_all
  have data: "length (drop 5 rx) = unat (rx ! 4)" using assms(4) by simp
  have q: "quiet s ?u" using u by simp
  show ?thesis
  proof (cases "rx ! 0 = CLA")
    case True
    consider "?ins = INS_GET_PUBLIC_KEY" | "?ins = INS_SIGN" | "?ins = INS_GET_APP_CONFIGURATION"
      | "?ins \<notin> {INS_GET_PUBLIC_KEY, INS_SIGN, INS_GET_APP_CONFIGURATION}" by blast
    then show ?thesis
    proof cases
      case 1
      then have "sign_state ?u \<noteq> PENDING_REVIEW" using inv by (auto simp: app_inv_def state_ok_def)
      then have "wp (handle_get_public_key sdk (rx ! 2) (rx ! 3) (drop 5 rx) (ucast (rx ! 4)))
          (\<lambda>_. command_post ?u) (command_exit sdk ?u) ?u"
        using inv data assms(1) by (intro wp_handle_get_public_key) simp_all
      from wp_after [OF q this] show ?thesis using True 1 by (simp add: start)
    next
      case 2
      then have "wp (handle_sign sdk (rx ! 2) (rx ! 3) (drop 5 rx) (rx ! 4))
          (\<lambda>_. command_post ?u) (command_exit sdk ?u) ?u"
        using inv data assms(1) by (intro wp_handle_sign) simp_all
      from wp_after [OF q this] show ?thesis using True 2 by (simp add: start)
    next
      case 3
      then show ?thesis using True u
        by (auto simp: start handle_get_app_configuration_def wp_io_send quiet_def split: prod.split)
    next
      case 4
      then show ?thesis using True u by (auto simp: start wp_io_send_sw quiet_def)
    qed
  next
    case False
    then show ?thesis using sends_sw [OF assms(2)] by (simp add: start)
  qed
qed

lemma wp_app_main_turn:
  assumes "sdk_contract sdk" and "app_inv s"
  shows "wp (app_main_turn sdk rx) (\<lambda>_. command_post s) (command_exit sdk s) s"
proof (cases "\<not> sdk_apdu_parser sdk rx \<or> length rx < OFFSET_CDATA")
  case True
  have "buffers_ok s" "screen_ok s" using assms(2) by (simp_all add: app_inv_def)
  then show ?thesis using True send_error_inv
    by (auto simp: app_main_turn_def wp_CHECK wp_reset wp_io_send_sw)
next
  case False
  then have "length rx = 5 + unat (rx ! 4)" using assms(1) unfolding sdk_contract_def by simp
  then show ?thesis using wp_handle_apdu [OF assms] False by (simp add: app_main_turn_def)
qed

section \<open>The user's actions\<close>

text \<open>
  What an answer of the user may do: agreeing to a review signs the transaction under review or,
  when the cryptography fails, leaves the app; if none is pending, nothing is signed. All other
  answers sign nothing.
\<close>

definition approved :: "'key sdk \<Rightarrow> app \<Rightarrow> app \<Rightarrow> bool" where
  "approved sdk s t \<longleftrightarrow> sign_state s = PENDING_REVIEW \<and>
     (\<exists>bytes. signature_value sdk (tmp_ctx s) (signed_bytes sdk s) = Some bytes \<and>
        trace t = trace s @ [signature_of sdk s, Send_Response bytes 0x9000])"

definition user_post :: "'key sdk \<Rightarrow> bool \<Rightarrow> app \<Rightarrow> app \<Rightarrow> bool" where
  "user_post sdk confirm s t \<longleftrightarrow> app_inv t \<and> G_called_from_swap t = G_called_from_swap s \<and>
     allow_blind_sign t = allow_blind_sign s \<and>
     (quiet s t \<or> (confirm \<and> (\<exists>b. screen s = Review b) \<and> approved sdk s t))"

definition user_exit :: "'key sdk \<Rightarrow> bool \<Rightarrow> app \<Rightarrow> stop \<Rightarrow> app \<Rightarrow> bool" where
  "user_exit sdk confirm s e t \<longleftrightarrow> e = Exited \<and> \<not> sdk_works sdk \<and> confirm \<and> sign_state s = PENDING_REVIEW \<and>
     (\<exists>b. screen s = Review b) \<and> (\<exists>tr. trace t = trace s @ tr \<and> (tr = [] \<or> tr = [signature_of sdk s]))"

lemma screen_inv:
  assumes "app_inv s" and "sign_state s \<noteq> PENDING_REVIEW"
    and "case d of Review b \<Rightarrow> False | Address_Review a \<Rightarrow> False | _ \<Rightarrow> True"
  shows "app_inv (s\<lparr>screen := d\<rparr>)"
  using assms
  by (auto simp: app_inv_def buffers_ok_def state_ok_def screen_ok_def collecting_def
      split: signState_e.splits screen.splits)

lemma wp_reviewChoice:
  assumes "sdk_contract sdk" and "app_inv s" and "screen s = Review b"
  shows "wp (reviewChoice sdk confirm) (\<lambda>_. user_post sdk confirm s) (user_exit sdk confirm s) s"
proof -
  have buf: "buffers_ok s" "screen_ok s" using assms(2) by (simp_all add: app_inv_def)
  have nosw: "\<not> G_called_from_swap s" using buf(2) assms(3) by (simp add: screen_ok_def)
  have status: "app_inv ((reset_app s)\<lparr>trace := tr, screen := Status x\<rparr>)" for tr x
    using screen_inv [of "(reset_app s)\<lparr>trace := tr\<rparr>" "Status x"] reset_inv [OF buf] by simp
  have late: "app_inv ((idle_app Idle_Menu (reset_app s))\<lparr>screen := Status x\<rparr>)" for x
    using screen_inv [of "idle_app Idle_Menu (reset_app s)" "Status x"] idle_app_inv [of "reset_app s" Idle_Menu]
      reset_inv [OF buf] by simp
  show ?thesis
  proof (cases confirm)
    case True
    show ?thesis
    proof (cases "sign_state s = PENDING_REVIEW")
      case pending: True
      then have pres: "presented b s" using assms(2,3) by (auto simp: app_inv_def state_ok_def)
      have "wp (sign_transaction sdk) (\<lambda>_ t. user_post sdk True s (t\<lparr>screen := Status Signed\<rparr>))
          (user_exit sdk True s) s"
      proof (rule wp_mono [OF wp_sign_transaction [OF assms(1) buf(1) pres pending]])
        fix t
        assume "signs sdk s t"
        then show "user_post sdk True s (t\<lparr>screen := Status Signed\<rparr>)"
          using status pending assms(3) by (auto simp: signs_def user_post_def approved_def)
      next
        fix e t
        assume "leaves_signing sdk s e t"
        then show "user_exit sdk True s e t"
          using pending assms(3) by (auto simp: leaves_signing_def user_exit_def)
      qed
      then show ?thesis
        using True by (simp add: reviewChoice_def on_approval_menu_result_def wp_CHECK wp_show_screen)
    next
      case False
      then show ?thesis
        using True late by (simp add: reviewChoice_def on_approval_menu_result_def wp_CHECK wp_show_screen
            wp_sign_transaction_late user_post_def quiet_def nosw)
    qed
  next
    case False
    then show ?thesis
      using status late nosw
      by (auto simp: reviewChoice_def on_approval_menu_result_def wp_CHECK wp_show_screen wp_reject_transaction
          user_post_def quiet_def)
  qed
qed

text \<open>The answer for the address shown.\<close>

lemma wp_confirmationChoice:
  assumes "app_inv s" and "screen s = Address_Review a"
  shows "wp (confirmationChoiceClbk confirm) (\<lambda>_ t. command_post s t \<and>
     trace t = trace s @ [if confirm then pubkey_response (pending_pubkey_ctx s) else Send_SW 0x6985])
     (\<lambda>_ _. False) s"
proof -
  have ok: "pubkey_ok (pending_pubkey_ctx s)" and st: "sign_state s \<noteq> PENDING_REVIEW"
    using assms by (auto simp: app_inv_def buffers_ok_def state_ok_def)
  have post: "command_post s (s\<lparr>pending_pubkey_ctx := zero_pubkey, pubkey_confirmation_pending := False, screen := Status x\<rparr>)" for x
    by (intro pubkey_inv [OF assms(1) st]) simp_all
  have order: "s\<lparr>pubkey_confirmation_pending := False, trace := tr, pending_pubkey_ctx := zero_pubkey,
        screen := Status x\<rparr> = s\<lparr>pending_pubkey_ctx := zero_pubkey, pubkey_confirmation_pending := False,
        screen := Status x, trace := tr\<rparr>"
    "s\<lparr>pubkey_confirmation_pending := False, pending_pubkey_ctx := zero_pubkey, trace := tr, screen := Status x\<rparr> =
      s\<lparr>pending_pubkey_ctx := zero_pubkey, pubkey_confirmation_pending := False, screen := Status x, trace := tr\<rparr>"
    for tr x by (cases s, simp)+
  have "command_post s (s\<lparr>pubkey_confirmation_pending := False, trace := trace s @ [e],
        pending_pubkey_ctx := zero_pubkey, screen := Status x\<rparr>)"
    "command_post s (s\<lparr>pubkey_confirmation_pending := False, pending_pubkey_ctx := zero_pubkey,
        trace := trace s @ [e], screen := Status x\<rparr>)" if "\<not> is_signature e" for e x
    unfolding order using that post [of x] by (simp_all add: quiet_def)
  then show ?thesis
    using ok by (auto simp: confirmationChoiceClbk_def on_address_confirmed_def on_address_rejected_def
        wp_CHECK wp_modify wp_show_screen wp_io_send_sw wp_set_result clear_pending_pubkey_def pubkey_response_def)
qed

section \<open>All events\<close>

text \<open>
  The setting changes only on a page of the menu, and there no review is on the screen.
\<close>

lemma wp_toggle:
  assumes "app_inv s" and "screen s = Idle_Menu \<or> screen s = Settings_Menu"
  shows "wp settings_controls_callback (\<lambda>_ t. app_inv t \<and> signatures t = signatures s \<and>
     G_called_from_swap t = G_called_from_swap s \<and>
     (G_called_from_swap s \<longrightarrow> approval_strings t = approval_strings s)) (\<lambda>_ _. False) s"
proof -
  have "app_inv (s\<lparr>switch_on := v, allow_blind_sign := w\<rparr>)" for v w
    using assms by (auto simp: app_inv_def buffers_ok_def state_ok_def screen_ok_def collecting_def
        split: signState_e.splits)
  then show ?thesis by (simp add: settings_controls_callback_def wp_modify Let_def)
qed

text \<open>What any event may do from a state that satisfies the invariant.\<close>

definition event_post :: "'key sdk \<Rightarrow> event \<Rightarrow> app \<Rightarrow> app \<Rightarrow> bool" where
  "event_post sdk e s t \<longleftrightarrow> app_inv t \<and> G_called_from_swap t = G_called_from_swap s \<and>
     (G_called_from_swap s \<longrightarrow> approval_strings t = approval_strings s) \<and>
     (signatures t = signatures s \<or>
      (e = User_Choice True \<and> (\<exists>b. screen s = Review b) \<and> approved sdk s t)) \<and>
     (e \<noteq> Toggle_Switch \<longrightarrow> allow_blind_sign t = allow_blind_sign s)"

definition event_exit :: "'key sdk \<Rightarrow> event \<Rightarrow> app \<Rightarrow> stop \<Rightarrow> app \<Rightarrow> bool" where
  "event_exit sdk e s x t \<longleftrightarrow> x = Exited \<and>
     ((G_called_from_swap s \<and> swap_exit sdk s t) \<or>
      (e = User_Choice True \<and> user_exit sdk True s x t))"

lemma idle_event:
  assumes "app_inv s" and "sign_state s \<noteq> PENDING_REVIEW" and "d = Idle_Menu \<or> d = Settings_Menu"
  shows "event_post sdk e s (idle_app d s)"
  using idle_app_inv [OF assms] by (simp add: event_post_def)

lemma not_pending: "app_inv s \<Longrightarrow> (\<forall>b. screen s \<noteq> Review b) \<Longrightarrow> sign_state s \<noteq> PENDING_REVIEW"
  by (auto simp: app_inv_def state_ok_def)

lemma wp_handle_event:
  assumes "sdk_contract sdk" and "app_inv s"
  shows "wp (handle_event sdk e) (\<lambda>_. event_post sdk e s) (event_exit sdk e s) s"
proof -
  have same: "event_post sdk e s s" for e using assms(2) by (simp add: event_post_def)
  show ?thesis
  proof (cases e)
    case (Command rx)
    have "wp (app_main_turn sdk rx) (\<lambda>_. event_post sdk e s) (event_exit sdk e s) s"
      by (rule wp_mono [OF wp_app_main_turn [OF assms]])
        (auto simp: event_post_def event_exit_def command_exit_def quiet_def)
    then show ?thesis by (simp add: Command)
  next
    case (User_Choice confirm)
    show ?thesis
    proof (cases "screen s")
      case (Review b)
      have "wp (reviewChoice sdk confirm) (\<lambda>_. event_post sdk e s) (event_exit sdk e s) s"
      proof (rule wp_mono [OF wp_reviewChoice [OF assms Review]])
        fix t
        assume "user_post sdk confirm s t"
        moreover have "\<not> G_called_from_swap s" using assms(2) Review by (simp add: app_inv_def screen_ok_def)
        ultimately show "event_post sdk e s t"
          by (auto simp: user_post_def event_post_def User_Choice quiet_def)
      qed (auto simp: event_exit_def user_exit_def User_Choice)
      then show ?thesis by (simp add: User_Choice wp_CHECK wp_gets Review)
    next
      case (Address_Review a)
      have "wp (confirmationChoiceClbk confirm) (\<lambda>_. event_post sdk e s) (event_exit sdk e s) s"
        by (rule wp_mono [OF wp_confirmationChoice [OF assms(2) Address_Review]])
          (auto simp: event_post_def quiet_def)
      then show ?thesis by (simp add: User_Choice wp_CHECK wp_gets Address_Review)
    next
      case Blind_Warning
      then show ?thesis
        using not_pending [OF assms(2)] idle_event [OF assms(2), where sdk = sdk]
        by (simp add: User_Choice wp_CHECK wp_gets ui_error_blind_signing_choice_def wp_display_idle_menu
            wp_display_settings_menu)
    qed (simp_all add: User_Choice wp_CHECK wp_gets wp_return same)
  next
    case Toggle_Switch
    show ?thesis
    proof (cases "screen s = Idle_Menu \<or> screen s = Settings_Menu")
      case True
      have "wp settings_controls_callback (\<lambda>_. event_post sdk e s) (event_exit sdk e s) s"
        by (rule wp_mono [OF wp_toggle [OF assms(2) True]]) (auto simp: event_post_def Toggle_Switch)
      then show ?thesis using True by (simp add: Toggle_Switch wp_CHECK wp_gets)
    next
      case False
      then show ?thesis using same by (simp add: Toggle_Switch wp_CHECK wp_gets wp_return)
    qed
  next
    case Status_Closed
    show ?thesis
    proof (cases "screen s")
      case (Status x)
      then show ?thesis
        using not_pending [OF assms(2)] idle_event [OF assms(2), where sdk = sdk]
        by (simp add: Status_Closed wp_CHECK wp_gets wp_display_idle_menu)
    qed (use same in \<open>simp_all add: Status_Closed wp_CHECK wp_gets wp_return\<close>)
  qed
qed

end
