(* ===== verification/Session_Runs.thy ===== *)
theory Session_Runs
  imports Session_Steps
begin

text \<open>
  Runs of the app: what a contract of the single events says of every sequence of them. The
  contract is a locale, discharged once by \<open>wp_handle_event\<close>; the last section holds the
  properties of whole runs.
\<close>

section \<open>The contract of an event handler\<close>

locale handler_contract =
  fixes handle :: "'c \<Rightarrow> 'e \<Rightarrow> unit act" and ok :: "'c \<Rightarrow> bool" and good :: "app \<Rightarrow> bool"
    and post :: "'c \<Rightarrow> 'e \<Rightarrow> app \<Rightarrow> app \<Rightarrow> bool" and leave :: "'c \<Rightarrow> 'e \<Rightarrow> app \<Rightarrow> app \<Rightarrow> bool"
  assumes keeps: "ok c \<Longrightarrow> good s \<Longrightarrow>
      wp (handle c e) (\<lambda>_. post c e s) (\<lambda>x t. x = Exited \<and> leave c e s t) s"
    and post_good: "post c e s t \<Longrightarrow> good t"
begin

lemma step_cases:
  assumes "ok c" and "good s" and "step (handle c) (Running s) e r"
  obtains (on) t where "r = Running t" "post c e s t" "good t"
    | (off) t where "r = Left t" "leave c e s t"
  using assms(3) on off wp_Inr [OF keeps [OF assms(1,2)]] wp_Inl [OF keeps [OF assms(1,2)]] post_good
  by (elim step_RunningE) (blast, blast, force)

text \<open>No event blocks a running app, and none runs out of a buffer.\<close>

lemma progress:
  assumes "ok c" and "good s"
  shows "\<exists>r. step (handle c) (Running s) e r \<and> (\<forall>t. r \<noteq> Wrong t)"
proof -
  obtain x t where "handle c e s = (x, t)" by (cases "handle c e s")
  then show ?thesis
    using wp_Inr [OF keeps [OF assms], of e] wp_Inl [OF keeps [OF assms], of e]
    by (cases x) (auto simp: step_Running)
qed

text \<open>
  A relation between the start and the current state that every event extends holds along the
  run; if the app has been left, it held when the last event came.
\<close>

lemma run_cases:
  assumes "ok c" and "good s" and start: "R [] s"
    and extend: "\<And>es e t u. good t \<Longrightarrow> R es t \<Longrightarrow> post c e t u \<Longrightarrow> R (es @ [e]) u"
    and run: "steps (handle c) (Running s) es r"
  shows "(\<exists>t. r = Running t \<and> good t \<and> R es t) \<or>
     (\<exists>es' e t u. es = es' @ [e] \<and> good t \<and> R es' t \<and> leave c e t u \<and> r = Left u)"
proof -
  have "r0 = Running s \<Longrightarrow> ?thesis" if "steps (handle c) r0 es r" for r0
    using that
  proof (induction rule: steps.induct)
    case (steps_nil r)
    then show ?case using assms(2) start by blast
  next
    case (steps_snoc r es r' e r'')
    then consider t where "r' = Running t" "good t" "R es t" | u where "r' = Left u" by blast
    then show ?case
    proof cases
      case 1
      with steps_snoc.hyps(2) have "step (handle c) (Running t) e r''" by simp
      with assms(1) \<open>good t\<close> show ?thesis
        by (cases rule: step_cases) (use 1 extend in blast)+
    next
      case 2
      then show ?thesis using steps_snoc.hyps(2) by auto
    qed
  qed
  with run show ?thesis by blast
qed

lemma run_good:
  assumes "ok c" and "good s" and "steps (handle c) (Running s) es (Running t)"
  shows "good t"
  using run_cases [OF assms(1,2), where R = "\<lambda>_ _. True"] assms(3) by blast

lemma run_never_wrong:
  assumes "ok c" and "good s" and "steps (handle c) (Running s) es r"
  shows "r \<noteq> Wrong t"
  using run_cases [OF assms(1,2), where R = "\<lambda>_ _. True"] assms(3) by blast

end

text \<open>What an event that leaves the app may have done.\<close>

definition event_leave :: "'key sdk \<Rightarrow> event \<Rightarrow> app \<Rightarrow> app \<Rightarrow> bool" where
  "event_leave sdk e s t \<longleftrightarrow>
     (G_called_from_swap s \<and> swap_exit sdk s t) \<or>
     (e = User_Choice True \<and> user_exit sdk True s Exited t)"

interpretation session: handler_contract handle_event sdk_contract app_inv event_post event_leave
proof
  fix sdk :: "'key sdk" and s e
  assume "sdk_contract sdk" and "app_inv s"
  from wp_handle_event [OF this] show "wp (handle_event sdk e) (\<lambda>_. event_post sdk e s)
      (\<lambda>x t. x = Exited \<and> event_leave sdk e s t) s"
    by (rule wp_mono) (auto simp: event_exit_def event_leave_def)
qed (simp add: event_post_def)

text \<open>The app as it starts satisfies the invariant.\<close>

lemma start_app_inv:
  assumes "\<forall>w. swap = Some w \<longrightarrow> swap_ok w"
  shows "app_inv (start_app swap setting)"
  using assms
  by (cases swap) (simp_all add: app_inv_def buffers_ok_def state_ok_def screen_ok_def start_app_def)

lemma start_app_simps [simp]:
  "signatures (start_app swap setting) = []" "G_called_from_swap (start_app swap setting) = (swap \<noteq> None)"
  "approval_strings (start_app (Some w) setting) = w" "sign_state (start_app swap setting) = IDLE"
  by (simp_all add: start_app_def signatures_def)

lemma running_swap:
  "app_inv s \<Longrightarrow> G_called_from_swap s \<Longrightarrow> \<not> approved sdk s t \<and> \<not> user_exit sdk c s e t"
  by (auto simp: app_inv_def state_ok_def approved_def user_exit_def)

abbreviation runs :: "'key sdk \<Rightarrow> app \<Rightarrow> event list \<Rightarrow> run_state \<Rightarrow> bool" where
  "runs sdk s \<equiv> steps (handle_event sdk) (Running s)"

lemma run_swap:
  assumes "sdk_contract sdk" and "swap_ok w" and "runs sdk (start_app (Some w) setting) es r"
  shows "(\<exists>t. r = Running t \<and> signatures t = []) \<or>
     (\<exists>t. r = Left t \<and> (signatures t = [] \<or> (\<exists>sig. signatures t = [sig] \<and> swap_signature sdk w sig)))"
proof -
  let ?R = "\<lambda>es t. G_called_from_swap t \<and> approval_strings t = w \<and> signatures t = []"
  have "(\<exists>t. r = Running t \<and> app_inv t \<and> ?R es t) \<or>
     (\<exists>es' e t u. es = es' @ [e] \<and> app_inv t \<and> ?R es' t \<and> event_leave sdk e t u \<and> r = Left u)"
  proof (rule session.run_cases [OF assms(1) _ _ _ assms(3)])
    show "app_inv (start_app (Some w) setting)" using assms(2) by (intro start_app_inv) simp
    show "?R (es @ [e]) u" if "app_inv t" "?R es t" "event_post sdk e t u" for es e t u
      using that running_swap [OF that(1)] by (auto simp: event_post_def)
  qed simp
  then show ?thesis using running_swap by (fastforce simp: event_leave_def swap_exit_def)
qed

lemma run_counts:
  assumes "sdk_contract sdk" and "runs sdk (start_app None setting) es r"
  shows "(\<exists>t. r = Running t \<and> app_inv t \<and> \<not> G_called_from_swap t \<and>
        length (signatures t) \<le> count_list es (User_Choice True)) \<or>
     (\<exists>t. r = Left t \<and> length (signatures t) \<le> count_list es (User_Choice True) \<and> \<not> sdk_works sdk)"
proof -
  let ?R = "\<lambda>es t. \<not> G_called_from_swap t \<and> length (signatures t) \<le> count_list es (User_Choice True)"
  have "(\<exists>t. r = Running t \<and> app_inv t \<and> ?R es t) \<or>
     (\<exists>es' e t u. es = es' @ [e] \<and> app_inv t \<and> ?R es' t \<and> event_leave sdk e t u \<and> r = Left u)"
  proof (rule session.run_cases [OF assms(1) _ _ _ assms(2)])
    show "app_inv (start_app None setting)" by (intro start_app_inv) simp
    show "?R (es @ [e]) u" if "app_inv t" "?R es t" "event_post sdk e t u" for es e t u
      using that by (auto simp: event_post_def approved_def signatures_def signature_of_def)
  qed simp
  then show ?thesis
    by (auto simp: event_leave_def user_exit_def signatures_def signature_of_def)
qed

end
