(* ===== verification/Packets.thy ===== *)
theory Packets
  imports Session_Runs
begin

text \<open>
  The dialogue of a host that sends one transaction in packets: what the app answers to each
  packet, and the state the last one leaves, for any way of cutting the transaction into packets.
\<close>

section \<open>Commands\<close>

definition apdu :: "u8 \<Rightarrow> u8 \<Rightarrow> u8 \<Rightarrow> u8 list \<Rightarrow> u8 list" where
  "apdu ins p1 p2 cdata = CLA # ins # p1 # p2 # of_nat (length cdata) # cdata"

text \<open>The SDK hands every command with the right length byte to the app.\<close>

definition accepts_commands :: "'key sdk \<Rightarrow> bool" where
  "accepts_commands sdk \<longleftrightarrow>
     (\<forall>rx. 5 \<le> length rx \<and> length rx = 5 + unat (rx ! 4) \<longrightarrow> sdk_apdu_parser sdk rx)"

text \<open>The first packet has the path; all but the last announce more.\<close>

fun later_packets :: "u8 \<Rightarrow> u8 list list \<Rightarrow> u8 list list" where
  "later_packets p2 [] = []"
| "later_packets p2 (ch # chs) = apdu INS_SIGN (if chs = [] then 0x01 else 0x81) p2 ch # later_packets p2 chs"

definition sign_packets :: "u8 \<Rightarrow> u32 list \<Rightarrow> u8 list \<Rightarrow> u8 list list \<Rightarrow> u8 list list" where
  "sign_packets p2 path ch chs =
     apdu INS_SIGN (if chs = [] then 0x00 else 0x80) p2 (of_nat (length path) # path_bytes path @ ch) #
     later_packets p2 chs"

text \<open>A way of cutting that fits: the packets and the buffer.\<close>

definition fitting :: "u32 list \<Rightarrow> u8 list \<Rightarrow> u8 list list \<Rightarrow> bool" where
  "fitting path ch chs \<longleftrightarrow> path \<noteq> [] \<and> length path \<le> MAX_BIP32_PATH \<and> 1 + 4 * length path + length ch \<le> 255 \<and>
     list_all (\<lambda>c. length c \<le> 255) chs \<and> prefix_length + length (concat (ch # chs)) \<le> MAX_RAW_TX"

lemma wp_ext:
  assumes "\<And>Q E. wp m Q E s = wp m' Q E s'"
  shows "m s = m' s'"
proof -
  have "wp m' (\<lambda>x t. m' s' = (Inr x, t)) (\<lambda>e t. m' s' = (Inl e, t)) s'"
    by (simp add: wp_def split: prod.split sum.split)
  with assms have "wp m (\<lambda>x t. m' s' = (Inr x, t)) (\<lambda>e t. m' s' = (Inl e, t)) s" by blast
  then show ?thesis by (auto simp: wp_def split: prod.splits sum.splits)
qed

lemma wp_exact: "(\<And>Q E. wp m Q E s = Q () t) \<Longrightarrow> m s = (Inr (), t)"
  using wp_False_conv [of m "\<lambda>_ u. u = t" s] by auto

lemma unat_length_u8 [simp]: "length xs \<le> 255 \<Longrightarrow> unat (of_nat (length xs) :: u8) = length xs"
  by (intro unat_of_nat_eq) simp

text \<open>A command reaches its handler; a command other than the last one resets the transaction.\<close>

definition entered :: "u8 \<Rightarrow> app \<Rightarrow> app" where
  "entered ins s = (if ins \<noteq> last_ins s then reset_app s else s)\<lparr>last_ins := ins\<rparr>"

lemma wp_command:
  assumes "accepts_commands sdk" and "length cdata \<le> 255"
  shows "wp (handle_event sdk (Command (apdu ins p1 p2 cdata))) Q E s =
     wp (if ins = INS_GET_PUBLIC_KEY then handle_get_public_key sdk p1 p2 cdata (of_nat (length cdata))
         else if ins = INS_SIGN then handle_sign sdk p1 p2 cdata (of_nat (length cdata))
         else if ins = INS_GET_APP_CONFIGURATION then handle_get_app_configuration sdk
         else io_send_sw 0x6D00) Q E (entered ins s)"
proof -
  have "sdk_apdu_parser sdk (apdu ins p1 p2 cdata)"
    using assms unfolding accepts_commands_def by (simp add: apdu_def)
  then have "\<not> (\<not> sdk_apdu_parser sdk (apdu ins p1 p2 cdata) \<or> length (apdu ins p1 p2 cdata) < 5)"
    by (simp add: apdu_def)
  moreover have "(ucast (of_nat (length cdata) :: u8) :: u16) = of_nat (length cdata)"
    using assms(2) by (metis of_nat_unat_cast unat_length_u8)
  ultimately show ?thesis
    by (simp add: handle_event.simps(1) app_main_turn_def handle_apdu_def wp_CHECK wp_in_bounds wp_gets wp_modify wp_if wp_reset
        wp_return Let_def apdu_def peek_def entered_def)
qed

declare handle_event.simps(1) [simp del]

section \<open>A transaction being received\<close>

definition agreed_swap :: "app \<Rightarrow> swapStrings_t option" where
  "agreed_swap s = (if G_called_from_swap s then Some (approval_strings s) else None)"

lemma agreed_swap_cong:
  "G_called_from_swap t = G_called_from_swap s \<Longrightarrow>
   (G_called_from_swap s \<Longrightarrow> approval_strings t = approval_strings s) \<Longrightarrow> agreed_swap t = agreed_swap s"
  by (simp add: agreed_swap_def)

lemma agreed_swap_None [simp]: "agreed_swap s = None \<longleftrightarrow> \<not> G_called_from_swap s"
  by (simp add: agreed_swap_def)

definition receiving :: "swapStrings_t option \<Rightarrow> cx_curve_t \<Rightarrow> u32 list \<Rightarrow> u8 \<Rightarrow> io list \<Rightarrow> u8 list \<Rightarrow> app \<Rightarrow> bool" where
  "receiving w curve path setting tr bs s \<longleftrightarrow> app_inv s \<and> parse_data s \<and> collecting s \<and> key_ok (tmp_ctx s) \<and>
     last_ins s = INS_SIGN \<and> agreed_swap s = w \<and> received s = bs \<and> tc_curve (tmp_ctx s) = curve \<and>
     key_path (tmp_ctx s) = path \<and> allow_blind_sign s = setting \<and> trace s = tr"

text \<open>
  What the last packet leads to: the parser's rejection or a transaction without room for the
  suffix is answered with an error, a blind one with the setting off with a refusal, and any
  other stands for review with nothing answered yet.
\<close>

definition refused :: "u16 \<Rightarrow> io list \<Rightarrow> app \<Rightarrow> bool" where
  "refused sw tr t \<longleftrightarrow> sign_state t = IDLE \<and> trace t = tr @ [Send_SW sw]"

definition under_review :: "bool \<Rightarrow> cx_curve_t \<Rightarrow> u32 list \<Rightarrow> u8 list \<Rightarrow> parseContext_t \<Rightarrow> app \<Rightarrow> bool" where
  "under_review blind curve path bs d t \<longleftrightarrow> sign_state t = PENDING_REVIEW \<and> screen t = Review blind \<and>
     parse_context t = d \<and> received t = bs \<and> tc_curve (tmp_ctx t) = curve \<and> key_path (tmp_ctx t) = path"

definition outcome :: "cx_curve_t \<Rightarrow> u32 list \<Rightarrow> u8 \<Rightarrow> io list \<Rightarrow> u8 list \<Rightarrow> app \<Rightarrow> bool" where
  "outcome curve path setting tr bs t \<longleftrightarrow>
     app_inv t \<and> \<not> G_called_from_swap t \<and> allow_blind_sign t = setting \<and> last_ins t = INS_SIGN \<and>
     (\<exists>x d. parse_tx (init_context bs (of_nat (length bs))) = Some (x, d) \<and>
       (if x \<noteq> Inr () \<and> x \<noteq> Inl BLIND_SIGN_REQUIRED
        then \<exists>n. err_code (projl x) = Some n \<and> refused (0x6800 OR (of_nat n AND 0x7FF)) tr t
        else if has_empty_pub_key d \<and> prefix_length + length bs + suffix_length > MAX_RAW_TX then refused 0x6700 tr t
        else if x = Inl BLIND_SIGN_REQUIRED \<and> setting = BlindSignDisabled
        then refused 0x6985 tr t \<and> screen t = Blind_Warning
        else under_review (x = Inl BLIND_SIGN_REQUIRED) curve path bs d t \<and> trace t = tr))"

lemma receiving_inv: "receiving w curve path setting tr bs s \<Longrightarrow> buffers_ok s \<and> screen_ok s"
  by (simp add: receiving_def app_inv_def)

lemma of_nat_received:
  "buffers_ok s \<Longrightarrow> collecting s \<Longrightarrow> of_nat (length (received s)) = ctx_length (parse_context s)"
  by (simp add: received_fits)

lemma receiving_chunk:
  assumes "receiving w curve path setting tr bs s" and "prefix_length + length bs + length ch \<le> MAX_RAW_TX"
  shows "buffers_ok (store_chunk ch s)" "collecting (store_chunk ch s)" "received (store_chunk ch s) = bs @ ch"
    "screen_ok (store_chunk ch s)"
proof -
  have s: "buffers_ok s" "collecting s" "received s = bs" "screen_ok s"
    using assms(1) by (simp_all add: receiving_def app_inv_def)
  have fit: "prefix_length + unat (ctx_length (parse_context s)) + length ch \<le> MAX_RAW_TX"
    using assms(2) received_fits [OF s(1,2)] s(3) by simp
  show "buffers_ok (store_chunk ch s)" "collecting (store_chunk ch s)" "received (store_chunk ch s) = bs @ ch"
    using store_chunk [OF s(1,2) fit] s(3) by simp_all
  show "screen_ok (store_chunk ch s)" using s(4) screen_ok_cong [of "store_chunk ch s" s] by simp
qed

lemma packet_more:
  assumes "receiving w curve path setting tr bs s" and "prefix_length + length bs + length ch \<le> MAX_RAW_TX"
    and "length ch \<le> 255" and "has_more p1"
  shows "\<exists>t. handle_packet_content sdk p1 ch (of_nat (length ch)) s = (Inr (), t) \<and>
     receiving w curve path setting (tr @ [Send_SW 0x9000]) (bs @ ch) t \<and> sign_state t = WAITING_FOR_MORE"
proof -
  let ?t = "(store_chunk ch s)\<lparr>sign_state := WAITING_FOR_MORE, trace := trace s @ [Send_SW 0x9000]\<rparr>"
  have s: "buffers_ok s" "collecting s" "received s = bs" "parse_data s"
    using assms(1) by (simp_all add: receiving_def app_inv_def)
  have n: "unat (of_nat (length ch) :: u8) \<le> length ch" using assms(3) by simp
  have "handle_packet_content sdk p1 ch (of_nat (length ch)) s = (Inr (), ?t)"
    using wp_packet_result [OF s(1,2,4) n, of sdk p1] assms(2-4) s(3) by (intro wp_exact) (simp add: Let_def)
  moreover have "screen_ok ?t = screen_ok (store_chunk ch s)" by (rule screen_ok_cong) simp_all
  then have "receiving w curve path setting (tr @ [Send_SW 0x9000]) (bs @ ch) ?t"
    using receiving_chunk [OF assms(1,2)] assms(1) agreed_swap_cong [of ?t s]
    by (simp add: receiving_def app_inv_def state_ok_def buffers_ok_def collecting_def received_def)
  ultimately show ?thesis by auto
qed

text \<open>The review of a transaction for a user.\<close>

lemma wp_review_result:
  assumes "\<not> G_called_from_swap s" and "sign_state s = PENDING_REVIEW"
  shows "wp (review_transaction sdk b) Q E s =
     (if b \<and> allow_blind_sign s = BlindSignDisabled
      then Q () ((reset_app (s\<lparr>screen := Blind_Warning\<rparr>))\<lparr>trace := trace s @ [Send_SW 0x6985]\<rparr>)
      else Q () (s\<lparr>screen := Review b\<rparr>))"
  using assms
  by (simp add: review_transaction_def wp_CHECK wp_gets wp_show_screen wp_reject_transaction
      display_review_menu_def display_blind_signed_review_def ui_error_blind_signing_def)

lemma present_outcome:
  assumes "sdk_contract sdk" and "buffers_ok s" and "collecting s" and "parse_data s" and "key_ok (tmp_ctx s)"
    and "screen_ok s" and "last_ins s = INS_SIGN" and "\<not> G_called_from_swap s"
  shows "\<exists>t. present_transaction sdk s = (Inr (), t) \<and>
     outcome (tc_curve (tmp_ctx s)) (key_path (tmp_ctx s)) (allow_blind_sign s) (trace s) (received s) t"
proof -
  obtain x d where parse: "parse_tx (init_context (received s) (ctx_length (parse_context s))) = Some (x, d)"
    and ends: "ends_well (init_context (received s) (ctx_length (parse_context s))) x d"
    using parse_outcome [OF assms(2,3)] .
  note result = wp_present_result [OF assms(2,3) parse ends, of sdk]
  note inv = wp_present_transaction [OF assms(1-7)]
  have parse': "parse_tx (init_context (received s) (of_nat (length (received s)))) = Some (x, d)"
    using parse of_nat_received [OF assms(2,3)] by simp
  have ends_so: ?thesis if "present_transaction sdk s = (Inr (), t)"
    and "app_inv t \<Longrightarrow> quiet s t \<Longrightarrow> outcome (tc_curve (tmp_ctx s)) (key_path (tmp_ctx s))
       (allow_blind_sign s) (trace s) (received s) t" for t
    using that wp_Inr [OF inv that(1)] by blast
  let ?fail = "\<lambda>sw. (reset_app s)\<lparr>trace := trace s @ [Send_SW sw]\<rparr>"
  show ?thesis
  proof (cases "x \<noteq> Inr () \<and> x \<noteq> Inl BLIND_SIGN_REQUIRED")
    case True
    then obtain e where e: "x = Inl e" by (cases x) auto
    then have "e \<noteq> BAD_ACCESS" using ends by (simp add: ends_well_def field_error_def)
    then obtain n where n: "err_code e = Some n" by (cases e) auto
    have "present_transaction sdk s = (Inr (), ?fail (0x6800 OR (of_nat n AND 0x7FF)))"
      using True e n by (intro wp_exact) (simp add: result Let_def)
    then show ?thesis
      by (rule ends_so) (use True e n parse' assms(7,8) in \<open>simp add: outcome_def refused_def\<close>)
  next
    case accepted: False
    show ?thesis
    proof (cases "has_empty_pub_key d \<and> prefix_length + length (received s) + suffix_length > MAX_RAW_TX")
      case True
      have "present_transaction sdk s = (Inr (), ?fail 0x6700)"
        using True accepted by (intro wp_exact) (auto simp: result Let_def)
      then show ?thesis
        by (rule ends_so) (use True accepted parse' assms(7,8) in \<open>auto simp: outcome_def refused_def\<close>)
    next
      case room: False
      define b where "b = (x = Inl BLIND_SIGN_REQUIRED)"
      have x: "x = (if b then Inl BLIND_SIGN_REQUIRED else Inr ())" using accepted by (auto simp: b_def)
      let ?p = "presented_app s d"
      have recv: "received ?p = received s"
        using presented_presented_app(2) [OF assms(2-5)] parse ends x room by (meson linorder_not_less)
      have start: "wp (present_transaction sdk) Q E s = wp (review_transaction sdk b) Q E ?p" for Q E
        using accepted room by (auto simp: result Let_def b_def)
      show ?thesis
      proof (cases "b \<and> allow_blind_sign s = BlindSignDisabled")
        case True
        have "present_transaction sdk s =
            (Inr (), (reset_app (?p\<lparr>screen := Blind_Warning\<rparr>))\<lparr>trace := trace s @ [Send_SW 0x6985]\<rparr>)"
          using True assms(8) by (intro wp_exact) (simp add: start wp_review_result)
        then show ?thesis
          by (rule ends_so) (use True room parse' x assms(7,8) in \<open>auto simp: outcome_def refused_def\<close>)
      next
        case False
        have "present_transaction sdk s = (Inr (), ?p\<lparr>screen := Review b\<rparr>)"
          using False assms(8) by (intro wp_exact) (auto simp: start wp_review_result)
        moreover have "received (?p\<lparr>screen := Review b\<rparr>) = received s" using recv by (simp add: received_def)
        ultimately show ?thesis
          by (elim ends_so) (use False room parse' x assms(7,8) in
            \<open>auto simp: outcome_def under_review_def\<close>)
      qed
    qed
  qed
qed

lemma packet_last:
  assumes "sdk_contract sdk" and "receiving None curve path setting tr bs s"
    and "prefix_length + length bs + length ch \<le> MAX_RAW_TX" and "length ch \<le> 255" and "\<not> has_more p1"
  shows "\<exists>t. handle_packet_content sdk p1 ch (of_nat (length ch)) s = (Inr (), t) \<and>
     outcome curve path setting tr (bs @ ch) t"
proof -
  let ?u = "store_chunk ch s"
  have s: "buffers_ok s" "collecting s" "received s = bs" "parse_data s"
    using assms(2) by (simp_all add: receiving_def app_inv_def)
  have n: "unat (of_nat (length ch) :: u8) \<le> length ch" using assms(4) by simp
  have start: "wp (handle_packet_content sdk p1 ch (of_nat (length ch))) Q E s = wp (present_transaction sdk) Q E ?u"
    for Q E using wp_packet_result [OF s(1,2,4) n, of sdk p1] assms(3-5) s(3) by (simp add: Let_def)
  note u = receiving_chunk [OF assms(2,3)]
  have "\<exists>t. present_transaction sdk ?u = (Inr (), t) \<and>
      outcome (tc_curve (tmp_ctx ?u)) (key_path (tmp_ctx ?u)) (allow_blind_sign ?u) (trace ?u) (received ?u) t"
    using assms(2) u by (intro present_outcome [OF assms(1)]) (simp_all add: receiving_def)
  then obtain t where t: "present_transaction sdk ?u = (Inr (), t)" "outcome curve path setting tr (bs @ ch) t"
    using assms(2) u by (auto simp: receiving_def)
  have "handle_packet_content sdk p1 ch (of_nat (length ch)) s = (Inr (), t)"
    using start wp_eq [where m = "present_transaction sdk" and s = ?u, OF t(1)] by (intro wp_exact) simp
  with t(2) show ?thesis by blast
qed

section \<open>The whole dialogue\<close>

text \<open>Runs from one running state to another, event by event.\<close>

lemma steps_append:
  "steps h r es r' \<Longrightarrow> steps h r' es' r'' \<Longrightarrow> steps h r (es @ es') r''"
proof (induction es' arbitrary: r'' rule: rev_induct)
  case Nil
  then show ?case by (auto elim: steps.cases)
next
  case (snoc e es')
  from snoc.prems(2) obtain q where "steps h r' es' q" "step h q e r''" by (auto elim: steps.cases)
  then show ?case using snoc.IH [OF snoc.prems(1)] steps_snoc [of h r "es @ es'"] by force
qed

lemma steps_Cons:
  assumes "h e s = (Inr (), t)" and "steps h (Running t) es r"
  shows "steps h (Running s) (e # es) r"
  using steps_append [OF steps_snoc [OF steps_nil step_on [where handle = h, OF assms(1)]] assms(2)] by simp

lemma entered_again: "last_ins s = ins \<Longrightarrow> entered ins s = s"
  by (simp add: entered_def)

lemma later_packet:
  assumes "accepts_commands sdk" and "receiving w curve path setting tr bs s" and "sign_state s = WAITING_FOR_MORE"
    and "length ch \<le> 255" and "\<not> is_first p1"
  shows "handle_event sdk (Command (apdu INS_SIGN p1 p2 ch)) s = handle_packet_content sdk p1 ch (of_nat (length ch)) s"
proof -
  have "last_ins s = INS_SIGN" using assms(2) by (simp add: receiving_def)
  then have "wp (handle_event sdk (Command (apdu INS_SIGN p1 p2 ch))) Q E s =
      wp (handle_packet_content sdk p1 ch (of_nat (length ch))) Q E s" for Q E
    using assms(3,5)
    by (simp add: wp_command [OF assms(1,4)] entered_again handle_sign_def handle_subsequent_packet_def
        wp_CHECK wp_gets)
  then show ?thesis by (rule wp_ext)
qed

text \<open>
  What the last packet makes of the state, and a way to prove it for the whole dialogue: \<open>Fin\<close> is
  the claim for what was sent before, the bytes, and where the run stands.
\<close>

fun run_result :: "(stop + unit) \<times> app \<Rightarrow> run_state" where
  "run_result (Inr _, t) = Running t"
| "run_result (Inl Exited, t) = Left t"
| "run_result (Inl Out_Of_Bounds, t) = Wrong t"

lemma step_run_result: "step h (Running s) e (run_result (h e s))"
  by (cases "h e s" rule: run_result.cases) (auto intro: step.intros)

definition last_packet_gives ::
  "'key sdk \<Rightarrow> swapStrings_t option \<Rightarrow> cx_curve_t \<Rightarrow> u32 list \<Rightarrow> u8 \<Rightarrow>
   (io list \<Rightarrow> u8 list \<Rightarrow> run_state \<Rightarrow> bool) \<Rightarrow> bool" where
  "last_packet_gives sdk w curve path setting Fin \<longleftrightarrow>
     (\<forall>s tr bs ch p1. receiving w curve path setting tr bs s \<and>
        prefix_length + length bs + length ch \<le> MAX_RAW_TX \<and> length ch \<le> 255 \<and> \<not> has_more p1 \<longrightarrow>
        Fin tr (bs @ ch) (run_result (handle_packet_content sdk p1 ch (of_nat (length ch)) s)))"

lemma steps_one: "step h r e r' \<Longrightarrow> steps h r [e] r'"
  using steps_snoc [OF steps_nil] by fastforce

lemma steps_singleD: "steps h r [e] r' \<Longrightarrow> step h r e r'"
  by (erule steps.cases) (auto simp: steps_Nil)

lemma later_dialogue:
  assumes "accepts_commands sdk" and "last_packet_gives sdk w curve path setting Fin"
    and "receiving w curve path setting tr bs s"
    and "sign_state s = WAITING_FOR_MORE" and "chs \<noteq> []" and "list_all (\<lambda>c. length c \<le> 255) chs"
    and "prefix_length + length bs + length (concat chs) \<le> MAX_RAW_TX"
  shows "\<exists>r. runs sdk s (map Command (later_packets p2 chs)) r \<and>
     Fin (tr @ replicate (length chs - 1) (Send_SW 0x9000)) (bs @ concat chs) r"
  using assms(3-)
proof (induction chs arbitrary: s tr bs)
  case (Cons ch chs)
  have fits: "length ch \<le> 255" "prefix_length + length bs + length ch \<le> MAX_RAW_TX" using Cons.prems by simp_all
  note deliver = later_packet [OF assms(1) Cons.prems(1,2) fits(1)]
  show ?case
  proof (cases "chs = []")
    case True
    have "\<not> has_more 1" by (simp add: has_more_def)
    then have "Fin tr (bs @ ch) (run_result (handle_packet_content sdk 1 ch (of_nat (length ch)) s))"
      using assms(2) Cons.prems(1) fits unfolding last_packet_gives_def by blast
    moreover have "runs sdk s [Command (apdu INS_SIGN 1 p2 ch)]
        (run_result (handle_packet_content sdk 1 ch (of_nat (length ch)) s))"
      using steps_one [OF step_run_result [of "handle_event sdk" s "Command (apdu INS_SIGN 1 p2 ch)"]]
        deliver [of 1 p2] by (simp add: is_first_def)
    ultimately show ?thesis using True by auto
  next
    case False
    obtain u where "handle_packet_content sdk 0x81 ch (of_nat (length ch)) s = (Inr (), u)"
      and u: "receiving w curve path setting (tr @ [Send_SW 0x9000]) (bs @ ch) u" "sign_state u = WAITING_FOR_MORE"
      using packet_more [OF Cons.prems(1) fits(2,1), of "0x81"] by (auto simp: has_more_def)
    then have one: "handle_event sdk (Command (apdu INS_SIGN 0x81 p2 ch)) s = (Inr (), u)"
      using deliver [of "0x81"] by (simp add: is_first_def)
    obtain r where "runs sdk u (map Command (later_packets p2 chs)) r"
      "Fin ((tr @ [Send_SW 0x9000]) @ replicate (length chs - 1) (Send_SW 0x9000)) ((bs @ ch) @ concat chs) r"
      using Cons.IH [OF u False] Cons.prems by (auto simp: add.assoc)
    then show ?thesis
      using one False steps_Cons [where h = "handle_event sdk", OF one]
      by (cases chs) (auto intro!: exI [of _ r])
  qed
qed simp

lemma entered_simps [simp]:
  "last_ins (entered i s) = i" "trace (entered i s) = trace s" "allow_blind_sign (entered i s) = allow_blind_sign s"
  "G_called_from_swap (entered i s) = G_called_from_swap s"
  by (simp_all add: entered_def)

lemma keyed_tmp_ctx [simp]:
  "tmp_ctx (keyed_app s path n c) = zero_tmp_ctx\<lparr>bip32_path := path, path_length := n, tc_curve := c\<rparr>"
  by (simp add: keyed_app_def set_tmp_ctx_def)

lemma parse_path_bytes:
  assumes "path \<noteq> []" and "length path \<le> MAX_BIP32_PATH" and "4 * length path \<le> n"
  shows "parse_bip32_path (path_bytes path @ rest) (length path) n (replicate MAX_BIP32_PATH 0) MAX_BIP32_PATH =
     Some (True, path @ replicate (MAX_BIP32_PATH - length path) 0)"
  using assms path_loop_bytes [of 0 path "replicate 10 0" "length path" rest]
  by (simp add: parse_bip32_path_def Suc_le_eq)

lemma first_packet:
  assumes "accepts_commands sdk" and "app_inv s" and "sign_state s = IDLE"
    and "path \<noteq> []" and "length path \<le> MAX_BIP32_PATH" and "1 + 4 * length path + length ch \<le> 255"
    and "curve_of p2 = Some curve" and "is_first p1"
  obtains u where "handle_event sdk (Command (apdu INS_SIGN p1 p2 (of_nat (length path) # path_bytes path @ ch))) s =
      handle_packet_content sdk p1 ch (of_nat (length ch)) u"
    and "receiving (agreed_swap s) curve path (allow_blind_sign s) (trace s) [] u"
proof -
  let ?n = "length path" and ?w = "path_bytes path @ ch"
  let ?data = "of_nat ?n # ?w" and ?s = "entered INS_SIGN s"
  let ?path = "path @ replicate (MAX_BIP32_PATH - ?n) 0"
  let ?u = "keyed_app ?s ?path (of_nat ?n) curve"
  have n: "unat (of_nat ?n :: u8) = ?n" using assms(5) by (intro unat_of_nat_eq) simp
  have len: "length ?data = Suc (4 * ?n + length ch)" by simp
  then have le: "length ?data \<le> 255" using assms(6) by simp
  have m: "unat (of_nat (length ?data) :: u8) = length ?data" by (rule unat_length_u8 [OF le])
  have parse: "parse_bip32_path (drop 1 ?data) (unat (of_nat ?n :: u8)) (unat (of_nat (length ?data) :: u8) - 1)
      (replicate MAX_BIP32_PATH 0) MAX_BIP32_PATH = Some (True, ?path)"
    using parse_path_bytes [OF assms(4,5), of "4 * ?n + length ch" ch]
    by (simp add: m [unfolded len] n len del: of_nat_Suc)
  have ok: "True \<longleftrightarrow> 1 \<le> unat (of_nat ?n :: u8) \<and> unat (of_nat ?n :: u8) \<le> MAX_BIP32_PATH \<and>
      4 * unat (of_nat ?n :: u8) \<le> unat (of_nat (length ?data) :: u8) - 1"
    using assms(4,5) n m len by (simp add: Suc_le_eq del: of_nat_Suc)
  have rest: "of_nat (length ?data) - 1 - 4 * of_nat ?n = (of_nat (length ch) :: u8)"
    by (simp add: len)
  have s: "sign_state ?s = IDLE" using assms(3) by (simp add: entered_def)
  have "wp (handle_event sdk (Command (apdu INS_SIGN p1 p2 ?data))) Q E s =
      wp (handle_packet_content sdk p1 ch (of_nat (length ch))) Q E ?u" for Q E
  proof -
    have "wp (handle_event sdk (Command (apdu INS_SIGN p1 p2 ?data))) Q E s =
        wp (handle_first_packet sdk p1 p2 ?data (of_nat (length ?data))) Q E ?s"
      using s by (simp add: wp_command [OF assms(1) le] handle_sign_def wp_CHECK wp_gets)
    also have "\<dots> = wp (handle_packet_content sdk p1 (drop (4 * unat (of_nat ?n :: u8)) (drop 1 ?data))
        (of_nat (length ?data) - 1 - 4 * of_nat ?n)) Q E ?u"
      using wp_first_packet_result [OF assms(8) _ _ _ ok parse, of sdk p2 Q E ?s] assms(7) m len
      by (simp add: Let_def del: of_nat_Suc)
    finally show ?thesis unfolding rest n by simp
  qed
  then have "handle_event sdk (Command (apdu INS_SIGN p1 p2 ?data)) s =
      handle_packet_content sdk p1 ch (of_nat (length ch)) ?u" by (rule wp_ext)
  moreover have "app_inv ?s"
    using inv_last_ins [of "if INS_SIGN \<noteq> last_ins s then reset_app s else s" INS_SIGN] assms(2,3) reset_post [OF assms(2)]
    by (auto simp: entered_def split: if_splits)
  then have "buffers_ok ?s" "screen_ok ?s" by (simp_all add: app_inv_def)
  have agreed: "agreed_swap ?u = agreed_swap s"
    by (rule agreed_swap_cong) (simp_all add: keyed_app_def entered_def set_tmp_ctx_def)
  from keyed_app [OF \<open>buffers_ok ?s\<close> \<open>screen_ok ?s\<close>, of ?path "of_nat ?n" curve] have "receiving (agreed_swap s) curve path (allow_blind_sign s) (trace s) [] ?u"
    using assms(4,5) n curve_of_ok [OF assms(7)]
    by (simp add: receiving_def app_inv_def key_ok_def Suc_le_eq agreed)
  ultimately show thesis by (rule that)
qed

text \<open>
  Any way of cutting a transaction into packets leads to the same end: the bytes are joined in
  order, every packet but the last is acknowledged with 0x9000.
\<close>

lemma whole_dialogue:
  assumes "accepts_commands sdk" and "app_inv s" and "sign_state s = IDLE"
    and "fitting path ch chs" and "curve_of p2 = Some curve"
    and gives: "last_packet_gives sdk (agreed_swap s) curve path (allow_blind_sign s) Fin"
  obtains r where "runs sdk s (map Command (sign_packets p2 path ch chs)) r"
    and "Fin (trace s @ replicate (length chs) (Send_SW 0x9000)) (concat (ch # chs)) r"
proof -
  let ?p1 = "if chs = [] then 0x00 else 0x80 :: u8"
  let ?first = "apdu INS_SIGN ?p1 p2 (of_nat (length path) # path_bytes path @ ch)"
  have fit: "path \<noteq> []" "length path \<le> MAX_BIP32_PATH" "1 + 4 * length path + length ch \<le> 255"
    "list_all (\<lambda>c. length c \<le> 255) chs" "prefix_length + length ch + length (concat chs) \<le> MAX_RAW_TX"
    using assms(4) by (simp_all add: fitting_def)
  have le: "length ch \<le> 255" "prefix_length + length [] + length ch \<le> MAX_RAW_TX" using fit by simp_all
  have first: "is_first ?p1" by (simp add: is_first_def)
  obtain u where start: "handle_event sdk (Command ?first) s = handle_packet_content sdk ?p1 ch (of_nat (length ch)) u"
    and u: "receiving (agreed_swap s) curve path (allow_blind_sign s) (trace s) [] u"
    using first_packet [OF assms(1-3) fit(1-3) assms(5) first] .
  show thesis
  proof (cases "chs = []")
    case True
    then have "\<not> has_more ?p1" by (simp add: has_more_def)
    with gives u le have "Fin (trace s) ([] @ ch) (run_result (handle_packet_content sdk ?p1 ch (of_nat (length ch)) u))"
      unfolding last_packet_gives_def by blast
    moreover have "runs sdk s [Command ?first] (run_result (handle_event sdk (Command ?first) s))"
      by (intro steps_one step_run_result)
    ultimately show thesis using start True by (intro that) (simp_all add: sign_packets_def)
  next
    case False
    obtain v where one: "handle_packet_content sdk ?p1 ch (of_nat (length ch)) u = (Inr (), v)"
      and v: "receiving (agreed_swap s) curve path (allow_blind_sign s) (trace s @ [Send_SW 0x9000]) ([] @ ch) v"
        "sign_state v = WAITING_FOR_MORE"
      using packet_more [OF u le(2,1), of ?p1 sdk] False by (auto simp: has_more_def)
    obtain r where rest: "runs sdk v (map Command (later_packets p2 chs)) r"
      and out: "Fin ((trace s @ [Send_SW 0x9000]) @ replicate (length chs - 1) (Send_SW 0x9000)) (([] @ ch) @ concat chs) r"
      using later_dialogue [OF assms(1) gives v False fit(4)] fit(5) by auto
    have "runs sdk s (map Command (sign_packets p2 path ch chs)) r"
      using steps_Cons [where h = "handle_event sdk", OF _ rest, of _ s] start one False
      by (simp add: sign_packets_def)
    moreover have "(trace s @ [Send_SW 0x9000]) @ replicate (length chs - 1) (Send_SW 0x9000) =
        trace s @ replicate (length chs) (Send_SW 0x9000)"
      using False by (cases chs) simp_all
    ultimately show thesis using out by (intro that) simp_all
  qed
qed

lemma dialogue:
  assumes "sdk_contract sdk" and "accepts_commands sdk" and "app_inv s" and "sign_state s = IDLE"
    and "\<not> G_called_from_swap s" and "fitting path ch chs" and "curve_of p2 = Some curve"
  obtains t where "runs sdk s (map Command (sign_packets p2 path ch chs)) (Running t)"
    and "outcome curve path (allow_blind_sign s) (trace s @ replicate (length chs) (Send_SW 0x9000))
      (concat (ch # chs)) t"
proof -
  let ?Fin = "\<lambda>tr bs r. \<exists>t. r = Running t \<and> outcome curve path (allow_blind_sign s) tr bs t"
  have "agreed_swap s = None" using assms(5) by simp
  then have "last_packet_gives sdk (agreed_swap s) curve path (allow_blind_sign s) ?Fin"
    unfolding last_packet_gives_def using packet_last [OF assms(1)] by (metis run_result.simps(1))
  from whole_dialogue [OF assms(2-4,6,7) this] that show thesis by blast
qed

section \<open>The command for a key\<close>

definition key_command :: "u8 \<Rightarrow> u8 \<Rightarrow> u32 list \<Rightarrow> u8 list" where
  "key_command p1 p2 path = apdu INS_GET_PUBLIC_KEY p1 p2 (of_nat (length path) # path_bytes path)"

lemma wp_key_command:
  assumes "accepts_commands sdk" and "sdk_contract sdk" and "\<not> pubkey_confirmation_pending s"
    and "path \<noteq> []" and "length path \<le> MAX_BIP32_PATH"
    and "curve_of p2 = Some curve" and "p2 AND 0x3F = (if ch then P2_CHAINCODE else P2_NO_CHAINCODE)"
    and "sdk_pubkey sdk curve path = (0, W, chain)" and "p1 = P1_CONFIRM \<or> p1 = P1_NON_CONFIRM"
    and addr: "get_address sdk curve W (address zero_pubkey) = Some addr"
      "length addr = XRP_ADDRESS_SIZE" "NUL \<in> set addr" "cstr addr \<noteq> []"
  shows "wp (handle_event sdk (Command (key_command p1 p2 path))) Q E s =
    (let s = entered INS_GET_PUBLIC_KEY s; ctx = (key_ctx curve W chain ch)\<lparr>address := addr\<rparr> in
     if p1 = P1_NON_CONFIRM
     then Q () (s\<lparr>pending_pubkey_ctx := zero_pubkey, trace := trace s @ [pubkey_response ctx]\<rparr>)
     else Q () (s\<lparr>pending_pubkey_ctx := ctx, pubkey_confirmation_pending := True,
                 screen := Address_Review (cstr addr)\<rparr>))"
proof -
  let ?n = "length path" and ?s = "entered INS_GET_PUBLIC_KEY s"
  let ?data = "of_nat ?n # path_bytes path"
  have n: "unat (of_nat ?n :: u8) = ?n" using assms(5) by (intro unat_of_nat_eq) simp
  have le: "length ?data \<le> 255" using assms(5) by simp
  have m: "unat (of_nat (length ?data) :: u16) = length ?data" using assms(5) by (intro unat_of_nat_eq) simp
  then have m1: "unat (of_nat (length ?data) - 1 :: u16) = 4 * ?n"
    using unat_dec [of "of_nat (length ?data) :: u16"] by simp
  have nz: "\<not> (of_nat (length ?data) :: u16) < 1" using m by (simp add: word_less_nat_alt del: of_nat_Suc)
  have l: "length W = 65" "length chain = 32"
    using assms(2,8) unfolding sdk_contract_def by (metis fst_conv snd_conv)+
  have gk: "get_public_key sdk curve (drop 1 ?data) (unat (of_nat ?n :: u8))
      (unat (of_nat (length ?data) - 1 :: u16)) = Some (0, Some (W, chain))"
    unfolding m1 n get_public_key_def
    using parse_path_bytes [OF assms(4,5), of "4 * ?n" "[]"] assms(8) by simp
  have np: "\<not> pubkey_confirmation_pending ?s" using assms(3) by (simp add: entered_def)
  have hd: "peek ?data 0 1 = Some [of_nat ?n]" by (simp add: peek_def)
  have short: "length (cstr addr) \<le> 41"
    using addr(2) length_takeWhile_le [of "\<lambda>c. c \<noteq> NUL" addr] by (simp add: cstr_def)
  have "wp (handle_event sdk (Command (key_command p1 p2 path))) Q E s =
      wp (handle_get_public_key sdk p1 p2 ?data (of_nat (length ?data))) Q E ?s"
    unfolding key_command_def wp_command [OF assms(1) le] by simp
  then show ?thesis
    unfolding wp_pubkey_result [OF nz np hd assms(6) gk l addr(1-3)]
    using assms(7,9) addr(4) short by (auto simp: Let_def)
qed

section \<open>The answer to a review\<close>

text \<open>
  Agreeing to the transaction under review signs it, when the cryptography works: the signature
  is of the prefix, the bytes reviewed and, for a multi-signature, the signer's hash.
\<close>

lemma approve:
  assumes "sdk_contract sdk" and "sdk_works sdk" and "app_inv s" and "sign_state s = PENDING_REVIEW"
  obtains t bytes where "handle_event sdk (User_Choice True) s = (Inr (), t)"
    and "signature_value sdk (tmp_ctx s) (signed_bytes sdk s) = Some bytes"
    and "trace t = trace s @ [signature_of sdk s, Send_Response bytes 0x9000]"
    and "sign_state t = IDLE" and "screen t = Status Signed"
proof -
  obtain b where b: "screen s = Review b" "presented b s" and buf: "buffers_ok s"
    using assms(3,4) by (auto simp: app_inv_def state_ok_def)
  obtain t where t: "sign_transaction sdk s = (Inr (), t)" and signs: "signs sdk s t"
  proof -
    obtain x u where u: "sign_transaction sdk s = (x, u)" by (cases "sign_transaction sdk s")
    show thesis
      using wp_sign_transaction [OF assms(1) buf b(2) assms(4)] u assms(2) that
      by (cases x) (auto simp: wp_def leaves_signing_def)
  qed
  have "handle_event sdk (User_Choice True) s = (Inr (), t\<lparr>screen := Status Signed\<rparr>)"
    using b(1) t
    by (simp add: CHECK_def gets_def reviewChoice_def on_approval_menu_result_def show_screen_def modify_def)
  then show thesis using signs by (auto simp: signs_def intro: that)
qed

text \<open>Declining it, or answering a review whose transaction is gone, signs nothing.\<close>

lemma stale_review:
  assumes "screen s = Review b" and "sign_state s \<noteq> PENDING_REVIEW"
  shows "handle_event sdk (User_Choice True) s =
     (Inr (), (idle_app Idle_Menu (reset_app s))\<lparr>screen := Status Signed\<rparr>)"
  using assms
  by (intro wp_exact) (simp add: wp_CHECK wp_gets reviewChoice_def on_approval_menu_result_def wp_show_screen
      wp_sign_transaction_late)

end
