(* ===== verification/Pubkey_Stuck.thy ===== *)
theory Pubkey_Stuck
  imports Packets
begin

text \<open>
  What stays true whatever the app does next. A frame is a state predicate with the rules that
  carry it through the building blocks of the handlers; it is used for an address review that
  another screen has replaced.
\<close>

section \<open>Frames\<close>

definition preserves :: "(app \<Rightarrow> bool) \<Rightarrow> 'a act \<Rightarrow> bool" where
  "preserves P m \<longleftrightarrow> (\<forall>s. P s \<longrightarrow> wp m (\<lambda>_. P) (\<lambda>_. P) s)"

named_theorems frame \<open>rules that carry a frame through a handler\<close>

lemma preservesI: "(\<And>s. P s \<Longrightarrow> wp m (\<lambda>_. P) (\<lambda>_. P) s) \<Longrightarrow> preserves P m"
  by (simp add: preserves_def)

lemma preservesD: "preserves P m \<Longrightarrow> P s \<Longrightarrow> wp m (\<lambda>_. P) (\<lambda>_. P) s"
  by (simp add: preserves_def)

lemma preserves_CHECK [frame]: "preserves P m \<Longrightarrow> (\<And>x. preserves P (k x)) \<Longrightarrow> preserves P (CHECK m k)"
  unfolding preserves_def wp_CHECK by (blast intro: wp_mono)

lemma preserves_pure [frame]:
  "preserves P (return x)" "preserves P (throw e)" "preserves P (gets f)" "preserves P (in_bounds v)"
  by (simp_all add: preserves_def wp_rules split: option.split)

lemma preserves_if [frame]:
  "preserves P m \<Longrightarrow> preserves P m' \<Longrightarrow> preserves P (if b then m else m')"
  by simp

lemma preserves_option [frame]:
  "preserves P m \<Longrightarrow> (\<And>x. preserves P (k x)) \<Longrightarrow> preserves P (case v of None \<Rightarrow> m | Some x \<Rightarrow> k x)"
  by (simp split: option.split)

lemma preserves_case_prod [frame]: "(\<And>x y. preserves P (k x y)) \<Longrightarrow> preserves P (case v of (x, y) \<Rightarrow> k x y)"
  by (simp split: prod.split)

lemma preserves_Let [frame]: "preserves P (k v) \<Longrightarrow> preserves P (let x = v in k x)"
  by simp

lemma preserves_provided [frame]: "preserves P m \<Longrightarrow> preserves P (provided v m)"
  unfolding provided_def by (intro frame)

text \<open>
  The frames here look only at the address confirmation and the screen: the signing code keeps
  them, and so does every screen it shows.
\<close>

locale pubkey_frame =
  fixes P :: "app \<Rightarrow> bool"
  assumes looks: "pubkey_confirmation_pending t = pubkey_confirmation_pending s \<Longrightarrow> screen t = screen s \<Longrightarrow> P s \<Longrightarrow> P t"
    and other_screen: "P s \<Longrightarrow> (\<forall>a. d \<noteq> Address_Review a) \<Longrightarrow> P (s\<lparr>screen := d\<rparr>)"
begin

lemma modify_frame:
  "(\<And>s. pubkey_confirmation_pending (f s) = pubkey_confirmation_pending s) \<Longrightarrow> (\<And>s. screen (f s) = screen s) \<Longrightarrow>
   preserves P (modify f)"
  using looks by (auto simp: preserves_def wp_rules)

lemma io_frame: "preserves P (io_send e)" "preserves P (io_send_sw sw)"
  by (auto simp: io_send_def io_send_sw_def intro!: modify_frame)

lemma screen_frame: "\<forall>a. d \<noteq> Address_Review a \<Longrightarrow> preserves P (show_screen d)"
  using other_screen by (simp add: preserves_def wp_rules)

lemma reset_frame: "preserves P reset_transaction_context" "preserves P (send_error sw)"
  unfolding send_error_def reset_transaction_context_def by (intro frame modify_frame io_frame; simp)+

lemma menu_frame: "preserves P display_idle_menu" "preserves P display_settings_menu"
    "preserves P settings_controls_callback"
  unfolding display_idle_menu_def display_settings_menu_def set_switches_states_def settings_controls_callback_def
  by (intro frame modify_frame screen_frame; simp add: Let_def)+

lemma sign_frame: "preserves P (sign_transaction sdk)" "preserves P reject_transaction"
  unfolding sign_transaction_def reject_transaction_def sign_raw_tx_def append_suffix_def make_signature_def
  by (intro frame modify_frame io_frame reset_frame menu_frame; simp add: set_tmp_ctx_def)+

lemma review_frame: "preserves P (review_transaction sdk b)"
  unfolding review_transaction_def check_swap_conditions_and_sign_def finalize_exchange_sign_transaction_def
    display_review_menu_def display_blind_signed_review_def ui_error_blind_signing_def
  by (intro frame modify_frame io_frame sign_frame screen_frame; simp)

lemma packet_frame: "preserves P (handle_packet_content sdk p1 w n)"
  unfolding handle_packet_content_def present_transaction_def parse_received_def set_prefix_def
  by (intro frame modify_frame io_frame reset_frame review_frame; simp add: set_tmp_ctx_def)

lemma sign_command_frame: "preserves P (handle_sign sdk p1 p2 w n)"
proof -
  have first: "preserves P (handle_first_packet sdk p1 p2 w n)"
    unfolding handle_first_packet_def
    by (intro frame modify_frame io_frame reset_frame packet_frame; simp add: set_tmp_ctx_def)
  have later: "preserves P (handle_subsequent_packet sdk p1 w n)"
    unfolding handle_subsequent_packet_def by (intro frame io_frame packet_frame)
  show ?thesis
    unfolding handle_sign_def
    using first later io_frame by (intro preserves_CHECK preserves_pure) (simp split: signState_e.split)
qed

lemma sign_apdu_frame:
  assumes "accepts_commands sdk" and "length cdata \<le> 255"
  shows "preserves P (handle_event sdk (Command (apdu INS_SIGN p1 p2 cdata)))"
proof (rule preservesI)
  fix s
  assume s: "P s"
  have "P (entered INS_SIGN s)" by (rule looks [OF _ _ s]) (simp_all add: entered_def)
  from preservesD [OF sign_command_frame this]
  show "wp (handle_event sdk (Command (apdu INS_SIGN p1 p2 cdata))) (\<lambda>_. P) (\<lambda>_. P) s"
    by (simp add: wp_command [OF assms])
qed

lemma review_choice_frame: "preserves P (reviewChoice sdk c)"
  unfolding reviewChoice_def on_approval_menu_result_def by (intro frame sign_frame screen_frame; simp)

end

section \<open>An address review replaced by another screen\<close>

text \<open>
  A second command may start a review while the address is on the display. The answer for the
  address can then no longer be given, but the flag that waits for it stays set.
\<close>

definition stuck :: "app \<Rightarrow> bool" where
  "stuck s \<longleftrightarrow> pubkey_confirmation_pending s \<and> (\<forall>a. screen s \<noteq> Address_Review a)"

interpretation stuck: pubkey_frame stuck
  by unfold_locales (auto simp: stuck_def)

interpretation pending: pubkey_frame pubkey_confirmation_pending
  by unfold_locales auto

lemma stuck_pubkey_command: "preserves stuck (handle_get_public_key sdk p1 p2 w n)"
  by (rule preservesI) (auto simp: handle_get_public_key_def wp_CHECK wp_gets wp_io_send_sw stuck_def)

lemma stuck_turn: "preserves stuck (app_main_turn sdk rx)"
  unfolding app_main_turn_def handle_apdu_def handle_get_app_configuration_def
  by (intro frame stuck.modify_frame stuck.io_frame stuck.reset_frame stuck_pubkey_command
      stuck.sign_command_frame; simp)

lemma stuck_event: "preserves stuck (handle_event sdk e)"
proof (cases e)
  case (Command rx)
  then show ?thesis using stuck_turn [of sdk rx] by (simp add: handle_event.simps(1))
next
  case (User_Choice c)
  show ?thesis
  proof (rule preservesI)
    fix s
    assume s: "stuck s"
    then have no: "screen s \<noteq> Address_Review a" for a by (simp add: stuck_def)
    show "wp (handle_event sdk e) (\<lambda>_. stuck) (\<lambda>_. stuck) s"
      using s no preservesD [OF stuck.review_choice_frame s] preservesD [OF stuck.menu_frame(1) s]
        preservesD [OF stuck.menu_frame(2) s]
      by (cases "screen s") (auto simp: User_Choice wp_CHECK wp_gets wp_return ui_error_blind_signing_choice_def)
  qed
next
  case Toggle_Switch
  then show ?thesis by (auto intro!: frame stuck.menu_frame)
next
  case Status_Closed
  then show ?thesis by (auto intro!: frame stuck.menu_frame split: screen.split)
qed

lemma stuck_runs:
  assumes "stuck s" and "runs sdk s es (Running t)"
  shows "stuck t"
proof -
  have "r0 = Running s \<Longrightarrow> (case r of Running u \<Rightarrow> stuck u | _ \<Rightarrow> True)"
    if "steps (handle_event sdk) r0 es r" for r0 r
    using that
  proof (induction rule: steps.induct)
    case (steps_snoc r es r' e r'')
    then show ?case
      using wp_Inr [OF preservesD [OF stuck_event]] by (cases r') (auto elim!: step_RunningE)
  qed (use assms(1) in auto)
  with assms(2) show ?thesis by force
qed

text \<open>How it comes about: an address under review, then a transaction in one packet.\<close>

lemma review_replaces_address:
  assumes "sdk_contract sdk" and "accepts_commands sdk" and "app_inv s" and "\<not> G_called_from_swap s"
    and "pubkey_confirmation_pending s" and "sign_state s = IDLE"
    and "fitting path bs []" and "curve_of p2 = Some curve"
    and "parse_tx (init_context bs (of_nat (length bs))) = Some (Inr (), d)" and "\<not> has_empty_pub_key d"
  obtains t where "runs sdk s (map Command (sign_packets p2 path bs [])) (Running t)" and "stuck t"
proof -
  obtain t where run: "runs sdk s (map Command (sign_packets p2 path bs [])) (Running t)"
    and out: "outcome curve path (allow_blind_sign s) (trace s) bs t"
    using dialogue [OF assms(1,2,3,6,4,7,8)] by auto
  let ?data = "of_nat (length path) # path_bytes path @ bs"
  have le: "length ?data \<le> 255" using assms(7) by (simp add: fitting_def)
  have "handle_event sdk (Command (apdu INS_SIGN 0 p2 ?data)) s = (Inr (), t)"
    using run by (auto simp: sign_packets_def dest!: steps_singleD elim: step_RunningE)
  then have "pubkey_confirmation_pending t"
    using wp_Inr [OF preservesD [OF pending.sign_apdu_frame [OF assms(2) le] assms(5)]] by blast
  moreover have "screen t = Review False" using out assms(9,10) by (auto simp: outcome_def under_review_def)
  ultimately show thesis using run that by (simp add: stuck_def)
qed

end
