(* ===== verification/Swap_Dialogue.thy ===== *)
theory Swap_Dialogue
  imports Packets
begin

text \<open>
  The dialogue of the exchange app's host: how the app ends when it was started for a swap and
  gets a transaction to sign.
\<close>

lemma wp_run_result:
  "wp m (\<lambda>_ t. R (Running t)) (\<lambda>e t. R (run_result (Inl e, t))) s \<Longrightarrow> R (run_result (m s))"
  by (cases "m s" rule: run_result.cases) (auto simp: wp_def)

section \<open>The end of a swap\<close>

text \<open>
  A transaction that is the announced payment is signed and the exchange app told so; any other
  that the parser accepts is refused. A transaction the parser rejects is answered with an error
  and the app goes on.
\<close>

definition swap_outcome ::
  "'key sdk \<Rightarrow> swapStrings_t \<Rightarrow> cx_curve_t \<Rightarrow> u32 list \<Rightarrow> io list \<Rightarrow> u8 list \<Rightarrow> run_state \<Rightarrow> bool" where
  "swap_outcome sdk w curve path tr bs r \<longleftrightarrow>
     (\<exists>x d. parse_tx (init_context bs (of_nat (length bs))) = Some (x, d) \<and>
       (if x \<noteq> Inr () \<and> x \<noteq> Inl BLIND_SIGN_REQUIRED
        then \<exists>n t. err_code (projl x) = Some n \<and> r = Running t \<and> refused (0x6800 OR (of_nat n AND 0x7FF)) tr t
        else if has_empty_pub_key d \<and> prefix_length + length bs + suffix_length > MAX_RAW_TX
        then \<exists>t. r = Running t \<and> refused 0x6700 tr t
        else if swap_agreed sdk w d \<and> amounts_positive w
        then \<exists>t sig suffix. r = Left t \<and> (suffix \<noteq> [] \<longrightarrow> has_empty_pub_key d) \<and>
          trace t = tr @ [Signature curve path (prefix_of (has_empty_pub_key d) @ bs @ suffix),
            Send_Response sig 0x9000, Swap_Result True]
        else \<exists>t. r = Left t \<and> trace t = tr @ [Send_SW 0x6985, Swap_Result False]))"

lemma wp_swap_review:
  assumes "sdk_contract sdk" and "sdk_works sdk" and "buffers_ok s" and "presented b s"
    and "sign_state s = PENDING_REVIEW" and "G_called_from_swap s"
  shows "wp (review_transaction sdk b) (\<lambda>_ _. False) (\<lambda>e t. e = Exited \<and>
     (if swap_agreed sdk (approval_strings s) (parse_context s) \<and> amounts_positive (approval_strings s)
      then \<exists>sig. trace t = trace s @ [signature_of sdk s, Send_Response sig 0x9000, Swap_Result True]
      else trace t = trace s @ [Send_SW 0x6985, Swap_Result False])) s"
    (is "wp _ _ ?E s")
proof -
  have sw: "swap_ok (approval_strings s)" using assms(3) by (simp add: buffers_ok_def)
  have "wp (check_swap_conditions_and_sign sdk) (\<lambda>ok. wp
      (if ok then CHECK (sign_transaction sdk) (\<lambda>_. finalize_exchange_sign_transaction True)
       else CHECK reject_transaction (\<lambda>_. finalize_exchange_sign_transaction False))
      (\<lambda>_ _. False) ?E) ?E s"
  proof (rule wp_mono [OF wp_check_swap [OF assms(1,6) sw presented_ctx_inv [OF assms(3,4)]]])
    fix ok t
    assume after: "after_check sdk s ok t"
    then obtain tmp where t: "t = s\<lparr>approval_strings := (approval_strings s)\<lparr>sw_tmp := tmp\<rparr>\<rparr>"
      and tmp: "length tmp = length (sw_tmp (approval_strings s))"
      and ok: "ok \<longleftrightarrow> swap_agreed sdk (approval_strings s) (parse_context s) \<and> amounts_positive (approval_strings s)"
      by (auto simp: after_check_def)
    have st: "presented b t" "signature_of sdk t = signature_of sdk s" "buffers_ok t"
      "sign_state t = PENDING_REVIEW" "G_called_from_swap t" "trace t = trace s"
      using presented_cong [of t s b] signature_cong [of t s sdk] assms tmp by (auto simp: t buffers_ok_def swap_ok_def)
    show "wp (if ok then CHECK (sign_transaction sdk) (\<lambda>_. finalize_exchange_sign_transaction True)
       else CHECK reject_transaction (\<lambda>_. finalize_exchange_sign_transaction False)) (\<lambda>_ _. False) ?E t"
    proof (cases ok)
      case True
      have "wp (sign_transaction sdk) (\<lambda>_. wp (finalize_exchange_sign_transaction True) (\<lambda>_ _. False) ?E) ?E t"
        by (rule wp_mono [OF wp_sign_transaction [OF assms(1) st(3,1,4)]])
          (use True ok st assms(2) in
            \<open>auto simp: signs_def leaves_signing_def finalize_exchange_sign_transaction_def wp_rules\<close>)
      with True show ?thesis by (simp add: wp_CHECK)
    next
      case False
      then show ?thesis
        using st ok
        by (auto simp: wp_CHECK wp_reject_transaction finalize_exchange_sign_transaction_def wp_rules)
    qed
  qed simp
  then show ?thesis using assms(6) by (simp add: review_transaction_def wp_CHECK wp_gets)
qed

lemma wp_swap_present:
  assumes "sdk_contract sdk" and "sdk_works sdk" and "buffers_ok s" and "collecting s" and "parse_data s"
    and "key_ok (tmp_ctx s)" and "G_called_from_swap s"
  shows "wp (present_transaction sdk)
     (\<lambda>_ t. swap_outcome sdk (approval_strings s) (tc_curve (tmp_ctx s)) (key_path (tmp_ctx s)) (trace s) (received s) (Running t))
     (\<lambda>e t. swap_outcome sdk (approval_strings s) (tc_curve (tmp_ctx s)) (key_path (tmp_ctx s)) (trace s) (received s)
        (run_result (Inl e, t))) s"
    (is "wp _ ?Q ?E s")
proof -
  obtain x d where parse: "parse_tx (init_context (received s) (ctx_length (parse_context s))) = Some (x, d)"
    and ends: "ends_well (init_context (received s) (ctx_length (parse_context s))) x d"
    using parse_outcome [OF assms(3,4)] .
  note result = wp_present_result [OF assms(3,4) parse ends, of sdk]
  have parse': "parse_tx (init_context (received s) (of_nat (length (received s)))) = Some (x, d)"
    using parse of_nat_received [OF assms(3,4)] by simp
  show ?thesis
  proof (cases "x \<noteq> Inr () \<and> x \<noteq> Inl BLIND_SIGN_REQUIRED")
    case True
    then obtain e where e: "x = Inl e" by (cases x) auto
    then have "e \<noteq> BAD_ACCESS" using ends by (simp add: ends_well_def field_error_def)
    then obtain n where n: "err_code e = Some n" by (cases e) auto
    then show ?thesis
      using True e parse' by (simp add: result swap_outcome_def refused_def)
  next
    case accepted: False
    show ?thesis
    proof (cases "has_empty_pub_key d \<and> prefix_length + length (received s) + suffix_length > MAX_RAW_TX")
      case True
      then show ?thesis using accepted parse' by (auto simp: result swap_outcome_def refused_def)
    next
      case room: False
      define b where "b = (x = Inl BLIND_SIGN_REQUIRED)"
      have x: "x = (if b then Inl BLIND_SIGN_REQUIRED else Inr ())" using accepted by (auto simp: b_def)
      let ?p = "presented_app s d"
      have pres: "presented b ?p" "received ?p = received s"
        using presented_presented_app [OF assms(3-6)] parse ends x room by (meson linorder_not_less)+
      have sig: "\<exists>suffix. signature_of sdk ?p = Signature (tc_curve (tmp_ctx s)) (key_path (tmp_ctx s))
          (prefix_of (has_empty_pub_key d) @ received s @ suffix) \<and> (suffix \<noteq> [] \<longrightarrow> has_empty_pub_key d)"
        using pres(2) by (auto simp: signature_of_def signed_bytes_def Let_def)
      have "wp (review_transaction sdk b) ?Q ?E ?p"
        by (rule wp_mono [OF wp_swap_review [OF assms(1,2)]])
          (use assms(3,7) pres(1) sig room accepted parse' in
            \<open>auto simp: swap_outcome_def split: if_splits\<close>)
      then show ?thesis using accepted room by (auto simp: result Let_def b_def)
    qed
  qed
qed

lemma swap_dialogue:
  assumes "sdk_contract sdk" and "sdk_works sdk" and "accepts_commands sdk" and "swap_ok w"
    and "fitting path ch chs" and "curve_of p2 = Some curve"
  obtains r where "runs sdk (start_app (Some w) setting) (map Command (sign_packets p2 path ch chs)) r"
    and "swap_outcome sdk w curve path (replicate (length chs) (Send_SW 0x9000)) (concat (ch # chs)) r"
proof -
  let ?s = "start_app (Some w) setting"
  have s: "app_inv ?s" "agreed_swap ?s = Some w" "trace ?s = []" "allow_blind_sign ?s = setting"
    using start_app_inv [of "Some w"] assms(4) by (simp_all add: agreed_swap_def start_app_def)
  have "last_packet_gives sdk (Some w) curve path setting (swap_outcome sdk w curve path)"
    unfolding last_packet_gives_def
  proof (intro allI impI, elim conjE)
    fix s tr bs ch p1
    assume recv: "receiving (Some w) curve path setting tr bs s" and fit: "prefix_length + length bs + length ch \<le> MAX_RAW_TX"
      "length (ch :: u8 list) \<le> 255" and last: "\<not> has_more p1"
    let ?u = "store_chunk ch s"
    have q: "buffers_ok s" "collecting s" "received s = bs" "parse_data s" "G_called_from_swap s" "approval_strings s = w"
      using recv by (auto simp: receiving_def app_inv_def agreed_swap_def split: if_splits)
    have n: "unat (of_nat (length ch) :: u8) \<le> length ch" using fit by simp
    note u = receiving_chunk [OF recv fit(1)]
    have "wp (present_transaction sdk) (\<lambda>_ t. swap_outcome sdk w curve path tr (bs @ ch) (Running t))
        (\<lambda>e t. swap_outcome sdk w curve path tr (bs @ ch) (run_result (Inl e, t))) ?u"
      using wp_swap_present [OF assms(1,2) u(1,2)] recv q u by (simp add: receiving_def)
    then have "wp (handle_packet_content sdk p1 ch (of_nat (length ch)))
        (\<lambda>_ t. swap_outcome sdk w curve path tr (bs @ ch) (Running t))
        (\<lambda>e t. swap_outcome sdk w curve path tr (bs @ ch) (run_result (Inl e, t))) s"
      using wp_packet_result [OF q(1,2,4) n, of sdk p1] fit last q(3) by (simp add: Let_def)
    then show "swap_outcome sdk w curve path tr (bs @ ch) (run_result (handle_packet_content sdk p1 ch (of_nat (length ch)) s))"
      by (rule wp_run_result)
  qed
  then have gives: "last_packet_gives sdk (agreed_swap ?s) curve path (allow_blind_sign ?s) (swap_outcome sdk w curve path)"
    using s by simp
  from whole_dialogue [OF assms(3) s(1) _ assms(5,6) gives] that s(3) show thesis by force
qed

end
