(* ===== verification/Session_Properties.thy ===== *)
theory Session_Properties
  imports Pubkey_Stuck Swap_Dialogue Parser_Correct
begin

text \<open>
  The properties of whole runs of the app: from its start, through any commands of the host and
  any actions of the user.
\<close>

section \<open>A concrete run\<close>

lemma demo_sdk_works: "sdk_works demo_sdk" "accepts_commands demo_sdk"
  by (simp_all add: sdk_works_def accepts_commands_def demo_sdk_def)

abbreviation demo_path :: "u32 list" where
  "demo_path \<equiv> [0x8000002C, 0x80000090, 0x80000000, 0, 0]"

lemma payment_fits: "fitting demo_path payment_example []"
  by (simp add: fitting_def payment_example_def)

text \<open>The payment example in one packet: under review, then signed.\<close>

lemma payment_parses:
  obtains d where "parse_tx (init_context payment_example (of_nat (length payment_example))) = Some (Inr (), d)"
    and "\<not> has_empty_pub_key d"
proof -
  have "length payment_example = 110" by (simp add: payment_example_def)
  then have "\<exists>d. parse_tx (init_context payment_example (of_nat (length payment_example))) = Some (Inr (), d) \<and>
      has_empty_pub_key d = end_empty start False payment_tokens"
    using parse_tx_tokens [of payment_tokens] payment_tokens_fit by (auto simp: MAX_LEN_def)
  moreover have "end_empty start False payment_tokens = False" by code_simp
  ultimately show thesis using that by auto
qed

lemma payment_run:
  obtains s d where "runs demo_sdk (start_app None 0) (map Command (sign_packets 0x40 demo_path payment_example [])) (Running s)"
    and "under_review False CX_CURVE_256K1 demo_path payment_example d s" and "trace s = []"
    and "app_inv s" and "\<not> G_called_from_swap s" and "has_empty_pub_key d = False"
    and "parse_tx (init_context payment_example (of_nat (length payment_example))) = Some (Inr (), d)"
proof -
  have curve: "curve_of 0x40 = Some CX_CURVE_256K1" by (simp add: curve_of_def)
  have s: "app_inv (start_app None 0)" "trace (start_app None 0) = []" "allow_blind_sign (start_app None 0) = 0"
    using start_app_inv [of None 0] by (simp_all add: start_app_def)
  have 0: "sign_state (start_app None 0) = IDLE" "\<not> G_called_from_swap (start_app None 0)" by simp_all
  obtain t where run: "runs demo_sdk (start_app None 0) (map Command (sign_packets 0x40 demo_path payment_example [])) (Running t)"
    and out: "outcome CX_CURVE_256K1 demo_path 0 [] payment_example t"
    using dialogue [OF demo_sdk_contract demo_sdk_works(2) s(1) 0 payment_fits curve] s(2,3) by auto
  obtain d where "parse_tx (init_context payment_example (of_nat (length payment_example))) = Some (Inr (), d)"
    "\<not> has_empty_pub_key d" using payment_parses .
  then show thesis using that [OF run] out by (auto simp: outcome_def)
qed

lemma payment_approved:
  obtains s t bytes where "runs demo_sdk (start_app None 0) (map Command (sign_packets 0x40 demo_path payment_example [])) (Running s)"
    and "step (handle_event demo_sdk) (Running s) (User_Choice True) (Running t)"
    and "signatures s = []" and "screen s = Review False" and "signatures t = [Signature CX_CURVE_256K1 demo_path (sign_prefix @ payment_example)]"
    and "parse_tx (init_context payment_example 110) = Some (Inr (), parse_context s)" and "received s = payment_example"
proof -
  obtain s d where s: "runs demo_sdk (start_app None 0) (map Command (sign_packets 0x40 demo_path payment_example [])) (Running s)"
    "under_review False CX_CURVE_256K1 demo_path payment_example d s" "trace s = []" "app_inv s" "has_empty_pub_key d = False"
    "parse_tx (init_context payment_example (of_nat (length payment_example))) = Some (Inr (), d)"
    using payment_run by metis
  have parsed: "parse_tx (init_context payment_example 110) = Some (Inr (), parse_context s)" "received s = payment_example"
    using s(2,6) by (simp_all add: under_review_def payment_example_def)
  have pending: "sign_state s = PENDING_REVIEW" using s(2) by (simp add: under_review_def)
  obtain t bytes where t: "handle_event demo_sdk (User_Choice True) s = (Inr (), t)"
    "trace t = trace s @ [signature_of demo_sdk s, Send_Response bytes 0x9000]"
    using approve [OF demo_sdk_contract demo_sdk_works(1) s(4) pending] by metis
  have "signature_of demo_sdk s = Signature CX_CURVE_256K1 demo_path (sign_prefix @ payment_example)"
    using s(2,5) by (simp add: under_review_def signature_of_def signed_bytes_def prefix_of_def Let_def)
  then have "signatures t = [Signature CX_CURVE_256K1 demo_path (sign_prefix @ payment_example)]" "signatures s = []"
    using t(2) s(3) by (simp_all add: signatures_def)
  moreover have "screen s = Review False" using s(2) by (simp add: under_review_def)
  ultimately show thesis using that s(1) step_on [where handle = "handle_event demo_sdk", OF t(1)] parsed by blast
qed

section \<open>Safety\<close>

text \<open>
  C9. The app never leaves a buffer. From its start, alone or for a swap, no sequence of commands
  and user actions reads or writes outside a buffer, and every state it reaches takes every
  further event.
\<close>

theorem session_safe:
  assumes "sdk_contract sdk" and "\<forall>w. swap = Some w \<longrightarrow> swap_ok w"
    and "steps (handle_event sdk) (Running (start_app swap setting)) es r"
  shows "(\<forall>t. r \<noteq> Wrong t) \<and>
     (\<forall>s e. r = Running s \<longrightarrow> (\<exists>q. step (handle_event sdk) (Running s) e q \<and> (\<forall>t. q \<noteq> Wrong t)))"
  using session.run_never_wrong [OF assms(1) start_app_inv [OF assms(2)] assms(3)]
    session.progress [OF assms(1) session.run_good [OF assms(1) start_app_inv [OF assms(2)]]] assms(3)
  by blast

theorem session_safe_witness:
  "\<exists>s. steps (handle_event demo_sdk) (Running (start_app None 0))
       (map Command (sign_packets 0x40 demo_path payment_example [])) (Running s) \<and>
     (\<exists>q. step (handle_event demo_sdk) (Running s) (User_Choice True) q \<and> (\<forall>t. q \<noteq> Wrong t))"
  using session_safe [OF demo_sdk_contract, of None 0] payment_run by (metis option.distinct(1))

text \<open>A step that adds a signature is the approval of the review on the screen.\<close>

lemma approval_of_review:
  assumes "sdk_contract sdk" and "steps (handle_event sdk) (Running (start_app None setting)) es (Running s)"
    and "step (handle_event sdk) (Running s) e (Running t)" and "signatures t \<noteq> signatures s"
  obtains blind where "e = User_Choice True" and "sign_state s = PENDING_REVIEW" and "screen s = Review blind"
    and "blind \<longrightarrow> allow_blind_sign s \<noteq> 0" and "presented blind s" and "buffers_ok s"
    and "signatures t = signatures s @ [signature_of sdk s]"
proof -
  have good: "app_inv s" using session.run_good [OF assms(1) start_app_inv assms(2)] by simp
  have post: "event_post sdk e s t"
    using session.step_cases [OF assms(1) good assms(3)] by auto
  then have e: "e = User_Choice True" "approved sdk s t" using assms(4) by (auto simp: event_post_def)
  then have st: "sign_state s = PENDING_REVIEW" "signatures t = signatures s @ [signature_of sdk s]"
    by (auto simp: approved_def signatures_def signature_of_def)
  then obtain blind where "screen s = Review blind" "presented blind s" "screen_ok s"
    using good by (auto simp: app_inv_def state_ok_def)
  then show thesis
    using that [of blind] e(1) st good by (auto simp: screen_ok_def app_inv_def)
qed

text \<open>
  C1. Only what the user has reviewed is signed. Outside a swap, whenever an event adds a
  signature, it is the user's approval of a review on the screen, of a transaction the parser has
  accepted (with blind signing only if the setting allows it), and the one signature added is of
  the prefix, exactly the bytes parsed for this review and, only for a multi-signature, the hash of
  the signer's key, with the key chosen by the host.
\<close>

theorem signature_needs_approval:
  assumes "sdk_contract sdk" and "steps (handle_event sdk) (Running (start_app None setting)) es (Running s)"
    and "step (handle_event sdk) (Running s) e (Running t)" and "signatures t \<noteq> signatures s"
  shows "e = User_Choice True \<and> sign_state s = PENDING_REVIEW \<and>
     (\<exists>blind. screen s = Review blind \<and> (blind \<longrightarrow> allow_blind_sign s \<noteq> 0) \<and>
        parse_tx (init_context (received s) (ctx_length (parse_context s))) =
          Some (if blind then Inl BLIND_SIGN_REQUIRED else Inr (), parse_context s) \<and>
        signatures t = signatures s @ [Signature (tc_curve (tmp_ctx s))
          (take (unat (path_length (tmp_ctx s))) (bip32_path (tmp_ctx s)))
          (prefix_of (has_empty_pub_key (parse_context s)) @ received s @
             (if has_empty_pub_key (parse_context s) then signer_hash sdk (tmp_ctx s) else []))])"
proof -
  obtain blind where "e = User_Choice True" "sign_state s = PENDING_REVIEW" "screen s = Review blind"
    "blind \<longrightarrow> allow_blind_sign s \<noteq> 0" "presented blind s"
    "signatures t = signatures s @ [signature_of sdk s]"
    using approval_of_review [OF assms] .
  then show ?thesis
    unfolding signature_of_def signed_bytes_def Let_def
    by (intro conjI exI [of _ blind]) (auto simp: presented_def Let_def)
qed

theorem signature_needs_approval_witness:
  "\<exists>s t. signatures s = [] \<and> sign_state s = PENDING_REVIEW \<and> screen s = Review False \<and>
     signatures t = [Signature CX_CURVE_256K1 demo_path (sign_prefix @ payment_example)]"
proof -
  obtain s t where s: "steps (handle_event demo_sdk) (Running (start_app None 0))
      (map Command (sign_packets 0x40 demo_path payment_example [])) (Running s)"
    "step (handle_event demo_sdk) (Running s) (User_Choice True) (Running t)" "signatures s = []"
    "screen s = Review False" "signatures t = [Signature CX_CURVE_256K1 demo_path (sign_prefix @ payment_example)]"
    using payment_approved by metis
  then show ?thesis
    using signature_needs_approval [OF demo_sdk_contract s(1,2)] by auto
qed

text \<open>
  C24. One approval, one signature. Outside a swap a run makes at most as many signatures as the
  user has agreed to something, also when it ends by leaving the app.
\<close>

theorem signatures_bounded_by_approvals:
  assumes "sdk_contract sdk" and "steps (handle_event sdk) (Running (start_app None setting)) es r"
    and "r = Running t \<or> r = Left t"
  shows "length (signatures t) \<le> count_list es (User_Choice True)"
  using run_counts [OF assms(1,2)] assms(3) by auto

theorem signatures_bounded_by_approvals_witness:
  "\<exists>es t. steps (handle_event demo_sdk) (Running (start_app None 0)) es (Running t) \<and>
     length (signatures t) = 1 \<and> length (signatures t) \<le> count_list es (User_Choice True)"
proof -
  obtain s t where s: "runs demo_sdk (start_app None 0)
      (map Command (sign_packets 0x40 demo_path payment_example [])) (Running s)"
    "step (handle_event demo_sdk) (Running s) (User_Choice True) (Running t)"
    and one: "signatures t = [Signature CX_CURVE_256K1 demo_path (sign_prefix @ payment_example)]"
    using payment_approved by metis
  note run = steps_snoc [OF s]
  then show ?thesis
    using signatures_bounded_by_approvals [OF demo_sdk_contract run] one by fastforce
qed

text \<open>
  C6. A swap signs only what was agreed. Started by the exchange app with the announced payment
  \<open>w\<close>, the app never signs while it goes on running, and when it ends it has signed nothing or
  made one signature, of the bytes of a transaction whose six fields are the announced payment:
  type, account, tag, amount, fee and destination. The transaction is one the parser clears for
  signing, to its last byte, although the app does not ask the parser for this in a swap.
\<close>

theorem swap_signs_only_agreed:
  assumes "sdk_contract sdk" and "swap_ok w"
    and "steps (handle_event sdk) (Running (start_app (Some w) setting)) es r"
  shows "(\<forall>t. r = Running t \<longrightarrow> signatures t = []) \<and>
     (\<forall>t. r = Left t \<longrightarrow> signatures t = [] \<or> (\<exists>sig. signatures t = [sig] \<and> swap_signature sdk w sig))"
  using run_swap [OF assms] by auto

section \<open>What a host and a user can rely on\<close>

text \<open>
  C22. A transaction may be cut into packets in any way that fits. From any state that has no
  transaction in progress, the packets are acknowledged in order and the last one leads to the
  outcome of the joined bytes: the parser's rejection as status 0x6800 with its code, a refusal of
  a blind transaction while the setting is off, status 0x6700 for a multi-signed transaction that
  leaves no room for the signer hash, or the review, with nothing answered yet.
\<close>

theorem packets_lead_to_outcome:
  assumes "sdk_contract sdk" and "accepts_commands sdk"
    and "steps (handle_event sdk) (Running (start_app None setting)) es (Running s)"
    and "sign_state s = IDLE" and "fitting path ch chs" and "curve_of p2 = Some curve"
  shows "\<exists>t. steps (handle_event sdk) (Running s) (map Command (sign_packets p2 path ch chs)) (Running t) \<and>
     outcome curve path (allow_blind_sign s) (trace s @ replicate (length chs) (Send_SW 0x9000))
       (concat (ch # chs)) t"
proof -
  have good: "app_inv s" "\<not> G_called_from_swap s" using run_counts [OF assms(1,3)] by auto
  show ?thesis using dialogue [OF assms(1,2) good(1) assms(4) good(2) assms(5,6)] by metis
qed

theorem packets_lead_to_outcome_witness:
  "\<exists>t. steps (handle_event demo_sdk) (Running (start_app None 1))
       (map Command (sign_packets 0x80 [7] (take 50 payment_example) [take 50 (drop 50 payment_example), drop 100 payment_example]))
       (Running t) \<and>
     outcome CX_CURVE_Ed25519 [7] 1 [Send_SW 0x9000, Send_SW 0x9000] payment_example t"
proof -
  have fit: "fitting [7] (take 50 payment_example) [take 50 (drop 50 payment_example), drop 100 payment_example]"
    and join: "concat [take 50 payment_example, take 50 (drop 50 payment_example), drop 100 payment_example] = payment_example"
    by (simp_all add: fitting_def payment_example_def)
  have curve: "curve_of 0x80 = Some CX_CURVE_Ed25519" by (simp add: curve_of_def)
  have s: "trace (start_app None 1) = []" "allow_blind_sign (start_app None 1) = 1" "sign_state (start_app None 1) = IDLE"
    by (simp_all add: start_app_def)
  show ?thesis
    using packets_lead_to_outcome [OF demo_sdk_contract demo_sdk_works(2) steps_nil s(3) fit curve] s(1,2)
    unfolding join by (simp add: numeral_2_eq_2)
qed

text \<open>
  C3. An honest transaction is shown and, when approved, signed. A token list of the grammar that
  the specification accepts for clear signing, cut into packets in any way that fits, leads to a
  review of exactly its fields in review order, and the user's approval to the answer with the
  signature, by the chosen key, of the prefix, the serialized tokens and, for a multi-signature,
  the hash of the signer's key.
\<close>

theorem approved_transaction_is_signed:
  assumes "sdk_contract sdk" and "sdk_works sdk" and "accepts_commands sdk"
    and "run_ok start TRANSACTION_INVALID 0 ts" and "length (review_fields ts) \<le> MAX_FIELD_COUNT"
    and "verdict (end_type TRANSACTION_INVALID ts) (review_fields ts) = Inr ()"
    and "bytes ts = concat (ch # chs)" and "fitting path ch chs" and "curve_of p2 = Some curve"
    and "multi = end_empty start False ts"
    and "multi \<longrightarrow> prefix_length + length (bytes ts) + suffix_length \<le> MAX_RAW_TX"
  shows "\<exists>s t msg sig. steps (handle_event sdk) (Running (start_app None setting))
      (map Command (sign_packets p2 path ch chs)) (Running s) \<and>
    screen s = Review False \<and>
    used_fields (result (parse_context s)) = sort_key get_priority_score (review_fields ts) \<and>
    step (handle_event sdk) (Running s) (User_Choice True) (Running t) \<and>
    msg = prefix_of multi @ bytes ts @ (if multi then signer_hash sdk (tmp_ctx s) else []) \<and>
    signature_value sdk (tmp_ctx s) msg = Some sig \<and>
    trace t = replicate (length chs) (Send_SW 0x9000) @ [Signature curve path msg, Send_Response sig 0x9000]"
proof -
  let ?s = "start_app None setting"
  have s: "app_inv ?s" "\<not> G_called_from_swap ?s" "sign_state ?s = IDLE" "trace ?s = []" "allow_blind_sign ?s = setting"
    using start_app_inv [of None] by (simp_all add: start_app_def)
  obtain u where run: "runs sdk ?s (map Command (sign_packets p2 path ch chs)) (Running u)"
    and out: "outcome curve path setting (replicate (length chs) (Send_SW 0x9000)) (bytes ts) u"
    using dialogue [OF assms(1,3) s(1,3,2) assms(8,9)] s(4,5) assms(7) by auto
  have fit: "length (bytes ts) \<le> MAX_LEN" using assms(7,8) by (simp add: fitting_def MAX_LEN_def)
  obtain d where d: "parse_tx (init_context (bytes ts) (of_nat (length (bytes ts)))) = Some (Inr (), d)"
    "has_empty_pub_key d = multi" "used_fields (result d) = sort_key get_priority_score (review_fields ts)"
    using parse_tx_tokens [OF assms(4) fit assms(5)] assms(6,10) by auto
  have rev: "under_review False curve path (bytes ts) d u" "trace u = replicate (length chs) (Send_SW 0x9000)"
    and good: "app_inv u"
    using out d(1,2) assms(11) by (auto simp: outcome_def)
  then have pending: "sign_state u = PENDING_REVIEW" by (simp add: under_review_def)
  obtain t sig where t: "handle_event sdk (User_Choice True) u = (Inr (), t)"
    "signature_value sdk (tmp_ctx u) (signed_bytes sdk u) = Some sig"
    "trace t = trace u @ [signature_of sdk u, Send_Response sig 0x9000]"
    using approve [OF assms(1,2) good pending] by metis
  have msg: "signed_bytes sdk u = prefix_of multi @ bytes ts @ (if multi then signer_hash sdk (tmp_ctx u) else [])"
    using rev(1) d(2) by (simp add: under_review_def signed_bytes_def Let_def)
  have "signature_of sdk u = Signature curve path (signed_bytes sdk u)"
    using rev(1) by (simp add: under_review_def signature_of_def)
  with t(2,3) msg rev d(3) run step_on [where handle = "handle_event sdk", OF t(1)] show ?thesis
    by (intro exI [of _ u] exI [of _ t] exI [of _ "signed_bytes sdk u"] exI [of _ sig] conjI)
      (simp_all add: under_review_def)
qed

theorem approved_transaction_is_signed_witness:
  "\<exists>s t sig. screen s = Review False \<and>
    used_fields (result (parse_context s)) = sort_key get_priority_score (review_fields payment_tokens) \<and>
    step (handle_event demo_sdk) (Running s) (User_Choice True) (Running t) \<and>
    trace t = [Signature CX_CURVE_256K1 demo_path (sign_prefix @ payment_example), Send_Response sig 0x9000]"
proof -
  have e: "end_empty start False payment_tokens = False" by code_simp
  have curve: "curve_of 0x40 = Some CX_CURVE_256K1" by (simp add: curve_of_def)
  have l: "length (review_fields payment_tokens) \<le> MAX_FIELD_COUNT" using payment_tokens_fit(4) by simp
  have b: "bytes payment_tokens = concat (payment_example # [])" using payment_tokens_fit(1) by simp
  show ?thesis
    using approved_transaction_is_signed [OF demo_sdk_contract demo_sdk_works payment_tokens_fit(2) l
        payment_tokens_fit(3) b payment_fits curve, of False 0] e payment_tokens_fit(1)
    by (fastforce simp: prefix_of_def)
qed

text \<open>
  C5. How a swap ends. Started for the announced payment \<open>w\<close>, the app answers the packets of a
  transaction that is that payment with its signature and reports success to the exchange app; any
  other transaction the parser accepts is refused and a failure reported. One the parser rejects,
  or a multi-signed one that leaves no room for the signer hash, is answered with the error and
  nothing is reported.
\<close>

theorem swap_ends_as_agreed:
  assumes "sdk_contract sdk" and "sdk_works sdk" and "accepts_commands sdk" and "swap_ok w"
    and "fitting path ch chs" and "curve_of p2 = Some curve"
  shows "\<exists>r. steps (handle_event sdk) (Running (start_app (Some w) setting))
      (map Command (sign_packets p2 path ch chs)) r \<and>
    swap_outcome sdk w curve path (replicate (length chs) (Send_SW 0x9000)) (concat (ch # chs)) r"
  using swap_dialogue [OF assms] by metis

text \<open>The payment of one XRP with a tag, to the account of the payment example.\<close>

definition swap_account :: "u8 list" where
  "swap_account = take 20 (drop 68 payment_example)"

definition swap_tokens :: "token list" where
  "swap_tokens =
     [Field 2 (V_UInt16 TRANSACTION_PAYMENT), Field 14 (V_UInt32 7),
      Field 1 (V_Xrp [0x40, 0, 0, 0, 0, 0x0f, 0x42, 0x40]), Field 8 (V_Xrp [0x40, 0, 0, 0, 0, 0, 0, 0x0f]),
      Field 1 (V_Account swap_account), Field 3 (V_Account swap_account)]"

definition swap_example :: "swapStrings_t" where
  "swap_example =
     \<lparr>sw_address = padded 41 (address_of demo_sdk swap_account),
      destination_tag = CHR ''7'' # replicate 10 NUL, sw_amount = 1000000, sw_fee = 15, sw_tmp = replicate 41 NUL\<rparr>"

lemma swap_account_bytes:
  "swap_account = [5, 17, 225, 125, 184, 59, 182, 241, 19, 147, 157, 103, 188, 142, 165, 57, 237, 201, 38, 252]"
  by (simp add: swap_account_def payment_example_def)

lemma swap_bytes:
  "bytes swap_tokens =
     [18, 0, 0, 46, 0, 0, 0, 7, 97, 0x40, 0, 0, 0, 0, 15, 66, 64, 104, 0x40, 0, 0, 0, 0, 0, 0, 15, 129, 20] @
     swap_account @ [131, 20] @ swap_account"
  "length swap_account = 20"
  unfolding swap_tokens_def swap_account_bytes by code_simp+

lemma swap_tokens_fit:
  "run_ok start TRANSACTION_INVALID 0 swap_tokens"
  "verdict (end_type TRANSACTION_INVALID swap_tokens) (review_fields swap_tokens) = Inr ()"
  "end_empty start False swap_tokens = False"
  "map (\<lambda>f. (data_type f, fld_id f, fld_length f, fdata f)) (sort_key get_priority_score (review_fields swap_tokens)) =
     [(STI_UINT16, 2, 2, DU16 TRANSACTION_PAYMENT), (STI_ACCOUNT, 1, 20, DPtr 28), (STI_UINT32, 14, 4, DU32 7),
      (STI_AMOUNT, 1, 8, DPtr 9), (STI_AMOUNT, 8, 8, DPtr 18), (STI_ACCOUNT, 3, 20, DPtr 50)]"
  by code_simp+

lemma swap_values:
  "length (bytes swap_tokens) = 70" "take 20 (drop 50 (bytes swap_tokens)) = swap_account"
  "be_val (take 8 (drop 9 (bytes swap_tokens))) = 2 ^ 62 + 1000000"
  "be_val (take 8 (drop 18 (bytes swap_tokens))) = 2 ^ 62 + 15"
  using swap_bytes(2) by (simp_all add: swap_bytes(1) be_val_def)

lemma swap_example_ok: "swap_ok swap_example" "amounts_positive swap_example"
  "cstr (sw_address swap_example) = address_of demo_sdk swap_account"
  "cstr (destination_tag swap_example) = print_dec 7"
proof -
  have l: "length (address_of demo_sdk swap_account) \<le> 36"
    using encoded_account [OF demo_sdk_contract swap_bytes(2), of "replicate 41 NUL"] by simp
  have n: "NUL \<notin> set (address_of demo_sdk swap_account)" unfolding address_of_def by (rule NUL_notin_base58)
  show "cstr (sw_address swap_example) = address_of demo_sdk swap_account"
    using n by (simp add: swap_example_def)
  show "swap_ok swap_example" using l by (simp add: swap_ok_def swap_example_def padded_def)
  show "amounts_positive swap_example" by (simp add: amounts_positive_def swap_example_def)
  show "cstr (destination_tag swap_example) = print_dec 7" by (simp add: swap_example_def cstr_def) code_simp
qed

lemma swap_example_agreed:
  obtains d where "parse_tx (init_context (bytes swap_tokens) 70) = Some (Inr (), d)"
    and "has_empty_pub_key d = False" and "swap_agreed demo_sdk swap_example d"
proof -
  let ?bs = "bytes swap_tokens"
  have six: "length (review_fields swap_tokens) = 6"
    using arg_cong [OF swap_tokens_fit(4), of length] by simp
  obtain d where d: "parse_tx (init_context ?bs 70) = Some (Inr (), d)" "has_empty_pub_key d = False"
    "used_fields (result d) = sort_key get_priority_score (review_fields swap_tokens)"
    using parse_tx_tokens [OF swap_tokens_fit(1)] six swap_tokens_fit(2,3) swap_values(1) by (auto simp: MAX_LEN_def)
  have "ctx_inv {} (init_context ?bs 70)" using swap_values(1) by (intro init_context_inv) (simp_all add: MAX_LEN_def)
  from parse_tx_ends [OF this] d(1) have data: "data d = ?bs"
    by (auto simp: ends_well_def init_context_def)
  obtain f0 f1 f2 f3 f4 f5 where fs: "sort_key get_priority_score (review_fields swap_tokens) = [f0, f1, f2, f3, f4, f5]"
    using six by (metis (no_types) length_sort take_six take_all_iff order_refl)
  note f = swap_tokens_fit(4) [unfolded fs, simplified]
  have "swap_agreed demo_sdk swap_example d"
    unfolding swap_agreed_def d(3) fs
    using f swap_example_ok(3,4) swap_values data swap_bytes(2)
    by (simp add: has_code_def xrp_amount_is_def account_is_def) (simp add: swap_example_def)
  with d that show thesis by blast
qed

lemma swap_example_run:
  obtains t sig where "runs demo_sdk (start_app (Some swap_example) 0)
      (map Command (sign_packets 0x40 demo_path (bytes swap_tokens) [])) (Left t)"
    and "trace t = [Signature CX_CURVE_256K1 demo_path (sign_prefix @ bytes swap_tokens),
       Send_Response sig 0x9000, Swap_Result True]"
proof -
  have curve: "curve_of 0x40 = Some CX_CURVE_256K1" by (simp add: curve_of_def)
  have fit: "fitting demo_path (bytes swap_tokens) []" by (simp add: fitting_def swap_values(1))
  obtain d where d: "parse_tx (init_context (bytes swap_tokens) 70) = Some (Inr (), d)"
    "has_empty_pub_key d = False" "swap_agreed demo_sdk swap_example d" using swap_example_agreed .
  show thesis
    using swap_dialogue [OF demo_sdk_contract demo_sdk_works swap_example_ok(1) fit curve, of 0]
      d swap_example_ok(2) swap_values(1) that
    by (auto simp: swap_outcome_def prefix_of_def)
qed

theorem swap_ends_as_agreed_witness:
  "\<exists>d. parse_tx (init_context (bytes swap_tokens) 70) = Some (Inr (), d) \<and> swap_agreed demo_sdk swap_example d \<and>
     (\<exists>t sig. steps (handle_event demo_sdk) (Running (start_app (Some swap_example) 0))
      (map Command (sign_packets 0x40 demo_path (bytes swap_tokens) [])) (Left t) \<and>
     trace t = [Signature CX_CURVE_256K1 demo_path (sign_prefix @ bytes swap_tokens),
       Send_Response sig 0x9000, Swap_Result True])"
proof -
  have curve: "curve_of 0x40 = Some CX_CURVE_256K1" by (simp add: curve_of_def)
  have fit: "fitting demo_path (bytes swap_tokens) []" by (simp add: fitting_def swap_values(1))
  obtain d where d: "parse_tx (init_context (bytes swap_tokens) 70) = Some (Inr (), d)"
    "has_empty_pub_key d = False" "swap_agreed demo_sdk swap_example d" using swap_example_agreed .
  then show ?thesis
    using swap_ends_as_agreed [OF demo_sdk_contract demo_sdk_works swap_example_ok(1) fit curve, of 0]
      swap_example_ok(2) swap_values(1)
    by (auto simp: swap_outcome_def prefix_of_def)
qed

theorem swap_signs_only_agreed_witness:
  "\<exists>es t sig. steps (handle_event demo_sdk) (Running (start_app (Some swap_example) 0)) es (Left t) \<and>
     signatures t = [sig] \<and> swap_signature demo_sdk swap_example sig"
proof -
  obtain t sig where t: "runs demo_sdk (start_app (Some swap_example) 0)
      (map Command (sign_packets 0x40 demo_path (bytes swap_tokens) [])) (Left t)"
    "trace t = [Signature CX_CURVE_256K1 demo_path (sign_prefix @ bytes swap_tokens), Send_Response sig 0x9000, Swap_Result True]"
    using swap_example_run .
  let ?sig = "Signature CX_CURVE_256K1 demo_path (sign_prefix @ bytes swap_tokens)"
  have one: "signatures t = [?sig]" using t(2) by (simp add: signatures_def)
  then have "swap_signature demo_sdk swap_example ?sig"
    using swap_signs_only_agreed [OF demo_sdk_contract swap_example_ok(1) t(1)] by auto
  with t(1) one show ?thesis by blast
qed

section \<open>Public keys\<close>

lemma public_key_dialogue:
  assumes "sdk_contract sdk" and "accepts_commands sdk" and good: "app_inv s" and "\<not> pubkey_confirmation_pending s"
    and "path \<noteq> []" and "length path \<le> MAX_BIP32_PATH" and "curve_of p2 = Some curve"
    and "p2 AND 0x3F = (if ch then P2_CHAINCODE else P2_NO_CHAINCODE)" and "sdk_pubkey sdk curve path = (0, W, chain)"
  obtains p h a resp where "xrp_compress_public_key curve W = Some p" and "xrp_public_key_hash160 sdk p = Some h"
    and "a = address_of sdk h"
    and "resp = Send_Response (33 # p @ of_nat (length a) # map byte_of_char a @ (if ch then chain else [])) 0x9000"
    and "\<exists>t. handle_event sdk (Command (key_command P1_NON_CONFIRM p2 path)) s = (Inr (), t) \<and>
      trace t = trace s @ [resp]"
    and "\<exists>t. handle_event sdk (Command (key_command P1_CONFIRM p2 path)) s = (Inr (), t) \<and> app_inv t \<and>
      trace t = trace s \<and> screen t = Address_Review a \<and> pubkey_confirmation_pending t \<and>
      sign_state t = sign_state (entered INS_GET_PUBLIC_KEY s) \<and> G_called_from_swap t = G_called_from_swap s \<and>
      (\<forall>c. \<exists>u. handle_event sdk (User_Choice c) t = (Inr (), u) \<and>
        trace u = trace t @ [if c then resp else Send_SW 0x6985])"
proof -
  have l: "length W = 65" using assms(1,9) unfolding sdk_contract_def by (metis fst_conv snd_conv)
  obtain addr p h where p: "xrp_compress_public_key curve W = Some p" "xrp_public_key_hash160 sdk p = Some h"
    and addr: "get_address sdk curve W (address zero_pubkey) = Some addr" "length addr = XRP_ADDRESS_SIZE"
      "NUL \<in> set addr" "cstr addr = address_of sdk h"
    using address_made [OF assms(1) l, of curve] by metis
  let ?a = "address_of sdk h" and ?s = "entered INS_GET_PUBLIC_KEY s"
  let ?ctx = "(key_ctx curve W chain ch)\<lparr>address := addr\<rparr>"
  let ?resp = "Send_Response (33 # p @ of_nat (length ?a) # map byte_of_char ?a @ (if ch then chain else [])) 0x9000"
  have resp: "pubkey_response ?ctx = ?resp"
    using p addr(4) by (simp add: pubkey_response_def key_ctx_def)
  have ne: "cstr addr \<noteq> []" using addr(4) address_nonempty by simp
  note cmd = wp_key_command [OF assms(2,1,4-9) _ addr(1-3) ne]
  have no: "handle_event sdk (Command (key_command P1_NON_CONFIRM p2 path)) s =
      (Inr (), ?s\<lparr>pending_pubkey_ctx := zero_pubkey, trace := trace ?s @ [?resp]\<rparr>)"
    by (rule wp_exact) (simp add: cmd Let_def resp)
  let ?t = "?s\<lparr>pending_pubkey_ctx := ?ctx, pubkey_confirmation_pending := True, screen := Address_Review ?a\<rparr>"
  have yes: "handle_event sdk (Command (key_command P1_CONFIRM p2 path)) s = (Inr (), ?t)"
    by (rule wp_exact) (simp add: cmd Let_def addr(4))
  have inv: "app_inv ?t" using wp_Inr [OF wp_handle_event [OF assms(1) good] yes] by (simp add: event_post_def)
  have answer: "\<exists>u. handle_event sdk (User_Choice c) ?t = (Inr (), u) \<and>
      trace u = trace ?t @ [if c then ?resp else Send_SW 0x6985]" for c
  proof -
    have "screen ?t = Address_Review ?a" by simp
    from wp_confirmationChoice [OF inv this, of c]
    obtain u where "confirmationChoiceClbk c ?t = (Inr (), u)"
      "trace u = trace ?t @ [if c then pubkey_response ?ctx else Send_SW 0x6985]"
      unfolding wp_False_conv by auto
    then show ?thesis using resp by (simp add: CHECK_def gets_def)
  qed
  show thesis
    by (rule that [OF p refl refl]) (use no yes inv answer in auto)
qed

text \<open>
  C23. The address the user confirms is the address the host gets. For a well-formed request the app
  answers with the compressed key of the path, its address and, if asked, the chain code. With
  confirmation the address is shown first and nothing is sent; agreeing then sends the same
  answer, with the address that is on the screen, and declining sends 0x6985 alone.
\<close>

theorem confirmed_address_is_answered:
  assumes "sdk_contract sdk" and "accepts_commands sdk"
    and "steps (handle_event sdk) (Running (start_app swap setting)) es (Running s)" and "swap = None"
    and "\<not> pubkey_confirmation_pending s"
    and "path \<noteq> []" and "length path \<le> MAX_BIP32_PATH" and "curve_of p2 = Some curve"
    and "p2 AND 0x3F = (if ch then P2_CHAINCODE else P2_NO_CHAINCODE)" and "sdk_pubkey sdk curve path = (0, W, chain)"
  shows "\<exists>p h a resp. xrp_compress_public_key curve W = Some p \<and> xrp_public_key_hash160 sdk p = Some h \<and>
    a = address_of sdk h \<and>
    resp = Send_Response (33 # p @ of_nat (length a) # map byte_of_char a @ (if ch then chain else [])) 0x9000 \<and>
    (\<exists>t. handle_event sdk (Command (key_command P1_NON_CONFIRM p2 path)) s = (Inr (), t) \<and>
       trace t = trace s @ [resp]) \<and>
    (\<exists>t. handle_event sdk (Command (key_command P1_CONFIRM p2 path)) s = (Inr (), t) \<and>
       trace t = trace s \<and> screen t = Address_Review a \<and>
       (\<forall>c. \<exists>u. handle_event sdk (User_Choice c) t = (Inr (), u) \<and>
          trace u = trace t @ [if c then resp else Send_SW 0x6985]))"
proof -
  have "app_inv s" using run_counts [OF assms(1) assms(3) [unfolded assms(4)]] by auto
  from public_key_dialogue [OF assms(1,2) this assms(5-10)] show ?thesis by (smt (verit))
qed

lemma demo_key: "sdk_pubkey demo_sdk CX_CURVE_256K1 [7] = (0, 4 # replicate 64 1, replicate 32 1)"
  by (simp add: demo_sdk_def)

lemma demo_p2: "curve_of 0x40 = Some CX_CURVE_256K1" "(0x40 :: u8) AND 0x3F = (if False then P2_CHAINCODE else P2_NO_CHAINCODE)"
  by (simp_all add: curve_of_def)

lemma demo_start: "app_inv (start_app None 0)" "\<not> pubkey_confirmation_pending (start_app None 0)"
  "trace (start_app None 0) = []" "last_ins (start_app None 0) = 0"
  using start_app_inv [of None 0] by (simp_all add: start_app_def)

theorem confirmed_address_is_answered_witness:
  "\<exists>t u resp. handle_event demo_sdk (Command (key_command P1_CONFIRM 0x40 [7])) (start_app None 0) = (Inr (), t) \<and>
     trace t = [] \<and> handle_event demo_sdk (User_Choice True) t = (Inr (), u) \<and> trace u = [resp]"
  using confirmed_address_is_answered [OF demo_sdk_contract demo_sdk_works(2) steps_nil refl demo_start(2) _ _ demo_p2 demo_key]
    demo_start(3) by fastforce

section \<open>Two things a user may not expect\<close>

text \<open>
  C37. An address review that another screen has replaced is never answered, and blocks the
  command: once a transaction's review has taken the place of an address on the display, every
  later request for a key is refused with 0x6985, whatever happens in between.
\<close>

theorem replaced_address_review_blocks_keys:
  assumes "accepts_commands sdk" and "pubkey_confirmation_pending s" and "\<forall>a. screen s \<noteq> Address_Review a"
    and "steps (handle_event sdk) (Running s) es (Running t)" and "cdata \<noteq> []" and "length cdata \<le> 255"
  shows "\<exists>u. handle_event sdk (Command (apdu INS_GET_PUBLIC_KEY p1 p2 cdata)) t = (Inr (), u) \<and>
     trace u = trace t @ [Send_SW 0x6985]"
proof -
  have "stuck t" using stuck_runs [OF _ assms(4)] assms(2,3) by (simp add: stuck_def)
  then have pending: "pubkey_confirmation_pending (entered INS_GET_PUBLIC_KEY t)"
    by (simp add: stuck_def entered_def)
  have "unat (of_nat (length cdata) :: u16) = length cdata" using assms(6) by (intro unat_of_nat_eq) simp
  then have "\<not> (of_nat (length cdata) :: u16) < 1" using assms(5) by (simp add: word_less_nat_alt Suc_le_eq)
  then have "handle_event sdk (Command (apdu INS_GET_PUBLIC_KEY p1 p2 cdata)) t =
      (Inr (), (entered INS_GET_PUBLIC_KEY t)\<lparr>trace := trace t @ [Send_SW 0x6985]\<rparr>)"
    using pending
    by (intro wp_exact) (simp add: wp_command [OF assms(1,6)] handle_get_public_key_def wp_CHECK wp_gets wp_io_send_sw)
  then show ?thesis by simp
qed

theorem replaced_address_review_blocks_keys_witness:
  "\<exists>t u. steps (handle_event demo_sdk) (Running (start_app None 0))
       (map Command (key_command P1_CONFIRM 0x40 [7] # sign_packets 0x40 demo_path payment_example [])) (Running t) \<and>
     handle_event demo_sdk (Command (key_command P1_NON_CONFIRM 0x40 [7])) t = (Inr (), u) \<and>
     trace u = trace t @ [Send_SW 0x6985]"
proof -
  obtain s where s: "handle_event demo_sdk (Command (key_command P1_CONFIRM 0x40 [7])) (start_app None 0) = (Inr (), s)"
    "app_inv s" "pubkey_confirmation_pending s" "sign_state s = IDLE" "\<not> G_called_from_swap s"
    using public_key_dialogue [OF demo_sdk_contract demo_sdk_works(2) demo_start(1,2) _ _ demo_p2 demo_key]
    by (auto simp: entered_def demo_start)
  obtain d where d: "parse_tx (init_context payment_example (of_nat (length payment_example))) = Some (Inr (), d)"
    "\<not> has_empty_pub_key d" using payment_parses .
  obtain t where t: "runs demo_sdk s (map Command (sign_packets 0x40 demo_path payment_example [])) (Running t)" "stuck t"
    using review_replaces_address [OF demo_sdk_contract demo_sdk_works(2) s(2,5,3,4) payment_fits demo_p2(1) d] .
  have "runs demo_sdk (start_app None 0)
      (map Command (key_command P1_CONFIRM 0x40 [7] # sign_packets 0x40 demo_path payment_example [])) (Running t)"
    using steps_Cons [where h = "handle_event demo_sdk", OF s(1) t(1)] by simp
  then show ?thesis
    using replaced_address_review_blocks_keys [OF demo_sdk_works(2) _ _ steps_nil, of t "1 # path_bytes [7]" P1_NON_CONFIRM "0x40"] t(2)
    unfolding key_command_def by (auto simp: stuck_def)
qed

text \<open>
  C38. The status page may say "signed" when nothing was. While a transaction is under review, let a
  command arrive that leaves the review on the display but no transaction to sign: then the user's
  approval shows the page of a signed transaction although no signature is made. GET_APP_CONFIGURATION,
  with any parameters, is such a command. (One that opens a page of its own, as GET_PUBLIC_KEY with
  confirmation does, is not: there the review is gone.)
\<close>

theorem stale_review_reports_signed:
  assumes "sdk_contract sdk" and "accepts_commands sdk"
    and "steps (handle_event sdk) (Running (start_app None setting)) es (Running s)" and "sign_state s = PENDING_REVIEW"
  shows "(\<forall>c u. steps (handle_event sdk) (Running s) [Command c] (Running u) \<and>
        sign_state u \<noteq> PENDING_REVIEW \<and> screen u = screen s \<longrightarrow>
      (\<exists>t. steps (handle_event sdk) (Running u) [User_Choice True] (Running t) \<and>
        screen t = Status Signed \<and> signatures t = signatures s)) \<and>
    (\<exists>u t. steps (handle_event sdk) (Running s) [Command (apdu INS_GET_APP_CONFIGURATION p1 p2 [])] (Running u) \<and>
      sign_state u \<noteq> PENDING_REVIEW \<and> screen u = screen s \<and>
      steps (handle_event sdk) (Running u) [User_Choice True] (Running t) \<and>
      screen t = Status Signed \<and> signatures t = signatures s)"
proof -
  have inv: "app_inv s" using run_counts [OF assms(1,3)] by auto
  then obtain b where s: "screen s = Review b" "last_ins s = INS_SIGN"
    using assms(4) by (auto simp: app_inv_def state_ok_def)
  have stale: "\<exists>t. steps (handle_event sdk) (Running u) [User_Choice True] (Running t) \<and>
      screen t = Status Signed \<and> signatures t = signatures s"
    if "steps (handle_event sdk) (Running s) [Command c] (Running u)"
      and u: "sign_state u \<noteq> PENDING_REVIEW" "screen u = screen s" for c u
  proof -
    have "handle_event sdk (Command c) s = (Inr (), u)"
      using steps_singleD [OF that(1)] by (auto simp: step_Running)
    then have "signatures u = signatures s"
      using wp_Inr [OF wp_handle_event [OF assms(1) inv]] by (fastforce simp: event_post_def)
    then show ?thesis
      using steps_Cons [where h = "handle_event sdk", OF stale_review [OF u(2) [unfolded s(1)] u(1)] steps_nil]
      by (intro exI [of _ "(idle_app Idle_Menu (reset_app u))\<lparr>screen := Status Signed\<rparr>"])
        (simp add: signatures_def)
  qed
  obtain major minor patch where v: "sdk_version sdk = (major, minor, patch)" by (cases "sdk_version sdk") auto
  let ?u = "(entered INS_GET_APP_CONFIGURATION s)\<lparr>trace := trace s @ [Send_Response [0, major, minor, patch] 0x9000]\<rparr>"
  have "handle_event sdk (Command (apdu INS_GET_APP_CONFIGURATION p1 p2 [])) s = (Inr (), ?u)"
    by (rule wp_exact) (simp add: wp_command [OF assms(2)] handle_get_app_configuration_def v wp_io_send)
  then have one: "steps (handle_event sdk) (Running s) [Command (apdu INS_GET_APP_CONFIGURATION p1 p2 [])] (Running ?u)"
    by (rule steps_Cons [where h = "handle_event sdk", OF _ steps_nil])
  moreover have u: "sign_state ?u \<noteq> PENDING_REVIEW" "screen ?u = screen s"
    using s by (simp_all add: entered_def)
  ultimately show ?thesis using stale stale [OF one u] by blast
qed

theorem stale_review_reports_signed_witness:
  "\<exists>s u t. steps (handle_event demo_sdk) (Running s) [Command (apdu INS_GET_APP_CONFIGURATION 0 0 [])] (Running u) \<and>
     received s = payment_example \<and> screen u = Review False \<and>
     steps (handle_event demo_sdk) (Running u) [User_Choice True] (Running t) \<and>
     screen t = Status Signed \<and> signatures t = []"
proof -
  obtain s d where s: "runs demo_sdk (start_app None 0) (map Command (sign_packets 0x40 demo_path payment_example [])) (Running s)"
    "under_review False CX_CURVE_256K1 demo_path payment_example d s" "trace s = []" using payment_run by metis
  then have "sign_state s = PENDING_REVIEW" "received s = payment_example" "signatures s = []" "screen s = Review False"
    by (simp_all add: under_review_def signatures_def)
  then show ?thesis
    using stale_review_reports_signed [OF demo_sdk_contract demo_sdk_works(2) s(1), of 0 0] by metis
qed

end
