(* ===== verification/Seen_And_Signed.thy ===== *)
theory Seen_And_Signed
  imports Review Session_Properties
begin

text \<open>
  The signing session and the review together: what is signed is what the pages of the review show.
\<close>

text \<open>The pages of a transaction under review.\<close>

lemma presented_page:
  assumes "sdk_contract sdk" and "buffers_ok s" and "presented blind s"
    and "list_all (\<lambda>i. unat i < length (used_fields (result (parse_context s)))) earlier"
    and "first + k \<le> length (used_fields (result (parse_context s)))" and "k \<le> 8"
  shows "\<exists>ui. asks (getPair tgt sdk tx (received s) (result (parse_context s)))
       (earlier @ map of_nat [first..<first + k]) (reset_review tgt) = Some ui \<and>
     map (\<lambda>i. on_screen ui (i mod 8)) [first..<first + k] =
       map (\<lambda>f. (title_text f, shown_text tgt sdk tx (received s) f))
         (take k (drop first (used_fields (result (parse_context s)))))"
proof -
  show ?thesis
    by (rule page_is_intact [OF assms(1) presented_parse [OF assms(2,3)] _ assms(4-6)]) simp
qed

text \<open>
  C2. What is signed is what was seen. Outside a swap, whenever an event adds a signature, it is the
  user's approval of the review on the screen. At that moment, whatever pairs the screen library
  has asked for before, every page of the review it asks for holds the whole title and the text of
  each of its fields; the fields are those of the parse of the bytes received; and the signature is
  of these bytes, between the prefix and, only for a multi-signature, the hash of the signer's key.
\<close>

theorem what_is_signed_was_seen:
  assumes "sdk_contract sdk" and "steps (handle_event sdk) (Running (start_app None setting)) es (Running s)"
    and "step (handle_event sdk) (Running s) e (Running t)" and "signatures t \<noteq> signatures s"
    and "list_all (\<lambda>i. unat i < length (used_fields (result (parse_context s)))) earlier"
    and "first + k \<le> length (used_fields (result (parse_context s)))" and "k \<le> 8"
  shows "e = User_Choice True \<and>
     (\<exists>blind ui. screen s = Review blind \<and>
        parse_tx (init_context (received s) (ctx_length (parse_context s))) =
          Some (if blind then Inl BLIND_SIGN_REQUIRED else Inr (), parse_context s) \<and>
        asks (getPair tgt sdk (transaction_type (parse_context s)) (received s) (result (parse_context s)))
          (earlier @ map of_nat [first..<first + k]) (reset_review tgt) = Some ui \<and>
        map (\<lambda>i. on_screen ui (i mod 8)) [first..<first + k] =
          map (\<lambda>f. (title_text f, shown_text tgt sdk (transaction_type (parse_context s)) (received s) f))
            (take k (drop first (used_fields (result (parse_context s)))))) \<and>
     signatures t = signatures s @ [Signature (tc_curve (tmp_ctx s)) (key_path (tmp_ctx s))
       (prefix_of (has_empty_pub_key (parse_context s)) @ received s @
          (if has_empty_pub_key (parse_context s) then signer_hash sdk (tmp_ctx s) else []))]"
proof -
  obtain blind where s: "e = User_Choice True" "sign_state s = PENDING_REVIEW" "screen s = Review blind"
    "blind \<longrightarrow> allow_blind_sign s \<noteq> 0" "presented blind s" "buffers_ok s"
    "signatures t = signatures s @ [signature_of sdk s]"
    using approval_of_review [OF assms(1-4)] .
  from presented_page [OF assms(1) s(6,5) assms(5-7)] s show ?thesis
    unfolding signature_of_def signed_bytes_def Let_def
    by (auto simp: presented_def Let_def)
qed

theorem what_is_signed_was_seen_witness:
  "\<exists>s t ui. steps (handle_event demo_sdk) (Running (start_app None 0))
       (map Command (sign_packets 0x40 demo_path payment_example [])) (Running s) \<and>
     step (handle_event demo_sdk) (Running s) (User_Choice True) (Running t) \<and>
     asks (getPair TARGET_OTHER demo_sdk (transaction_type (parse_context s)) payment_example (result (parse_context s)))
       ([] @ map of_nat [0..<0 + 5]) (reset_review TARGET_OTHER) = Some ui \<and>
     map (\<lambda>i. on_screen ui (i mod 8)) [0..<0 + 5] =
       map (\<lambda>f. (title_text f, shown_text TARGET_OTHER demo_sdk (transaction_type (parse_context s)) payment_example f))
         (take 5 (drop 0 (used_fields (result (parse_context s))))) \<and>
     length (signatures t) = 1"
proof -
  obtain s t where s: "steps (handle_event demo_sdk) (Running (start_app None 0))
      (map Command (sign_packets 0x40 demo_path payment_example [])) (Running s)"
    "step (handle_event demo_sdk) (Running s) (User_Choice True) (Running t)" "signatures s = []"
    and sig: "signatures t = [Signature CX_CURVE_256K1 demo_path (sign_prefix @ payment_example)]"
    and p: "parse_tx (init_context payment_example 110) = Some (Inr (), parse_context s)" "received s = payment_example"
    using payment_approved by metis
  from p(1) payment_example_parses have "map data_type (used_fields (result (parse_context s))) =
      [STI_UINT16, STI_ACCOUNT, STI_AMOUNT, STI_AMOUNT, STI_ACCOUNT]" by auto
  from arg_cong [OF this, of length] have five: "0 + 5 \<le> length (used_fields (result (parse_context s)))" by simp
  have new: "signatures t \<noteq> signatures s" using sig s(3) by simp
  have none: "list_all (\<lambda>i. unat i < length (used_fields (result (parse_context s)))) ([] :: u8 list)" by simp
  have eight: "5 \<le> (8 :: nat)" by simp
  have one: "length (signatures t) = 1" using sig by simp
  show ?thesis
    using what_is_signed_was_seen [OF demo_sdk_contract s(1,2) new none five eight, of TARGET_OTHER] s(1,2) one
    unfolding p(2) by blast
qed

end
