(* ===== verification/Test_Crypto.thy ===== *)
theory Test_Crypto
  imports Keys
begin

text \<open>
  \<open>src/unit-tests/src/cx.c\<close> and \<open>src/unit-tests/include/cx.h\<close>: the hash functions the unit tests and
  the fuzzing harness are linked with in place of the device's. They call OpenSSL, which is not part
  of the sources: the record \<open>openssl\<close> holds what they use of it, and \<open>openssl_works\<close> states
  what its documentation says.
\<close>

section \<open>OpenSSL\<close>

datatype evp_md = EVP_sha256 | EVP_ripemd160

text \<open>
  Whether a context can be allocated, initialised and fed, and the bytes \<open>EVP_DigestFinal\<close> writes
  (\<open>None\<close> when it does not return 1).
\<close>

record openssl =
  EVP_MD_size :: "evp_md \<Rightarrow> int"
  EVP_MD_CTX_new :: bool
  EVP_DigestInit :: "evp_md \<Rightarrow> bool"
  EVP_DigestUpdate :: "evp_md \<Rightarrow> u8 list \<Rightarrow> bool"
  EVP_DigestFinal :: "evp_md \<Rightarrow> u8 list \<Rightarrow> u8 list option"

abbreviation (input) EVP_MAX_MD_SIZE :: nat where "EVP_MAX_MD_SIZE \<equiv> 64"

definition digest_size :: "evp_md \<Rightarrow> nat" where
  "digest_size md = (case md of EVP_sha256 \<Rightarrow> 32 | EVP_ripemd160 \<Rightarrow> 20)"

definition openssl_works :: "openssl \<Rightarrow> bool" where
  "openssl_works ossl \<longleftrightarrow> EVP_MD_CTX_new ossl \<and>
     (\<forall>md. EVP_MD_size ossl md = int (digest_size md) \<and> EVP_DigestInit ossl md \<and>
       (\<forall>m. EVP_DigestUpdate ossl md m \<and>
          (\<exists>d. EVP_DigestFinal ossl md m = Some d \<and> length d = digest_size md)))"

section \<open>The hash contexts\<close>

datatype cx_md_t =
    CX_NONE | CX_RIPEMD160 | CX_SHA224 | CX_SHA256 | CX_SHA384 | CX_SHA512
  | CX_KECCAK | CX_SHA3 | CX_GROESTL | CX_BLAKE2B | CX_SHAKE128 | CX_SHAKE256

abbreviation (input) CX_OK :: u32 where "CX_OK \<equiv> 0x00000000"
abbreviation (input) CX_INTERNAL_ERROR :: u32 where "CX_INTERNAL_ERROR \<equiv> 0xFFFFFF85"
abbreviation (input) CX_INVALID_PARAMETER_SIZE :: u32 where "CX_INVALID_PARAMETER_SIZE \<equiv> 0xFFFFFF86"
abbreviation (input) CX_INVALID_PARAMETER :: u32 where "CX_INVALID_PARAMETER \<equiv> 0xFFFFFF88"
abbreviation (input) CX_LAST :: int where "CX_LAST \<equiv> 1"

record cx_hash_t =
  algo :: cx_md_t
  counter :: u32

text \<open>\<open>cx_sha256_t\<close> and \<open>cx_ripemd160_t\<close> differ in the size of \<open>acc\<close>.\<close>

record cx_hash_ctx =
  header :: cx_hash_t
  blen :: u32
  block :: "u8 list"
  acc :: "u8 list"

definition cleared_ctx :: "nat \<Rightarrow> cx_hash_ctx" where
  "cleared_ctx acc_size =
     \<lparr>header = \<lparr>algo = CX_NONE, counter = 0\<rparr>, blen = 0, block = replicate 64 0,
      acc = replicate acc_size 0\<rparr>"

definition cx_sha256_init :: "cx_md_t \<times> cx_hash_ctx" where
  "cx_sha256_init =
     (let hash = cleared_ctx (8 * 4) in (CX_SHA256, hash\<lparr>header := (header hash)\<lparr>algo := CX_SHA256\<rparr>\<rparr>))"

definition cx_ripemd160_init :: "cx_md_t \<times> cx_hash_ctx" where
  "cx_ripemd160_init =
     (let hash = cleared_ctx (5 * 4) in
      (CX_RIPEMD160, hash\<lparr>header := (header hash)\<lparr>algo := CX_RIPEMD160\<rparr>\<rparr>))"

section \<open>Hashing\<close>

text \<open>
  The error code and the memory behind \<open>out\<close> afterwards. The options on \<open>hash\<close> and \<open>out\<close> are null
  pointers; the outer one is for accesses outside a buffer, of the caller or the \<open>digest\<close> array.
\<close>

definition cx_hash_no_throw ::
  "openssl \<Rightarrow> cx_hash_t option \<Rightarrow> int \<Rightarrow> u8 list \<Rightarrow> nat \<Rightarrow> u8 list option \<Rightarrow> nat \<Rightarrow>
   (u32 \<times> u8 list option) option" where
  "cx_hash_no_throw ossl hash mode input len out out_len =
     (case hash of None \<Rightarrow> Some (CX_INVALID_PARAMETER, out) | Some hash \<Rightarrow>
      if mode \<noteq> CX_LAST then Some (CX_INVALID_PARAMETER, out)
      else
        case (if algo hash = CX_SHA256 then Some EVP_sha256
              else if algo hash = CX_RIPEMD160 then Some EVP_ripemd160 else None) of
          None \<Rightarrow> Some (CX_INVALID_PARAMETER, out)
        | Some md \<Rightarrow>
            let expected_size = EVP_MD_size ossl md in
            case out of None \<Rightarrow> Some (CX_INVALID_PARAMETER_SIZE, out) | Some buf \<Rightarrow>
            if expected_size \<le> 0 \<or> out_len < nat expected_size
            then Some (CX_INVALID_PARAMETER_SIZE, out)
            else if \<not> (EVP_MD_CTX_new ossl \<and> EVP_DigestInit ossl md) then Some (CX_INTERNAL_ERROR, out)
            else
              Option.bind (peek input 0 len) (\<lambda>bytes.
              if \<not> EVP_DigestUpdate ossl md bytes then Some (CX_INTERNAL_ERROR, out)
              else
                case EVP_DigestFinal ossl md bytes of None \<Rightarrow> Some (CX_INTERNAL_ERROR, out)
                | Some digest \<Rightarrow>
                    if length digest > EVP_MAX_MD_SIZE then None
                    else if length digest = nat expected_size
                    then map_option (\<lambda>buf. (CX_OK, Some buf)) (poke buf 0 digest)
                    else Some (CX_INTERNAL_ERROR, out)))"

text \<open>
  What the calls in \<open>xrp_helpers.c\<close> make of it: initialise, hash everything at once into a buffer of
  the digest's size, and look at the error code.
\<close>

definition hash_once :: "openssl \<Rightarrow> cx_md_t \<times> cx_hash_ctx \<Rightarrow> nat \<Rightarrow> u8 list \<Rightarrow> u8 list option" where
  "hash_once ossl init n m =
     (case cx_hash_no_throw ossl (Some (header (snd init))) CX_LAST m (length m) (Some (replicate n 0)) n of
        Some (err, Some out) \<Rightarrow> if err = CX_OK then Some out else None
      | _ \<Rightarrow> None)"

definition with_test_crypto :: "openssl \<Rightarrow> 'key sdk \<Rightarrow> 'key sdk" where
  "with_test_crypto ossl sdk =
     sdk\<lparr>sdk_sha256 := hash_once ossl cx_sha256_init 32, sdk_ripemd160 := hash_once ossl cx_ripemd160_init 20\<rparr>"

section \<open>It keeps the contract\<close>

text \<open>Given room for the digest, exactly the digest is written; given less, nothing is.\<close>

lemma cx_hash_writes_digest:
  assumes "openssl_works ossl" and "algo hash = (case md of EVP_sha256 \<Rightarrow> CX_SHA256 | EVP_ripemd160 \<Rightarrow> CX_RIPEMD160)"
    and "digest_size md \<le> out_len" and "out_len \<le> length buf" and "len \<le> length input"
  shows "\<exists>d. EVP_DigestFinal ossl md (take len input) = Some d \<and> length d = digest_size md \<and>
     cx_hash_no_throw ossl (Some hash) CX_LAST input len (Some buf) out_len =
       Some (CX_OK, Some (d @ drop (digest_size md) buf))"
proof -
  obtain d where d: "EVP_DigestFinal ossl md (take len input) = Some d" "length d = digest_size md"
    using assms(1) by (auto simp: openssl_works_def)
  have "(if algo hash = CX_SHA256 then Some EVP_sha256
      else if algo hash = CX_RIPEMD160 then Some EVP_ripemd160 else None) = Some md"
    using assms(2) by (cases md) simp_all
  moreover have "0 < digest_size md" "digest_size md \<le> 64" by (cases md; simp add: digest_size_def)+
  ultimately show ?thesis
    using assms d by (auto simp: cx_hash_no_throw_def openssl_works_def Let_def peek_def poke_def)
qed

lemma cx_hash_refuses_short_buffer:
  assumes "openssl_works ossl" and "algo hash = (case md of EVP_sha256 \<Rightarrow> CX_SHA256 | EVP_ripemd160 \<Rightarrow> CX_RIPEMD160)"
    and "out_len < digest_size md"
  shows "cx_hash_no_throw ossl (Some hash) CX_LAST input len (Some buf) out_len =
     Some (CX_INVALID_PARAMETER_SIZE, Some buf)"
proof -
  have "(if algo hash = CX_SHA256 then Some EVP_sha256
      else if algo hash = CX_RIPEMD160 then Some EVP_ripemd160 else None) = Some md"
    using assms(2) by (cases md) simp_all
  with assms show ?thesis by (simp add: cx_hash_no_throw_def openssl_works_def Let_def)
qed

lemma init_algo:
  "algo (header (snd cx_sha256_init)) = CX_SHA256" "algo (header (snd cx_ripemd160_init)) = CX_RIPEMD160"
  by (simp_all add: cx_sha256_init_def cx_ripemd160_init_def Let_def)

lemma hash_once_digest:
  assumes "openssl_works ossl"
  shows "hash_once ossl cx_sha256_init 32 m = EVP_DigestFinal ossl EVP_sha256 m"
    and "hash_once ossl cx_ripemd160_init 20 m = EVP_DigestFinal ossl EVP_ripemd160 m"
  using cx_hash_writes_digest [OF assms, of "header (snd cx_sha256_init)" EVP_sha256 32 "replicate 32 0" "length m" m]
    cx_hash_writes_digest [OF assms, of "header (snd cx_ripemd160_init)" EVP_ripemd160 20 "replicate 20 0" "length m" m]
  by (auto simp: hash_once_def init_algo digest_size_def)

lemma with_test_crypto_contract:
  assumes "openssl_works ossl" and "sdk_contract sdk"
  shows "sdk_contract (with_test_crypto ossl sdk)"
proof -
  have "\<exists>d. EVP_DigestFinal ossl md m = Some d \<and> length d = digest_size md" for md m
    using assms(1) by (simp add: openssl_works_def)
  from this [of EVP_sha256] this [of EVP_ripemd160] assms(2) show ?thesis
    by (simp add: sdk_contract_def with_test_crypto_def hash_once_digest [OF assms(1)] digest_size_def)
qed

text \<open>An instance.\<close>

definition demo_openssl :: openssl where
  "demo_openssl =
     \<lparr>EVP_MD_size = (\<lambda>md. int (digest_size md)), EVP_MD_CTX_new = True, EVP_DigestInit = (\<lambda>md. True),
      EVP_DigestUpdate = (\<lambda>md m. True),
      EVP_DigestFinal = (\<lambda>md m. Some (replicate (digest_size md) (foldl (\<lambda>h b. 3 * h + b) 1 m)))\<rparr>"

lemma demo_openssl_works: "openssl_works demo_openssl"
  by (simp add: openssl_works_def demo_openssl_def)

end
