(* ===== verification/Fuzz_Harness.thy ===== *)
theory Fuzz_Harness
  imports Review Test_Crypto
begin

text \<open>
  \<open>src/fuzzing/src/fuzz_tx.c\<close>: the harness the fuzzer calls with arbitrary bytes. It parses them and,
  if the parser accepts, makes the title and the value of every field in the same two buffers.
\<close>

section \<open>The code\<close>

definition update_title :: "field_t \<Rightarrow> string \<Rightarrow> string option" where
  "update_title field title =
     (let name = resolve_field_name field in
      Option.bind (strncpy title 0 name (length title)) (\<lambda>title.
      Option.bind (poke title (length title - 1) [NUL]) (\<lambda>title.
      Option.bind (strlen title) (\<lambda>len.
      if ai_type (array_info field) = ARRAY_PATHSET then
        snprintf title len (length title - len)
          ('' [P'' @ print_dec (unat (index1 (array_info field))) @ '': S'' @
           print_dec (unat (index2 (array_info field))) @ '']'')
      else if ai_type (array_info field) \<noteq> ARRAY_NONE then
        snprintf title len (length title - len)
          ('' ['' @ print_dec (unat (index1 (array_info field))) @ '']'')
      else Some title))))"

definition update_value ::
  "target \<Rightarrow> 'key sdk \<Rightarrow> parseContext_t \<Rightarrow> field_t \<Rightarrow> string \<Rightarrow> string option" where
  "update_value tgt sdk parse_context field val =
     format_field tgt sdk (transaction_type parse_context) (data parse_context) field val"

text \<open>The loop: field \<open>i\<close> is next, \<open>left\<close> fields to go.\<close>

primrec fuzz_fields ::
  "target \<Rightarrow> 'key sdk \<Rightarrow> parseContext_t \<Rightarrow> nat \<Rightarrow> nat \<Rightarrow> string \<times> string \<Rightarrow> (string \<times> string) option" where
  "fuzz_fields tgt sdk parse_context i 0 bufs = Some bufs"
| "fuzz_fields tgt sdk parse_context i (Suc left) bufs =
     (if length (res_fields (result parse_context)) \<le> i then None
      else let field = res_fields (result parse_context) ! i in
        Option.bind (update_title field (fst bufs)) (\<lambda>field_name.
        Option.bind (update_value tgt sdk parse_context field (snd bufs)) (\<lambda>field_value.
        fuzz_fields tgt sdk parse_context (i + 1) left (field_name, field_value))))"

text \<open>
  The context is cleared and gets the bytes; its length is a \<open>uint32_t\<close>. The result is what the
  function returns and the two buffers; \<open>None\<close> is a run the sanitizers would stop, or that does
  not end.
\<close>

definition LLVMFuzzerTestOneInput ::
  "target \<Rightarrow> 'key sdk \<Rightarrow> u8 list \<Rightarrow> string \<times> string \<Rightarrow> (int \<times> string \<times> string) option" where
  "LLVMFuzzerTestOneInput tgt sdk bytes bufs =
     Option.bind (parse_tx (init_context bytes (of_nat (length bytes)))) (\<lambda>(err, parse_context).
     case err of
       Inl e \<Rightarrow> if e = BAD_ACCESS then None else Some (0, bufs)
     | Inr _ \<Rightarrow>
         map_option (Pair 0)
           (fuzz_fields tgt sdk parse_context 0 (unat (num_fields (result parse_context))) bufs))"

section \<open>It finds nothing\<close>

lemma update_title_eq: "update_title = build_title"
  by (intro ext) (simp add: update_title_def build_title_def Let_def)

definition bufs_ok :: "target \<Rightarrow> string \<times> string \<Rightarrow> bool" where
  "bufs_ok tgt bufs \<longleftrightarrow> length (fst bufs) = MAX_FIELDNAME_LEN \<and> length (snd bufs) = MAX_FIELD_LEN tgt"

text \<open>After the loop the buffers show its last field.\<close>

definition shows_field ::
  "target \<Rightarrow> 'key sdk \<Rightarrow> parseContext_t \<Rightarrow> string \<times> string \<Rightarrow> field_t \<Rightarrow> bool" where
  "shows_field tgt sdk c bufs f \<longleftrightarrow>
     cstr (fst bufs) = title_text f \<and>
     cstr (snd bufs) = shown_text tgt sdk (transaction_type c) (data c) f"

lemma one_field:
  assumes "sdk_contract sdk" and "field_shape m f" and "m \<le> length (data c)" and "bufs_ok tgt bufs"
  shows "\<exists>t v. update_title f (fst bufs) = Some t \<and> update_value tgt sdk c f (snd bufs) = Some v \<and>
     bufs_ok tgt (t, v) \<and> shows_field tgt sdk c (t, v) f"
proof -
  have title: "update_title f (fst bufs) = Some (padded MAX_FIELDNAME_LEN (title_text f))"
    unfolding update_title_eq using assms(4) by (intro build_title_spec) (simp add: bufs_ok_def)
  have "displays (MAX_FIELD_LEN tgt) (update_value tgt sdk c f (snd bufs))
      (shown_text tgt sdk (transaction_type c) (data c) f)"
    unfolding update_value_def using assms(4)
    by (intro format_field_shows [OF assms(1-3)]) (simp add: bufs_ok_def)
  then obtain v where "update_value tgt sdk c f (snd bufs) = Some v" "length v = MAX_FIELD_LEN tgt"
    "cstr v = shown_text tgt sdk (transaction_type c) (data c) f"
    by (auto simp: displays_def holds_def)
  with title show ?thesis
    using title_text_props [of f] by (auto simp: bufs_ok_def shows_field_def)
qed

lemma fuzz_fields_show:
  assumes "sdk_contract sdk" and "bufs_ok tgt bufs" and "i + left \<le> length (res_fields (result c))"
    and "\<And>j. j < i + left \<Longrightarrow> field_shape m (res_fields (result c) ! j)" and "m \<le> length (data c)"
  shows "\<exists>out. fuzz_fields tgt sdk c i left bufs = Some out \<and> bufs_ok tgt out \<and>
     (if left = 0 then out = bufs else shows_field tgt sdk c out (res_fields (result c) ! (i + left - 1)))"
  using assms(2-4)
proof (induction left arbitrary: i bufs)
  case (Suc left)
  from one_field [OF assms(1) Suc.prems(3) [of i] assms(5) Suc.prems(1)] obtain t v
    where t: "update_title (res_fields (result c) ! i) (fst bufs) = Some t"
      "update_value tgt sdk c (res_fields (result c) ! i) (snd bufs) = Some v"
      "bufs_ok tgt (t, v)" "shows_field tgt sdk c (t, v) (res_fields (result c) ! i)"
    by auto
  from Suc.IH [OF t(3), of "i + 1"] Suc.prems(2,3) t show ?case
    by (auto simp: Let_def split: if_splits)
qed simp

lemma fuzz_run:
  assumes "sdk_contract sdk" and "length bytes \<le> MAX_LEN" and "bufs_ok tgt bufs"
  shows "\<exists>out. LLVMFuzzerTestOneInput tgt sdk bytes bufs = Some (0, out) \<and> bufs_ok tgt out \<and>
     (case parse_tx (init_context bytes (of_nat (length bytes))) of
        Some (Inr _, d) \<Rightarrow> used_fields (result d) \<noteq> [] \<and> shows_field tgt sdk d out (last (used_fields (result d)))
      | _ \<Rightarrow> out = bufs)"
proof -
  let ?len = "of_nat (length bytes) :: u32"
  have n: "unat ?len = length bytes"
    using assms(2) by (simp add: unat_of_nat_eq MAX_LEN_def)
  then have len: "unat ?len \<le> length bytes" "unat ?len \<le> MAX_LEN" using assms(2) by simp_all
  obtain r d where p: "parse_tx (init_context bytes ?len) = Some (r, d)"
    and e: "ends_well (init_context bytes ?len) r d" and clear: "r = Inr () \<longrightarrow> clear_signable d"
    using parse_tx_ends [OF init_context_inv [OF len]] by blast
  show ?thesis
  proof (cases r)
    case (Inl x)
    with e p assms(3) show ?thesis by (simp add: LLVMFuzzerTestOneInput_def ends_well_def field_error_def)
  next
    case (Inr u)
    let ?fs = "used_fields (result d)"
    have d: "ctx_inv {} d" "data d = bytes" using e Inr by (simp_all add: ends_well_def init_context_def)
    have cap: "nf d \<le> length (res_fields (result d))" using d(1) by (simp add: ctx_inv_def ctx_ok_def)
    have shape: "field_shape (length bytes) (slot d j)" if "j < nf d" for j
      using that d by (auto simp: ctx_inv_def ctx_ok_def intro: field_shape_mono)
    have some: "?fs \<noteq> []" using clear Inr by (auto simp: clear_signable_def has_field_def Let_def)
    then have "nf d \<noteq> 0" using cap by (auto simp: used_fields_def)
    moreover have "last ?fs = slot d (nf d - 1)"
      using last_conv_nth [OF some] cap \<open>nf d \<noteq> 0\<close> by (simp add: used_fields_def)
    ultimately show ?thesis
      using fuzz_fields_show [OF assms(1,3), of 0 "nf d" d "length bytes"] cap shape d(2) p Inr some
      by (auto simp: LLVMFuzzerTestOneInput_def)
  qed
qed

text \<open>
  C40. The fuzzer finds nothing. On any bytes, with hash functions as in the unit tests, the harness
  returns 0 and never leaves a buffer, whatever its two buffers held before; if the parser accepts
  the bytes there is a field, and the buffers hold the title and the text of the last one.
\<close>

theorem fuzzing_finds_nothing:
  assumes "openssl_works ossl" and "sdk_contract sdk" and "length bytes \<le> MAX_LEN"
    and "length field_name = MAX_FIELDNAME_LEN" and "length field_value = MAX_FIELD_LEN tgt"
  shows "\<exists>title val. LLVMFuzzerTestOneInput tgt (with_test_crypto ossl sdk) bytes (field_name, field_value) =
       Some (0, title, val) \<and>
     (case parse_tx (init_context bytes (of_nat (length bytes))) of
        Some (Inr _, d) \<Rightarrow> used_fields (result d) \<noteq> [] \<and>
          (let f = last (used_fields (result d)) in
           cstr title = title_text f \<and>
           cstr val = shown_text tgt (with_test_crypto ossl sdk) (transaction_type d) (data d) f)
      | _ \<Rightarrow> (title, val) = (field_name, field_value))"
proof -
  have "bufs_ok tgt (field_name, field_value)" using assms(4,5) by (simp add: bufs_ok_def)
  from fuzz_run [OF with_test_crypto_contract [OF assms(1,2)] assms(3) this]
  show ?thesis unfolding shows_field_def Let_def split_paired_Ex fst_conv snd_conv by blast
qed

theorem fuzzing_finds_nothing_witness:
  "\<exists>d title val. parse_tx (init_context payment_example 110) = Some (Inr (), d) \<and>
     LLVMFuzzerTestOneInput TARGET_NANOS (with_test_crypto demo_openssl demo_sdk) payment_example
       (replicate MAX_FIELDNAME_LEN CHR ''x'', replicate 128 CHR ''y'') = Some (0, title, val) \<and>
     cstr title = title_text (last (used_fields (result d)))"
proof -
  obtain d where d: "parse_tx (init_context payment_example 110) = Some (Inr (), d)"
    using payment_example_parses by blast
  have n: "length payment_example = 110" "length payment_example \<le> MAX_LEN"
    by (simp_all add: payment_example_def MAX_LEN_def)
  have v: "length (replicate 128 CHR ''y'') = MAX_FIELD_LEN TARGET_NANOS" by (simp add: MAX_FIELD_LEN_def)
  from fuzzing_finds_nothing [OF demo_openssl_works demo_sdk_contract n(2) length_replicate v] d n(1)
  show ?thesis by (fastforce simp: Let_def)
qed

end
