(* ===== verification/Swap_Entry.thy ===== *)
theory Swap_Entry
  imports Session_Properties Print_Amount
begin

text \<open>
  The entry points the exchange app calls as a library: \<open>handle_check_address.c\<close>,
  \<open>handle_get_printable_amount.c\<close> and \<open>swap_copy_transaction_parameters\<close> of
  \<open>handle_swap_sign_transaction.c\<close>, all under \<open>src/src/swap/\<close>, and what a run that starts with
  the copied parameters signs.
\<close>

section \<open>The code\<close>

text \<open>
  The parameters are the exchange app's memory: a pointer is the list of what lies from it on.
  \<open>c_source\<close> is what \<open>strncpy\<close> reads through such a pointer, at most \<open>n\<close> characters and none
  after a zero; \<open>memcmp\<close> may read all \<open>n\<close> characters of both sides.
\<close>

definition c_source :: "string \<Rightarrow> nat \<Rightarrow> string option" where
  "c_source s n = (if NUL \<in> set (take n s) \<or> n \<le> length s then Some (cstr (take n s)) else None)"

definition memcmp_equal :: "string \<Rightarrow> string \<Rightarrow> nat \<Rightarrow> bool option" where
  "memcmp_equal a b n = Option.bind (peek a 0 n) (\<lambda>x. map_option (\<lambda>y. x = y) (peek b 0 n))"

text \<open>
  \<open>swap_str_to_u64\<close> as the header the unit tests use has it. The app is linked with the SDK's, the
  argument \<open>sdk_str_to_u64\<close>; the contract says the two agree.
\<close>

definition swap_str_to_u64 :: "u8 list \<Rightarrow> u64 option" where
  "swap_str_to_u64 src =
     (if length src > 8 then None
      else Some (foldl (\<lambda>value b. push_bit 8 value OR ucast b) 0 src))"

definition str_to_u64_contract :: "'key sdk \<Rightarrow> bool" where
  "str_to_u64_contract sdk \<longleftrightarrow> sdk_str_to_u64 sdk = swap_str_to_u64"

record create_transaction_parameters_t =
  ctp_amount :: "u8 list"
  amount_length :: u8
  fee_amount :: "u8 list"
  fee_amount_length :: u8
  destination_address :: string
  destination_address_extra_id :: string

text \<open>
  The result is \<open>Some None\<close> when the function returns false, with the globals as they were, and
  \<open>Some (Some w)\<close> when it returns true: the globals are then cleared and hold \<open>w\<close>, which is
  the state \<open>start_app (Some w)\<close>.
\<close>

definition swap_copy_transaction_parameters ::
  "'key sdk \<Rightarrow> create_transaction_parameters_t \<Rightarrow> swapStrings_t option option" where
  "swap_copy_transaction_parameters sdk params =
     (let stack_data = zero_swap in
      Option.bind (c_source (destination_address params) (length (sw_address stack_data) - 1)) (\<lambda>src.
      Option.bind (strncpy (sw_address stack_data) 0 src (length (sw_address stack_data) - 1)) (\<lambda>a.
      Option.bind (c_source (destination_address_extra_id params) (length (destination_tag stack_data))) (\<lambda>src.
      Option.bind (strncpy (destination_tag stack_data) 0 src (length (destination_tag stack_data))) (\<lambda>tag.
      Option.bind (peek a (length a - 1) 1) (\<lambda>ca.
      Option.bind (peek tag (length tag - 1) 1) (\<lambda>ct.
        if ca \<noteq> [NUL] \<or> ct \<noteq> [NUL] then Some None
        else
          Option.bind (peek (ctp_amount params) 0 (unat (amount_length params))) (\<lambda>bs.
          case sdk_str_to_u64 sdk bs of None \<Rightarrow> Some None | Some amount \<Rightarrow>
          Option.bind (peek (fee_amount params) 0 (unat (fee_amount_length params))) (\<lambda>bs.
          case sdk_str_to_u64 sdk bs of None \<Rightarrow> Some None | Some fee \<Rightarrow>
            Some (Some (stack_data\<lparr>sw_address := a, destination_tag := tag, sw_amount := amount, sw_fee := fee\<rparr>)))))))))))"

definition os_strcmp_equal :: "string \<Rightarrow> string \<Rightarrow> bool option" where
  "os_strcmp_equal s1 s2 = Option.bind (strlen s1) (\<lambda>n. memcmp_equal s1 s2 (n + 1))"

record check_address_parameters_t =
  address_parameters :: "u8 list option"
  address_parameters_length :: u8
  address_to_check :: "string option"

text \<open>
  The value of \<open>params->result\<close> on return. The local address starts as stack data, of which only
  what \<open>get_address\<close> has written is compared; zeros stand for it.
\<close>

definition swap_handle_check_address :: "'key sdk \<Rightarrow> check_address_parameters_t \<Rightarrow> int option" where
  "swap_handle_check_address sdk params =
     (case address_to_check params of None \<Rightarrow> Some 0 | Some expected \<Rightarrow>
      case address_parameters params of None \<Rightarrow> Some 0 | Some ptr \<Rightarrow>
      if address_parameters_length params < 1 then Some 0
      else
        let params_length = unat (address_parameters_length params) - 1 in
        Option.bind (peek ptr 0 1) (\<lambda>b.
        Option.bind (get_public_key sdk CX_CURVE_256K1 (drop 1 ptr) (unat (hd b)) params_length) (\<lambda>(error, key).
          if error \<noteq> 0 then Some 0
          else case key of None \<Rightarrow> None | Some (W, _) \<Rightarrow>
            Option.bind (get_address sdk CX_CURVE_256K1 W (replicate XRP_ADDRESS_SIZE NUL)) (\<lambda>a.
            Option.bind (os_strcmp_equal a expected) (\<lambda>same. if \<not> same then Some 0 else Some 1)))))"

text \<open>The text left in \<open>params->printable_amount\<close>; the amount is the bytes and their number.\<close>

definition swap_handle_get_printable_amount :: "'key sdk \<Rightarrow> u8 list \<Rightarrow> u8 \<Rightarrow> string \<Rightarrow> string option" where
  "swap_handle_get_printable_amount sdk amount n printable_amount =
     Option.bind (poke printable_amount 0 [NUL]) (\<lambda>printable_amount.
     Option.bind (peek amount 0 (unat n)) (\<lambda>bs.
     case sdk_str_to_u64 sdk bs of None \<Rightarrow> Some printable_amount
     | Some v \<Rightarrow> map_option snd (xrp_print_amount v printable_amount (length printable_amount))))"

section \<open>The pieces\<close>

lemma shift_in_byte: "push_bit 8 (v :: u64) OR ucast (b :: u8) = 256 * v + of_nat (unat b)"
proof -
  have "push_bit 8 v AND ucast b = (0 :: u64)"
    by (rule bit_word_eqI) (auto simp: bit_simps dest: bit_imp_le_length)
  then have "push_bit 8 v OR ucast b = push_bit 8 v + (ucast b :: u64)"
    by (simp add: disjunctive_add_eq_or)
  then show ?thesis by (simp add: push_bit_eq_mult mult.commute)
qed

lemma swap_str_to_u64_value:
  "swap_str_to_u64 src = (if 8 < length src then None else Some (of_nat (be_val src)))"
proof -
  have "foldl (\<lambda>value b. push_bit 8 value OR ucast b) 0 src = (of_nat (be_val src) :: u64)"
    by (induction src rule: rev_induct) (simp_all add: shift_in_byte)
  then show ?thesis by (simp add: swap_str_to_u64_def)
qed

lemma demo_sdk_str_to_u64: "str_to_u64_contract demo_sdk"
  by (simp add: str_to_u64_contract_def demo_sdk_def fun_eq_iff swap_str_to_u64_value not_le)

lemma c_source_text:
  assumes "NUL \<notin> set t"
  shows "c_source (t @ NUL # rest) n = Some (take n t)"
proof (cases "length t < n")
  case True
  then have "take n (t @ NUL # rest) = t @ NUL # take (n - length t - 1) rest"
    by (simp add: take_Cons')
  then show ?thesis using assms True by (simp add: c_source_def)
next
  case False
  then have "NUL \<notin> set (take n t)" using assms by (auto dest: in_set_takeD)
  with False show ?thesis by (simp add: c_source_def cstr_no_NUL)
qed

section \<open>The parameters of a swap\<close>

lemma strncpy_short: "strncpy (replicate (Suc n) NUL) 0 s n = Some (padded (Suc n) (take n s))"
proof -
  have "replicate (n - length s) NUL @ replicate 1 NUL = replicate (Suc n - min (length s) n) NUL"
    unfolding replicate_add [symmetric] by (cases "length s \<le> n") (simp_all add: Suc_diff_le)
  moreover have "length (take n s @ replicate (n - length s) NUL) = n" by simp
  then have "poke (replicate (Suc n) NUL) 0 (take n s @ replicate (n - length s) NUL) =
      Some ((take n s @ replicate (n - length s) NUL) @ replicate 1 NUL)"
    unfolding poke_def by (simp del: length_append replicate_Suc)
  ultimately show ?thesis by (simp add: strncpy_def padded_def del: replicate_Suc)
qed

lemma peek_last_padded:
  assumes "length s < n"
  shows "peek (padded n s) (n - 1) 1 = Some [NUL]"
proof -
  have "n - length s - (n - 1 - length s) = Suc 0" using assms by simp
  with assms show ?thesis by (simp add: peek_def padded_def)
qed

text \<open>Parameters the exchange app may send: terminated texts, amounts of the lengths announced.\<close>

definition sent_params ::
  "create_transaction_parameters_t \<Rightarrow> string \<Rightarrow> string \<Rightarrow> u8 list \<Rightarrow> u8 list \<Rightarrow> bool" where
  "sent_params p addr tag amount fee \<longleftrightarrow>
     NUL \<notin> set addr \<and> (\<exists>rest. destination_address p = addr @ NUL # rest) \<and>
     NUL \<notin> set tag \<and> (\<exists>rest. destination_address_extra_id p = tag @ NUL # rest) \<and>
     peek (ctp_amount p) 0 (unat (amount_length p)) = Some amount \<and>
     peek (fee_amount p) 0 (unat (fee_amount_length p)) = Some fee"

text \<open>
  The copy is refused just for a tag of more than ten characters or an amount of more than
  eight bytes. A long address is cut to 40 characters instead, and the check of its last
  character never fails.
\<close>

lemma swap_copy_spec:
  assumes "str_to_u64_contract sdk" and "sent_params p addr tag amount fee"
  shows "swap_copy_transaction_parameters sdk p =
     Some (if 10 < length tag \<or> 8 < length amount \<or> 8 < length fee then None
       else Some \<lparr>sw_address = padded 41 (take 40 addr), destination_tag = padded 11 tag,
         sw_amount = of_nat (be_val amount), sw_fee = of_nat (be_val fee), sw_tmp = replicate 41 NUL\<rparr>)"
proof -
  obtain r1 r2 where mem: "destination_address p = addr @ NUL # r1" "destination_address_extra_id p = tag @ NUL # r2"
    and plain: "NUL \<notin> set addr" "NUL \<notin> set tag"
    and amounts: "peek (ctp_amount p) 0 (unat (amount_length p)) = Some amount"
      "peek (fee_amount p) 0 (unat (fee_amount_length p)) = Some fee"
    using assms(2) by (auto simp: sent_params_def)
  have a: "strncpy (replicate 41 NUL) 0 (take 40 addr) 40 = Some (padded 41 (take 40 addr))"
    using strncpy_short [of 40 "take 40 addr"] by simp
  have t: "strncpy (replicate 11 NUL) 0 (take 11 tag) 11 = Some (take 11 (padded 11 tag))"
    by (simp add: strncpy_def poke_def padded_def del: replicate_Suc)
  have la: "length (padded 41 (take 40 addr)) = 41" by (intro length_padded) simp
  have lt: "length (take 11 (padded 11 tag)) = 11" by (simp add: padded_def)
  have ca: "peek (padded 41 (take 40 addr)) (41 - 1) 1 = Some [NUL]"
    by (rule peek_last_padded) simp
  have ct: "peek (take 11 (padded 11 tag)) (11 - 1) 1 = Some [if length tag \<le> 10 then NUL else tag ! 10]"
  proof (cases "length tag \<le> 10")
    case True
    then show ?thesis using peek_last_padded [of tag 11] by (simp del: peek_eq_Some)
  next
    case False
    then have "take 11 tag = take 10 tag @ [tag ! 10]"
      using take_Suc_conv_app_nth [of 10 tag] by simp
    with False show ?thesis by (simp add: peek_def padded_def)
  qed
  have nt: "tag ! 10 \<noteq> NUL" if "10 < length tag" using that plain(2) nth_mem by metis
  show ?thesis
    using a t ca ct nt assms(1) plain amounts la lt
    by (simp add: swap_copy_transaction_parameters_def Let_def mem c_source_text zero_swap_def
      str_to_u64_contract_def swap_str_to_u64_value padded_def del: peek_eq_Some replicate_Suc)
qed

section \<open>What a run started with them signs\<close>

text \<open>
  The payment in terms of the exchange app's own parameters: the destination is the whole
  address sent, the amounts are the numbers whose bytes it sent.
\<close>

definition amount_is :: "u8 list \<Rightarrow> field_t \<Rightarrow> nat \<Rightarrow> bool" where
  "amount_is raw f v \<longleftrightarrow>
     fld_length f = 8 \<and> (\<exists>p. fdata f = DPtr p \<and> be_val (take 8 (drop p raw)) = 2 ^ 62 + v)"

definition pays ::
  "'key sdk \<Rightarrow> string \<Rightarrow> string \<Rightarrow> u8 list \<Rightarrow> u8 list \<Rightarrow> parseContext_t \<Rightarrow> bool" where
  "pays sdk addr tag amount fee d \<longleftrightarrow>
     (\<exists>f0 f1 f2 f3 f4 f5. used_fields (result d) = [f0, f1, f2, f3, f4, f5] \<and>
        has_code f0 STI_UINT16 XRP_UINT16_TRANSACTION_TYPE \<and> fdata f0 = DU16 TRANSACTION_PAYMENT \<and>
        has_code f1 STI_ACCOUNT XRP_ACCOUNT_ACCOUNT \<and>
        has_code f2 STI_UINT32 0x0E \<and> (\<exists>v. fdata f2 = DU32 v \<and> tag = print_dec (unat v)) \<and>
        has_code f3 STI_AMOUNT XRP_UINT64_AMOUNT \<and> amount_is (data d) f3 (be_val amount) \<and>
        has_code f4 STI_AMOUNT XRP_UINT64_FEE \<and> amount_is (data d) f4 (be_val fee) \<and>
        has_code f5 STI_ACCOUNT XRP_ACCOUNT_DESTINATION \<and> account_is sdk (data d) f5 addr)"

lemma unat_be_val:
  assumes "length bs \<le> 8"
  shows "unat (of_nat (be_val bs) :: u64) = be_val bs"
proof (rule unat_of_nat_eq)
  have "be_val bs < 256 ^ length bs" by (rule be_val_less)
  also have "\<dots> \<le> 256 ^ 8" using assms by (intro power_increasing) simp_all
  finally show "be_val bs < 2 ^ LENGTH(64)" by simp
qed

text \<open>No address has 40 characters, so an address that was cut is nobody's.\<close>

lemma account_is_whole:
  assumes "sdk_contract sdk" and "account_is sdk raw f (take 40 addr)"
  shows "account_is sdk raw f addr"
proof -
  obtain p where p: "fdata f = DPtr p" "p + 20 \<le> length raw"
    "address_of sdk (take 20 (drop p raw)) = take 40 addr"
    using assms(2) by (auto simp: account_is_def)
  have "length (take 20 (drop p raw)) = 20" using p(2) by simp
  from encoded_account [OF assms(1) this, of "replicate 41 NUL"]
  have "length (take 40 addr) \<le> 36" using p(3) by simp
  then have "take 40 addr = addr" by simp
  with p show ?thesis by (auto simp: account_is_def)
qed

lemma agreed_pays:
  assumes "sdk_contract sdk" and "str_to_u64_contract sdk" and "sent_params p addr tag amount fee"
    and "swap_copy_transaction_parameters sdk p = Some (Some w)"
  shows "swap_ok w" and "swap_agreed sdk w d \<Longrightarrow> pays sdk addr tag amount fee d"
proof -
  have fits: "length tag \<le> 10" "length amount \<le> 8" "length fee \<le> 8"
    and w: "w = \<lparr>sw_address = padded 41 (take 40 addr), destination_tag = padded 11 tag,
      sw_amount = of_nat (be_val amount), sw_fee = of_nat (be_val fee), sw_tmp = replicate 41 NUL\<rparr>"
    using assms(4) unfolding swap_copy_spec [OF assms(2,3)] by (auto split: if_splits)
  have nul: "NUL \<notin> set (take 40 addr)" "NUL \<notin> set tag"
    using assms(3) by (auto simp: sent_params_def dest: in_set_takeD)
  have len: "length (take 40 addr) < 41" by simp
  show "swap_ok w"
    using len fits(1) by (simp add: swap_ok_def w) (simp add: padded_def)
  assume agreed: "swap_agreed sdk w d"
  have whole: "account_is sdk (data d) f addr" if "account_is sdk (data d) f (cstr (sw_address w))" for f
    using that account_is_whole [OF assms(1)] nul(1) len by (simp add: w)
  have sum: "amount_is (data d) f (be_val bs)"
    if "xrp_amount_is (data d) f (of_nat (be_val bs))" "length bs \<le> 8" for f bs
    using that unat_be_val by (auto simp: amount_is_def xrp_amount_is_def)
  have tag: "cstr (destination_tag w) = tag" using nul(2) fits(1) by (simp add: w)
  have sums: "sw_amount w = of_nat (be_val amount)" "sw_fee w = of_nat (be_val fee)" by (simp_all add: w)
  from agreed whole sum [OF _ fits(2)] sum [OF _ fits(3)] show "pays sdk addr tag amount fee d"
    unfolding swap_agreed_def pays_def tag sums by blast
qed

text \<open>
  C7. A swap pays what the exchange app announced. The exchange app calls with an address, a
  tag, an amount and a fee; \<open>swap_copy_transaction_parameters\<close> accepts them and the app starts with
  what it has copied. Then, whatever commands follow, the app signs nothing while it runs, and when
  it ends it has signed nothing or one transaction: a payment of exactly the announced number of
  drops, with exactly the announced fee, the announced tag, to exactly the announced address. In
  particular the copy's cutting of long addresses never makes the app pay somebody else.
\<close>

theorem swap_pays_what_was_announced:
  assumes "sdk_contract sdk" and "str_to_u64_contract sdk" and "sent_params p addr tag amount fee"
    and "swap_copy_transaction_parameters sdk p = Some (Some w)"
    and "steps (handle_event sdk) (Running (start_app (Some w) setting)) es r"
  shows "(\<forall>t. r = Running t \<longrightarrow> signatures t = []) \<and>
     (\<forall>t. r = Left t \<longrightarrow> signatures t = [] \<or>
        (\<exists>curve path bytes suffix d.
           signatures t = [Signature curve path (prefix_of (has_empty_pub_key d) @ bytes @ suffix)] \<and>
           (suffix \<noteq> [] \<longrightarrow> has_empty_pub_key d) \<and>
           parse_tx (init_context bytes (of_nat (length bytes))) = Some (Inr (), d) \<and>
           pays sdk addr tag amount fee d))"
proof -
  note w = agreed_pays [OF assms(1-4)]
  from run_swap [OF assms(1) w(1) assms(5)] w(2) show ?thesis
    unfolding swap_signature_def by blast
qed

text \<open>The parameters of the example: one XRP, in the three bytes the exchange app would send.\<close>

definition params_example :: create_transaction_parameters_t where
  "params_example =
     \<lparr>ctp_amount = [0x0F, 0x42, 0x40], amount_length = 3, fee_amount = [15], fee_amount_length = 1,
      destination_address = address_of demo_sdk swap_account @ [NUL], destination_address_extra_id = [CHR ''7'', NUL]\<rparr>"

lemma params_example_sent:
  "sent_params params_example (address_of demo_sdk swap_account) ''7'' [0x0F, 0x42, 0x40] [15]"
  unfolding sent_params_def by (simp add: params_example_def address_of_def NUL_notin_base58)

lemma params_example_copied:
  "swap_copy_transaction_parameters demo_sdk params_example = Some (Some swap_example)"
proof -
  have "length (address_of demo_sdk swap_account) \<le> 36"
    using encoded_account [OF demo_sdk_contract swap_bytes(2), of "replicate 41 NUL"] by simp
  then have "take 40 (address_of demo_sdk swap_account) = address_of demo_sdk swap_account" by simp
  moreover have "padded 11 ''7'' = CHR ''7'' # replicate 10 NUL" by (simp add: padded_def)
  moreover have "of_nat (be_val [0x0F, 0x42, 0x40]) = (1000000 :: u64)" "of_nat (be_val [15]) = (15 :: u64)"
    by (simp_all add: be_val_Cons)
  ultimately show ?thesis
    unfolding swap_copy_spec [OF demo_sdk_str_to_u64 params_example_sent] swap_example_def
    by simp
qed

theorem swap_pays_what_was_announced_witness:
  "\<exists>es t curve path bs suffix d. swap_copy_transaction_parameters demo_sdk params_example = Some (Some swap_example) \<and>
     steps (handle_event demo_sdk) (Running (start_app (Some swap_example) 0)) es (Left t) \<and>
     signatures t = [Signature curve path (prefix_of (has_empty_pub_key d) @ bs @ suffix)] \<and>
     parse_tx (init_context bs (of_nat (length bs))) = Some (Inr (), d) \<and>
     pays demo_sdk (address_of demo_sdk swap_account) ''7'' [0x0F, 0x42, 0x40] [15] d"
proof -
  obtain t sig where t: "runs demo_sdk (start_app (Some swap_example) 0)
      (map Command (sign_packets 0x40 demo_path (bytes swap_tokens) [])) (Left t)"
    "trace t = [Signature CX_CURVE_256K1 demo_path (sign_prefix @ bytes swap_tokens), Send_Response sig 0x9000, Swap_Result True]"
    using swap_example_run .
  have "signatures t \<noteq> []" using t(2) by (simp add: signatures_def)
  with swap_pays_what_was_announced [OF demo_sdk_contract demo_sdk_str_to_u64 params_example_sent
      params_example_copied t(1)] t(1) params_example_copied
  show ?thesis by blast
qed

section \<open>Checking an address\<close>

text \<open>
  The comparison with a terminated text. It reads as many characters as the app's own address has,
  and one more, so it needs that much memory behind the pointer even if the text ends before.
\<close>

lemma os_strcmp_text:
  assumes "NUL \<notin> set a" and "NUL \<notin> set b" and "length a + 1 \<le> length (b @ NUL # rest)"
  shows "os_strcmp_equal (a @ NUL # r) (b @ NUL # rest) = Some (a = b)"
proof -
  have n: "strlen (a @ NUL # r) = Some (length a)" using assms(1) by (simp add: strlen_def)
  have "take (length a + 1) (b @ NUL # rest) = a @ [NUL] \<longleftrightarrow> a = b"
  proof
    assume eq: "take (length a + 1) (b @ NUL # rest) = a @ [NUL]"
    define t where "t = drop (length a + 1) (b @ NUL # rest)"
    have "b @ NUL # rest = (a @ [NUL]) @ t"
      unfolding eq [symmetric] t_def by (rule append_take_drop_id [symmetric])
    then have "cstr (b @ NUL # rest) = cstr (a @ NUL # t)" by simp
    then show "a = b" unfolding cstr_append_NUL [OF assms(1)] cstr_append_NUL [OF assms(2)] by (rule sym)
  qed simp
  with assms(3) show ?thesis
    by (auto simp: os_strcmp_equal_def n memcmp_equal_def peek_def)
qed

text \<open>
  C25. The exchange app's question about an address is answered right. For a derivation path of one to
  ten elements, and an address text with at least 37 characters of memory behind its pointer, the
  answer is 1 exactly when the text is the address of the secp256k1 key at that path, and 0 for any
  other text, be it a prefix or a continuation of the address.
\<close>

theorem check_address_correct:
  assumes "sdk_contract sdk" and "path \<noteq> []" and "length path \<le> MAX_BIP32_PATH"
    and "sdk_pubkey sdk CX_CURVE_256K1 path = (0, W, chain)"
    and "xrp_compress_public_key CX_CURVE_256K1 W = Some key" and "xrp_public_key_hash160 sdk key = Some h"
    and "address_parameters params = Some (of_nat (length path) # path_bytes path @ extra)"
    and "1 + 4 * length path \<le> unat (address_parameters_length params)"
    and "address_to_check params = Some (b @ NUL # rest)" and "NUL \<notin> set b" and "37 \<le> length (b @ NUL # rest)"
  shows "swap_handle_check_address sdk params = Some (if b = address_of sdk h then 1 else 0)"
proof -
  let ?a = "address_of sdk h"
  have h: "length h = 20" using hash160 [OF assms(1), of key] assms(6) by auto
  have la: "length ?a \<le> 36" using encoded_account [OF assms(1) h, of "replicate 41 NUL"] by simp
  have na: "NUL \<notin> set ?a" unfolding address_of_def by (rule NUL_notin_base58)
  obtain r where a: "get_address sdk CX_CURVE_256K1 W (replicate XRP_ADDRESS_SIZE NUL) = Some (?a @ NUL # r)"
    using get_address_text [OF assms(1,5,6), of "replicate XRP_ADDRESS_SIZE NUL"] by auto
  have same: "os_strcmp_equal (?a @ NUL # r) (b @ NUL # rest) = Some (?a = b)"
    using la assms(11) by (intro os_strcmp_text [OF na assms(10)]) simp
  have n: "unat (of_nat (length path) :: u8) = length path"
    using assms(3) by (intro unat_of_nat_eq) simp
  have key: "get_public_key sdk CX_CURVE_256K1 (path_bytes path @ extra) (length path)
      (unat (address_parameters_length params) - 1) = Some (0, Some (W, chain))"
    unfolding get_public_key_def
    using parse_path_bytes [OF assms(2,3), of "unat (address_parameters_length params) - 1" extra] assms(4,8)
    by simp
  have first: "peek (of_nat (length path) # path_bytes path @ extra) 0 1 = Some [of_nat (length path) :: u8]"
    by (simp add: peek_def)
  have some: "\<not> address_parameters_length params < 1"
    using assms(8) by (auto simp: word_less_nat_alt)
  have "swap_handle_check_address sdk params =
      Option.bind (Some (?a = b)) (\<lambda>same. if \<not> same then Some 0 else Some 1)"
    using some first key a n same
    by (simp add: swap_handle_check_address_def assms(7,9) del: peek_eq_Some)
  then show ?thesis by auto
qed

definition address_question :: "string \<Rightarrow> check_address_parameters_t" where
  "address_question expected =
     \<lparr>address_parameters = Some (1 # path_bytes [0]), address_parameters_length = 5,
      address_to_check = Some (expected @ NUL # replicate 36 NUL)\<rparr>"

theorem check_address_correct_witness:
  "\<exists>h. xrp_public_key_hash160 demo_sdk (3 # replicate 32 1) = Some h \<and>
     swap_handle_check_address demo_sdk (address_question (address_of demo_sdk h)) = Some 1 \<and>
     swap_handle_check_address demo_sdk (address_question (address_of demo_sdk h @ ''r'')) = Some 0"
proof -
  obtain h where h: "xrp_public_key_hash160 demo_sdk (3 # replicate 32 1) = Some h"
    using hash160 [OF demo_sdk_contract] .
  have key: "sdk_pubkey demo_sdk CX_CURVE_256K1 [0] = (0, 4 # replicate 64 1, replicate 32 1)"
    by (simp add: demo_sdk_def)
  have comp: "xrp_compress_public_key CX_CURVE_256K1 (4 # replicate 64 1) = Some (3 # replicate 32 1)"
    by (simp add: xrp_compress_public_key_def numeral_eq_Suc)
  have n: "NUL \<notin> set (address_of demo_sdk h)" unfolding address_of_def by (rule NUL_notin_base58)
  have ask: "swap_handle_check_address demo_sdk (address_question b) = Some (if b = address_of demo_sdk h then 1 else 0)"
    if "NUL \<notin> set b" for b
  proof (rule check_address_correct [OF demo_sdk_contract _ _ key comp h, where extra = "[]"])
    show "37 \<le> length (b @ NUL # replicate 36 NUL)"
      by (simp only: length_append list.size length_replicate)
  qed (use that in \<open>simp_all add: address_question_def\<close>)
  from h ask [OF n] ask [of "address_of demo_sdk h @ ''r''"] n show ?thesis by simp
qed

text \<open>
  C39. Anything else is no match. Without an address, without parameters, or with a path length of
  zero, of more than ten, or of more elements than the parameters have bytes for, the answer is 0
  and no memory outside the parameters is read.
\<close>

theorem check_address_refuses:
  assumes "\<And>ptr. address_parameters params = Some ptr \<Longrightarrow>
      unat (address_parameters_length params) \<le> length ptr"
    and "address_to_check params = None \<or> address_parameters params = None \<or>
      (\<exists>b extra. address_parameters params = Some (b # extra) \<and>
         (b = 0 \<or> MAX_BIP32_PATH < unat b \<or> unat (address_parameters_length params) < 1 + 4 * unat b))"
  shows "swap_handle_check_address sdk params = Some 0"
proof (cases "address_to_check params = None \<or> address_parameters params = None \<or> address_parameters_length params < 1")
  case True
  then show ?thesis by (auto simp: swap_handle_check_address_def split: option.split)
next
  case False
  then obtain b extra where m: "address_parameters params = Some (b # extra)"
    and bad: "b = 0 \<or> MAX_BIP32_PATH < unat b \<or> unat (address_parameters_length params) < 1 + 4 * unat b"
    using assms(2) by auto
  let ?n = "unat (address_parameters_length params) - 1"
  have n: "?n \<le> length extra" using assms(1) [OF m] by simp
  have "\<not> (1 \<le> unat b \<and> unat b \<le> MAX_BIP32_PATH \<and> 4 * unat b \<le> ?n)"
    using bad by auto
  with parse_path_total [OF n, of "replicate MAX_BIP32_PATH 0" "unat b"]
  have "get_public_key sdk CX_CURVE_256K1 extra (unat b) ?n = Some (0x6a80, None)"
    by (auto simp: get_public_key_def)
  with False m show ?thesis
    by (auto simp: swap_handle_check_address_def peek_def split: option.split)
qed

theorem check_address_refuses_witness:
  "swap_handle_check_address demo_sdk
     \<lparr>address_parameters = Some (11 # replicate 44 0), address_parameters_length = 45,
      address_to_check = Some (''r'' @ [NUL])\<rparr> = Some 0"
  by (rule check_address_refuses) simp_all

text \<open>
  When the text to check is shorter than the app's own address, the comparison is told to read
  beyond the end of the text: with nothing behind it, that is an access out of bounds.
\<close>

lemma short_text_is_overread:
  assumes "NUL \<notin> set a" and "length b < length a"
  shows "os_strcmp_equal (a @ NUL # r) (b @ [NUL]) = None"
  using assms by (simp add: os_strcmp_equal_def strlen_def memcmp_equal_def peek_def)

text \<open>An address of more than 40 characters is not refused but cut.\<close>

lemma long_address_is_cut:
  assumes "str_to_u64_contract sdk" and "sent_params p addr tag amount fee" and "40 < length addr"
    and "length tag \<le> 10" and "length amount \<le> 8" and "length fee \<le> 8"
  shows "\<exists>w. swap_copy_transaction_parameters sdk p = Some (Some w) \<and> cstr (sw_address w) = take 40 addr"
proof -
  have "NUL \<notin> set (take 40 addr)" using assms(2) by (auto simp: sent_params_def dest: in_set_takeD)
  with assms show ?thesis by (auto simp: swap_copy_spec)
qed

section \<open>Printing an amount\<close>

text \<open>
  C27. The amount the exchange app shows. Whatever big-endian bytes it sends, up to 255 of them,
  the answer stays within the 50 characters and is the text of the number of drops those bytes hold,
  as XRP; it is the empty text for more than eight bytes and for amounts of \<open>10 ^ 19\<close> drops and
  more. The text reads back as the number of drops divided by a million.
\<close>

theorem printable_amount_correct:
  assumes "str_to_u64_contract sdk" and "peek amount 0 (unat n) = Some bs" and "length buf = 50"
  shows "\<exists>out. swap_handle_get_printable_amount sdk amount n buf = Some out \<and> length out = 50 \<and>
     cstr out = (if length bs \<le> 8 \<and> be_val bs < 10 ^ 19 then xrp_text (be_val bs) else []) \<and>
     read_decimal (drop 4 (xrp_text (be_val bs))) = Some (of_nat (be_val bs) / 10 ^ 6)"
proof -
  let ?b = "NUL # tl buf"
  have zero: "poke buf 0 [NUL] = Some ?b" "length ?b = 50" "cstr ?b = []"
    using assms(3) by (cases buf; simp add: poke_def cstr_def)+
  have spec: "swap_handle_get_printable_amount sdk amount n buf =
      (if 8 < length bs then Some ?b else map_option snd (xrp_print_amount (of_nat (be_val bs)) ?b 50))"
    using zero(1,2) assms(1,2)
    by (simp add: swap_handle_get_printable_amount_def str_to_u64_contract_def swap_str_to_u64_value del: peek_eq_Some)
  show ?thesis
  proof (cases "8 < length bs")
    case True
    with spec zero show ?thesis using read_xrp_text by simp
  next
    case False
    then have v: "unat (of_nat (be_val bs) :: u64) = be_val bs" by (intro unat_be_val) simp
    have len: "length (xrp_text (be_val bs)) \<le> 24" if "be_val bs < 10 ^ 19"
      using that by (rule length_xrp_text)
    have print: "xrp_print_amount (of_nat (be_val bs)) ?b 50 =
        (if be_val bs < 10 ^ 19 then Some (0, padded 50 (xrp_text (be_val bs))) else Some (-1, ?b))"
      using xrp_print_amount_spec [OF zero(2), of "of_nat (be_val bs)"] unfolding v by simp
    show ?thesis
    proof (cases "be_val bs < 10 ^ 19")
      case True
      with False len [OF True] print spec NUL_notin_xrp_text show ?thesis
        by (simp add: read_xrp_text del: num_digits_le_iff)
    next
      case big: False
      with False print spec zero(2,3) show ?thesis by (simp add: read_xrp_text)
    qed
  qed
qed

theorem printable_amount_correct_witness:
  "\<exists>out. swap_handle_get_printable_amount demo_sdk [0, 4, 0xD2] 3 (replicate 50 CHR ''x'') = Some out \<and>
     cstr out = ''XRP 0.001234'' \<and> read_decimal ''0.001234'' = Some (1234 / 10 ^ 6)"
proof -
  have v: "be_val [0, 4, 0xD2] = 1234" by (simp add: be_val_Cons)
  have t: "xrp_text 1234 = ''XRP 0.001234''"
    by (simp add: xrp_text_def point_text_def trim_text_def strip_zeros_def num_digits.simps digit_chars) (simp add: numeral_2_eq_2)
  have "peek [0, 4, 0xD2] 0 (unat (3 :: u8)) = Some [0, 4, 0xD2 :: u8]" by (simp add: peek_def)
  from printable_amount_correct [OF demo_sdk_str_to_u64 this, of "replicate 50 CHR ''x''"]
  show ?thesis unfolding v t by auto
qed

end
