(* ===== verification/Unit_Tests.thy ===== *)
theory Unit_Tests
  imports Parser_Safety Print_Amount Swap_Entry Test_Crypto
begin

text \<open>
  The unit tests of \<open>src/unit-tests/src/\<close> that need no real hash, as statements about the model: the
  transactions \<open>test_tx.c\<close> wants rejected, the amounts and the null pointers of \<open>test_printers.c\<close>,
  its test of the hash functions, and the amount of \<open>test_swap.c\<close>. A test is a bool that the
  assertions of its function make true.
\<close>

section \<open>Transactions that must be rejected\<close>

text \<open>The files \<open>negative_testcases\<close> names, under \<open>src/tests/standalone/testcases/\<close>.\<close>

definition reserved_ticker :: "u8 list" where
  "reserved_ticker =
     [0x12, 0, 0, 0x22, 0, 0, 0, 0, 0x24, 0, 0, 0, 7, 0x61, 0xd5, 4, 0x62, 0xc5, 0x6d, 0xf9, 0xa8,
      0, 0, 0, 0, 0, 0, 0, 0, 0, 0, 0, 0, 0, 0x58, 0x52, 0x50, 0, 0, 0, 0, 0, 0x0a, 0x20, 0xb3,
      0xc8, 0x5f, 0x48, 0x25, 0x32, 0xa9, 0x57, 0x8d, 0xbb, 0x39, 0x50, 0xb8, 0x5c, 0xa0, 0x65,
      0x94, 0xd1, 0x68, 0x40, 0, 0, 0, 0, 0, 0, 0x0f, 0x73, 0x21, 2, 0xb7, 0x9d, 0xa3, 0x4f, 0x45,
      0x51, 0xca, 0x97, 0x6b, 0x66, 0xaa, 0x78, 0xa5, 0x5c, 0x43, 0x70, 0x7e, 0xc2, 0xbb, 0x2b,
      0xec, 0x39, 0xf9, 0x5b, 0xd5, 0x3f, 0x24, 0xe2, 0xe4, 0x5a, 0x9e, 0x67, 0x81, 0x14, 5, 0x11,
      0xe1, 0x7d, 0xb8, 0x3b, 0xb6, 0xf1, 0x13, 0x93, 0x9d, 0x67, 0xbc, 0x8e, 0xa5, 0x39, 0xed,
      0xc9, 0x26, 0xfc, 0x83, 0x14, 5, 0x11, 0xe1, 0x7d, 0xb8, 0x3b, 0xb6, 0xf1, 0x13, 0x93, 0x9d,
      0x67, 0xbc, 0x8e, 0xa5, 0x39, 0xed, 0xc9, 0x26, 0xfc]"

definition invalid_path_step :: "u8 list" where
  "invalid_path_step =
     [0x12, 0, 0, 0x22, 0x80, 1, 0, 0, 0x24, 0, 0, 0, 7, 0x61, 0xd5, 4, 0x62, 0xc5, 0x6d, 0xf9,
      0xa8, 0, 0, 0, 0, 0, 0, 0, 0, 0, 0, 0, 0, 0, 0x55, 0x53, 0x44, 0, 0, 0, 0, 0, 0x0a, 0x20,
      0xb3, 0xc8, 0x5f, 0x48, 0x25, 0x32, 0xa9, 0x57, 0x8d, 0xbb, 0x39, 0x50, 0xb8, 0x5c, 0xa0,
      0x65, 0x94, 0xd1, 0x68, 0x40, 0, 0, 0, 0, 0, 0, 0x0f, 0x69, 0x40, 0, 0, 0, 0, 0, 0, 0x64,
      0x73, 0x21, 2, 0xb7, 0x9d, 0xa3, 0x4f, 0x45, 0x51, 0xca, 0x97, 0x6b, 0x66, 0xaa, 0x78, 0xa5,
      0x5c, 0x43, 0x70, 0x7e, 0xc2, 0xbb, 0x2b, 0xec, 0x39, 0xf9, 0x5b, 0xd5, 0x3f, 0x24, 0xe2,
      0xe4, 0x5a, 0x9e, 0x67, 0x81, 0x14, 5, 0x11, 0xe1, 0x7d, 0xb8, 0x3b, 0xb6, 0xf1, 0x13, 0x93,
      0x9d, 0x67, 0xbc, 0x8e, 0xa5, 0x39, 0xed, 0xc9, 0x26, 0xfc, 0x83, 0x14, 5, 0x11, 0xe1, 0x7d,
      0xb8, 0x3b, 0xb6, 0xf1, 0x13, 0x93, 0x9d, 0x67, 0xbc, 0x8e, 0xa5, 0x39, 0xed, 0xc9, 0x26,
      0xfc, 1, 0x12, 0x11, 0, 0, 0, 0, 0, 0, 0, 0, 0, 0, 0, 0, 0x43, 0x4e, 0x59, 0, 0, 0, 0, 0,
      0xce, 0xd6, 0xe9, 0x93, 0x70, 0xd5, 0xc0, 0x0e, 0xf4, 0xeb, 0xf7, 0x25, 0x67, 0xda, 0x99,
      0xf5, 0x66, 0x1b, 0xfb, 0x3a, 0x30, 0, 0, 0, 0, 0, 0, 0, 0, 0, 0, 0, 0, 0x55, 0x53, 0x44, 0,
      0, 0, 0, 0, 0x0a, 0x20, 0xb3, 0xc8, 0x5f, 0x48, 0x25, 0x32, 0xa9, 0x57, 0x8d, 0xbb, 0x39,
      0x50, 0xb8, 0x5c, 0xa0, 0x65, 0x94, 0xd1, 0xff, 0x30, 0, 0, 0, 0, 0, 0, 0, 0, 0, 0, 0, 0,
      0x55, 0x53, 0x44, 0, 0, 0, 0, 0, 0x0a, 0x20, 0xb3, 0xc8, 0x5f, 0x48, 0x25, 0x32, 0xa9, 0x57,
      0x8d, 0xbb, 0x39, 0x50, 0xb8, 0x5c, 0xa0, 0x65, 0x94, 0xd1, 0xff, 0x30, 0, 0, 0, 0, 0, 0, 0,
      0, 0, 0, 0, 0, 0x55, 0x53, 0x44, 0, 0, 0, 0, 0, 0x2a, 0xdb, 0x0b, 0x39, 0x59, 0xd6, 0x0a,
      0x6e, 0x69, 0x91, 0xf7, 0x29, 0xe1, 0x91, 0x8b, 0x71, 0x63, 0x92, 0x52, 0x30, 0x30, 0, 0, 0,
      0, 0, 0, 0, 0, 0, 0, 0, 0, 0x55, 0x53, 0x44, 0, 0, 0, 0, 0, 0x0a, 0x20, 0xb3, 0xc8, 0x5f,
      0x48, 0x25, 0x32, 0xa9, 0x57, 0x8d, 0xbb, 0x39, 0x50, 0xb8, 0x5c, 0xa0, 0x65, 0x94, 0xd1,
      0xff, 1, 0x61, 0xe3, 0xd6, 0xbb, 0xa1, 0x6b, 0xee, 0xb0, 0x3d, 0xf3, 0xbc, 0x1f, 0x92, 0xaf,
      0x1d, 0xc7, 0x4a, 0x65, 0x14, 0xb3, 1, 0xd4, 0xc4, 0x31, 0x95, 0xd7, 0xa2, 0xc0, 0xa7, 0xa1,
      0x3a, 0x25, 0x1b, 0x71, 0x7b, 1, 0xd2, 0x5c, 0xd7, 0x1c, 0xad, 0xff, 1, 0x61, 0xe3, 0xd6,
      0xbb, 0xa1, 0x6b, 0xee, 0xb0, 0x3d, 0xf3, 0xbc, 0x1f, 0x92, 0xaf, 0x1d, 0xc7, 0x4a, 0x65,
      0x14, 0xb3, 1, 0x5b, 0x0d, 0x10, 0x33, 0x36, 0x72, 0xc3, 0x8c, 0x19, 0x2f, 0xd0, 0x2d, 0x3a,
      0xa9, 0xdb, 0xc2, 0x18, 0xe4, 0xf5, 0x7c, 0]"

definition invalid_vector_length :: "u8 list" where
  "invalid_vector_length =
     [0x12, 0, 0x1c, 0x22, 0, 0, 0, 0, 0x24, 0, 0, 0, 3, 0x68, 0x40, 0, 0, 0, 0, 0, 0, 0x0f, 0x73,
      0x21, 2, 0xb7, 0x9d, 0xa3, 0x4f, 0x45, 0x51, 0xca, 0x97, 0x6b, 0x66, 0xaa, 0x78, 0xa5, 0x5c,
      0x43, 0x70, 0x7e, 0xc2, 0xbb, 0x2b, 0xec, 0x39, 0xf9, 0x5b, 0xd5, 0x3f, 0x24, 0xe2, 0xe4,
      0x5a, 0x9e, 0x67, 0x81, 0x14, 5, 0x11, 0xe1, 0x7d, 0xb8, 0x3b, 0xb6, 0xf1, 0x13, 0x93, 0x9d,
      0x67, 0xbc, 0x8e, 0xa5, 0x39, 0xed, 0xc9, 0x26, 0xfc, 4, 0x13, 0x21, 0xaa, 0xaa, 0xaa, 0xaa,
      0xaa, 0xaa, 0xaa, 0xaa, 0xaa, 0xaa, 0xaa, 0xaa, 0xaa, 0xaa, 0xaa, 0xaa, 0xaa, 0xaa, 0xaa,
      0xaa, 0xaa, 0xaa, 0xaa, 0xaa, 0xaa, 0xaa, 0xaa, 0xaa, 0xaa, 0xaa, 0xaa, 0xaa]"

definition nested_type :: "u8 list" where
  "nested_type =
     [0x12, 0x27, 0x0f, 0x22, 0, 0, 0, 0, 0x24, 0, 0, 0, 3, 0x68, 0x40, 0, 0, 0, 0, 0, 0, 0x10,
      0x73, 0x21, 2, 0xb7, 0x9d, 0xa3, 0x4f, 0x45, 0x51, 0xca, 0x97, 0x6b, 0x66, 0xaa, 0x78, 0xa5,
      0x5c, 0x43, 0x70, 0x7e, 0xc2, 0xbb, 0x2b, 0xec, 0x39, 0xf9, 0x5b, 0xd5, 0x3f, 0x24, 0xe2,
      0xe4, 0x5a, 0x9e, 0x67, 0x81, 0x14, 5, 0x11, 0xe1, 0x7d, 0xb8, 0x3b, 0xb6, 0xf1, 0x13, 0x93,
      0x9d, 0x67, 0xbc, 0x8e, 0xa5, 0x39, 0xed, 0xc9, 0x26, 0xfc, 0xf9, 0xea, 0x12, 0, 0, 0xe1, 0xf1]"

definition duplicate_type :: "u8 list" where
  "duplicate_type =
     [0x12, 0x27, 0x0f, 0x22, 0, 0, 0, 0, 0x24, 0, 0, 0, 3, 0x68, 0x40, 0, 0, 0, 0, 0, 0, 0x10,
      0x73, 0x21, 2, 0xb7, 0x9d, 0xa3, 0x4f, 0x45, 0x51, 0xca, 0x97, 0x6b, 0x66, 0xaa, 0x78, 0xa5,
      0x5c, 0x43, 0x70, 0x7e, 0xc2, 0xbb, 0x2b, 0xec, 0x39, 0xf9, 0x5b, 0xd5, 0x3f, 0x24, 0xe2,
      0xe4, 0x5a, 0x9e, 0x67, 0x81, 0x14, 5, 0x11, 0xe1, 0x7d, 0xb8, 0x3b, 0xb6, 0xf1, 0x13, 0x93,
      0x9d, 0x67, 0xbc, 0x8e, 0xa5, 0x39, 0xed, 0xc9, 0x26, 0xfc, 0x12, 0, 0]"

definition unknown_flag :: "u8 list" where
  "unknown_flag =
     [0x12, 0, 0x19, 0x22, 0, 0, 0, 0x38, 0x24, 0, 0, 0, 3, 0x20, 0x2a, 0, 0, 0, 0, 0x68, 0x40, 0,
      0, 0, 0, 0, 0, 0x0f, 0x73, 0x21, 2, 0xb7, 0x9d, 0xa3, 0x4f, 0x45, 0x51, 0xca, 0x97, 0x6b,
      0x66, 0xaa, 0x78, 0xa5, 0x5c, 0x43, 0x70, 0x7e, 0xc2, 0xbb, 0x2b, 0xec, 0x39, 0xf9, 0x5b,
      0xd5, 0x3f, 0x24, 0xe2, 0xe4, 0x5a, 0x9e, 0x67, 0x75, 0x0c, 0x69, 0x70, 0x66, 0x73, 0x3a,
      0x2f, 0x2f, 0x62, 0x61, 0x73, 0x69, 0x63, 0x81, 0x14, 5, 0x11, 0xe1, 0x7d, 0xb8, 0x3b, 0xb6,
      0xf1, 0x13, 0x93, 0x9d, 0x67, 0xbc, 0x8e, 0xa5, 0x39, 0xed, 0xc9, 0x26, 0xfc]"

definition trustline_flag :: "u8 list" where
  "trustline_flag =
     [0x12, 0, 0x19, 0x22, 0, 0, 0, 4, 0x24, 0, 0, 0, 3, 0x20, 0x2a, 0, 0, 0, 0, 0x68, 0x40, 0, 0,
      0, 0, 0, 0, 0x0f, 0x73, 0x21, 2, 0xb7, 0x9d, 0xa3, 0x4f, 0x45, 0x51, 0xca, 0x97, 0x6b, 0x66,
      0xaa, 0x78, 0xa5, 0x5c, 0x43, 0x70, 0x7e, 0xc2, 0xbb, 0x2b, 0xec, 0x39, 0xf9, 0x5b, 0xd5,
      0x3f, 0x24, 0xe2, 0xe4, 0x5a, 0x9e, 0x67, 0x75, 0x0c, 0x69, 0x70, 0x66, 0x73, 0x3a, 0x2f,
      0x2f, 0x62, 0x61, 0x73, 0x69, 0x63, 0x81, 0x14, 5, 0x11, 0xe1, 0x7d, 0xb8, 0x3b, 0xb6, 0xf1,
      0x13, 0x93, 0x9d, 0x67, 0xbc, 0x8e, 0xa5, 0x39, 0xed, 0xc9, 0x26, 0xfc]"

definition duplicate_flags :: "u8 list" where
  "duplicate_flags =
     [0x12, 0, 0x19, 0x22, 0, 0, 0, 8, 0x22, 0, 0, 0, 0x38, 0x24, 0, 0, 0, 3, 0x20, 0x2a, 0, 0, 0,
      0, 0x68, 0x40, 0, 0, 0, 0, 0, 0, 0x0f, 0x73, 0x21, 2, 0xb7, 0x9d, 0xa3, 0x4f, 0x45, 0x51,
      0xca, 0x97, 0x6b, 0x66, 0xaa, 0x78, 0xa5, 0x5c, 0x43, 0x70, 0x7e, 0xc2, 0xbb, 0x2b, 0xec,
      0x39, 0xf9, 0x5b, 0xd5, 0x3f, 0x24, 0xe2, 0xe4, 0x5a, 0x9e, 0x67, 0x75, 0x0c, 0x69, 0x70,
      0x66, 0x73, 0x3a, 0x2f, 0x2f, 0x62, 0x61, 0x73, 0x69, 0x63, 0x81, 0x14, 5, 0x11, 0xe1, 0x7d,
      0xb8, 0x3b, 0xb6, 0xf1, 0x13, 0x93, 0x9d, 0x67, 0xbc, 0x8e, 0xa5, 0x39, 0xed, 0xc9, 0x26, 0xfc]"

definition unrecognized_field :: "u8 list" where
  "unrecognized_field =
     [0x12, 0, 0, 0x22, 0, 0, 0, 0, 0x24, 0, 0, 0, 3, 0x20, 0x32, 0, 0, 0, 1, 0x61, 0x40, 0, 0, 0,
      0, 0x0f, 0x42, 0x40, 0x68, 0x40, 0, 0, 0, 0, 0, 0, 0x0f, 0x73, 0x21, 2, 0xb7, 0x9d, 0xa3,
      0x4f, 0x45, 0x51, 0xca, 0x97, 0x6b, 0x66, 0xaa, 0x78, 0xa5, 0x5c, 0x43, 0x70, 0x7e, 0xc2,
      0xbb, 0x2b, 0xec, 0x39, 0xf9, 0x5b, 0xd5, 0x3f, 0x24, 0xe2, 0xe4, 0x5a, 0x9e, 0x67, 0x81,
      0x14, 5, 0x11, 0xe1, 0x7d, 0xb8, 0x3b, 0xb6, 0xf1, 0x13, 0x93, 0x9d, 0x67, 0xbc, 0x8e, 0xa5,
      0x39, 0xed, 0xc9, 0x26, 0xfc, 0x83, 0x14, 5, 0x11, 0xe1, 0x7d, 0xb8, 0x3b, 0xb6, 0xf1, 0x13,
      0x93, 0x9d, 0x67, 0xbc, 0x8e, 0xa5, 0x39, 0xed, 0xc9, 0x26, 0xfc]"

definition zero_currency_amount :: "u8 list" where
  "zero_currency_amount =
     [0x12, 0, 0, 0x22, 0, 0, 0, 0, 0x24, 0, 0, 0, 7, 0x61, 0xd5, 4, 0x62, 0xc5, 0x6d, 0xf9, 0xa8,
      0, 0, 0, 0, 0, 0, 0, 0, 0, 0, 0, 0, 0, 0, 0, 0, 0, 0, 0, 0, 0, 0x0a, 0x20, 0xb3, 0xc8, 0x5f,
      0x48, 0x25, 0x32, 0xa9, 0x57, 0x8d, 0xbb, 0x39, 0x50, 0xb8, 0x5c, 0xa0, 0x65, 0x94, 0xd1,
      0x68, 0x40, 0, 0, 0, 0, 0, 0, 0x0f, 0x73, 0x21, 2, 0xb7, 0x9d, 0xa3, 0x4f, 0x45, 0x51, 0xca,
      0x97, 0x6b, 0x66, 0xaa, 0x78, 0xa5, 0x5c, 0x43, 0x70, 0x7e, 0xc2, 0xbb, 0x2b, 0xec, 0x39,
      0xf9, 0x5b, 0xd5, 0x3f, 0x24, 0xe2, 0xe4, 0x5a, 0x9e, 0x67, 0x81, 0x14, 5, 0x11, 0xe1, 0x7d,
      0xb8, 0x3b, 0xb6, 0xf1, 0x13, 0x93, 0x9d, 0x67, 0xbc, 0x8e, 0xa5, 0x39, 0xed, 0xc9, 0x26,
      0xfc, 0x83, 0x14, 5, 0x11, 0xe1, 0x7d, 0xb8, 0x3b, 0xb6, 0xf1, 0x13, 0x93, 0x9d, 0x67, 0xbc,
      0x8e, 0xa5, 0x39, 0xed, 0xc9, 0x26, 0xfc]"

definition accept_offer :: "u8 list" where
  "accept_offer =
     [0x12, 0, 0x1d, 0x22, 0, 0, 0, 0, 0x24, 0, 0, 0, 3, 0x50, 0x1d, 0, 0, 0, 0, 0x3c, 0x0e, 0x95,
      0x5d, 0xfa, 0x24, 0x36, 0x78, 6, 7, 4, 0x34, 0xd8, 0xbe, 0x16, 0xa1, 0x2e, 0x41, 0x0c, 0x3b,
      0x55, 0x9c, 0xfb, 0xed, 0, 0, 0, 0x52, 0x68, 0x40, 0, 0, 0, 0, 0, 0, 0x0f, 0x73, 0x21, 2,
      0xb7, 0x9d, 0xa3, 0x4f, 0x45, 0x51, 0xca, 0x97, 0x6b, 0x66, 0xaa, 0x78, 0xa5, 0x5c, 0x43,
      0x70, 0x7e, 0xc2, 0xbb, 0x2b, 0xec, 0x39, 0xf9, 0x5b, 0xd5, 0x3f, 0x24, 0xe2, 0xe4, 0x5a,
      0x9e, 0x67, 0x81, 0x14, 5, 0x11, 0xe1, 0x7d, 0xb8, 0x3b, 0xb6, 0xf1, 0x13, 0x93, 0x9d, 0x67,
      0xbc, 0x8e, 0xa5, 0x39, 0xed, 0xc9, 0x26, 0xfc]"

definition accept_offer_broker :: "u8 list" where
  "accept_offer_broker =
     [0x12, 0, 0x1d, 0x22, 0, 0, 0, 0, 0x24, 0, 0, 0, 3, 0x50, 0x1c, 0, 0, 0, 0, 0x3c, 0x0e, 0x95,
      0x5d, 0xfa, 0x24, 0x36, 0x78, 6, 7, 4, 0x34, 0xd8, 0xbe, 0x16, 0xa1, 0x2e, 0x41, 0x0c, 0x3b,
      0x55, 0x9c, 0xfb, 0xed, 0, 0, 0, 0x52, 0x50, 0x1d, 0, 0, 0, 0, 0x3c, 0x0e, 0x95, 0x5d, 0xfa,
      0x24, 0x36, 0x78, 6, 7, 4, 0x34, 0xd8, 0xbe, 0x16, 0xa1, 0x2e, 0x41, 0x0c, 0x3b, 0x55, 0x9c,
      0xfb, 0xed, 0, 0, 0, 0x52, 0x68, 0x40, 0, 0, 0, 0, 0, 0, 0x0f, 0x60, 0x13, 0xd4, 0x83, 0x8d,
      0x7e, 0xa4, 0xc6, 0x80, 0, 0, 0, 0, 0, 0, 0, 0, 0, 0, 0, 0, 0, 0x46, 0x4f, 0x4f, 0, 0, 0, 0,
      0, 0x20, 0x42, 0x88, 0xd2, 0xe4, 0x7f, 0x8e, 0xf6, 0xc9, 0x9b, 0xcc, 0x45, 0x79, 0x66, 0x32,
      0x0d, 0x12, 0x40, 0x97, 0x11, 0x73, 0x21, 2, 0xb7, 0x9d, 0xa3, 0x4f, 0x45, 0x51, 0xca, 0x97,
      0x6b, 0x66, 0xaa, 0x78, 0xa5, 0x5c, 0x43, 0x70, 0x7e, 0xc2, 0xbb, 0x2b, 0xec, 0x39, 0xf9,
      0x5b, 0xd5, 0x3f, 0x24, 0xe2, 0xe4, 0x5a, 0x9e, 0x67, 0x81, 0x14, 5, 0x11, 0xe1, 0x7d, 0xb8,
      0x3b, 0xb6, 0xf1, 0x13, 0x93, 0x9d, 0x67, 0xbc, 0x8e, 0xa5, 0x39, 0xed, 0xc9, 0x26, 0xfc]"

definition negative_testcases :: "u8 list list" where
  "negative_testcases =
     [reserved_ticker, invalid_path_step, invalid_vector_length, nested_type, duplicate_type,
      unknown_flag, trustline_flag, duplicate_flags, unrecognized_field,
      zero_currency_amount, accept_offer, accept_offer_broker]"

text \<open>\<open>parse_tx\<close> returns something other than 0.\<close>

definition rejects :: "u8 list \<Rightarrow> exc \<Rightarrow> bool" where
  "rejects bs e \<longleftrightarrow>
     (case parse_tx (init_context bs (of_nat (length bs))) of
        Some (Inl err, _) \<Rightarrow> err = e | _ \<Rightarrow> False)"

definition test_invalid_transactions :: bool where
  "test_invalid_transactions \<longleftrightarrow>
     list_all (\<lambda>bs. \<exists>e. e \<noteq> BAD_ACCESS \<and> rejects bs e) negative_testcases"

text \<open>Each of them with the error the comments of the table lead to expect.\<close>

lemma reserved_ticker_rejected: "rejects reserved_ticker INVALID_STATE"
  by code_simp

lemma invalid_path_step_rejected: "rejects invalid_path_step INVALID_STATE"
  by code_simp

lemma invalid_vector_length_rejected: "rejects invalid_vector_length INVALID_STATE"
  by code_simp

lemma nested_type_rejected: "rejects nested_type BLIND_SIGN_REQUIRED"
  by code_simp

lemma duplicate_type_rejected: "rejects duplicate_type BLIND_SIGN_REQUIRED"
  by code_simp

lemma unknown_flag_rejected: "rejects unknown_flag BLIND_SIGN_REQUIRED"
  by code_simp

lemma trustline_flag_rejected: "rejects trustline_flag BLIND_SIGN_REQUIRED"
  by code_simp

lemma duplicate_flags_rejected: "rejects duplicate_flags BLIND_SIGN_REQUIRED"
  by code_simp

lemma unrecognized_field_rejected: "rejects unrecognized_field BLIND_SIGN_REQUIRED"
  by code_simp

lemma zero_currency_amount_rejected: "rejects zero_currency_amount INVALID_STATE"
  by code_simp

lemma accept_offer_rejected: "rejects accept_offer BLIND_SIGN_REQUIRED"
  by code_simp

lemma accept_offer_broker_rejected: "rejects accept_offer_broker BLIND_SIGN_REQUIRED"
  by code_simp

lemma rejectsI: "rejects bs e \<Longrightarrow> e \<noteq> BAD_ACCESS \<Longrightarrow> \<exists>e. e \<noteq> BAD_ACCESS \<and> rejects bs e"
  by blast

lemmas all_rejected =
  reserved_ticker_rejected invalid_path_step_rejected invalid_vector_length_rejected
  nested_type_rejected duplicate_type_rejected unknown_flag_rejected trustline_flag_rejected
  duplicate_flags_rejected unrecognized_field_rejected zero_currency_amount_rejected
  accept_offer_rejected accept_offer_broker_rejected

lemma invalid_transactions_pass: test_invalid_transactions
  unfolding test_invalid_transactions_def negative_testcases_def list.pred_inject
  by (intro conjI TrueI) ((rule rejectsI, rule all_rejected, simp) | simp)+

section \<open>Amounts\<close>

text \<open>The return code and the text an amount printer leaves in \<open>buf\<close>.\<close>

definition prints :: "(int \<times> string) option \<Rightarrow> int \<Rightarrow> string \<Rightarrow> bool" where
  "prints r code s \<longleftrightarrow> (case r of Some (c, buf) \<Rightarrow> c = code \<and> cstr buf = s | None \<Rightarrow> False)"

definition fails :: "(int \<times> string) option \<Rightarrow> bool" where
  "fails r \<longleftrightarrow> (case r of Some (c, _) \<Rightarrow> c = -1 | None \<Rightarrow> False)"

definition test_print_amount :: "string \<Rightarrow> bool" where
  "test_print_amount buf \<longleftrightarrow>
     prints (xrp_print_amount 123456 buf 128) 0 ''XRP 0.123456'' \<and>
     fails (xrp_print_amount 0xffffffffffffffff buf 128) \<and>
     prints (xrp_print_amount 0x8ac7230489e7ffff buf 128) 0 ''XRP 9999999999999.999999'' \<and>
     fails (xrp_print_amount (0x8ac7230489e7ffff + 1) buf 128)"

definition test_get_printable_amount :: "string \<Rightarrow> bool" where
  "test_get_printable_amount printable_amount \<longleftrightarrow>
     (case swap_str_to_u64 [0x00, 0x04, 0xd2] of
        Some amount \<Rightarrow> amount = 0x4d2 \<and> prints (xrp_print_amount amount printable_amount 50) 0 ''XRP 0.001234''
      | None \<Rightarrow> False)"

lemma test_amounts:
  "xrp_text 123456 = ''XRP 0.123456''" "xrp_text 0x8ac7230489e7ffff = ''XRP 9999999999999.999999''"
  "xrp_text 1234 = ''XRP 0.001234''"
  by (simp_all add: xrp_text_def point_text_def trim_text_def strip_zeros_def num_digits.simps digit_chars)
    (simp add: numeral_2_eq_2)

lemma print_amount_passes: "length buf = 128 \<Longrightarrow> test_print_amount buf"
  using test_amounts
  by (simp add: test_print_amount_def prints_def fails_def xrp_print_amount_spec cstr_padded)

lemma get_printable_amount_passes: "length buf = 50 \<Longrightarrow> test_get_printable_amount buf"
  using test_amounts
  by (simp add: test_get_printable_amount_def prints_def swap_str_to_u64_value be_val_Cons
      xrp_print_amount_spec cstr_padded)

section \<open>Sources of an address\<close>

definition test_public_key_to_base58_requires_exactly_one_source :: "'key sdk \<Rightarrow> string \<Rightarrow> bool" where
  "test_public_key_to_base58_requires_exactly_one_source sdk out \<longleftrightarrow>
     (let pubkey = replicate XRP_PUBKEY_SIZE 0x02; account = replicate 20 0x03;
          encoded = (\<lambda>key acc. map_option fst (xrp_public_key_to_encoded_base58 sdk key acc (Some out) 0)) in
      encoded None None = Some 0 \<and> encoded (Some pubkey) (Some account) = Some 0 \<and>
      (\<exists>n > 0. encoded (Some pubkey) None = Some n) \<and> (\<exists>n > 0. encoded None (Some account) = Some n))"

lemma exactly_one_source_passes:
  assumes "sdk_contract sdk" and "length out = XRP_ADDRESS_SIZE"
  shows "test_public_key_to_base58_requires_exactly_one_source sdk out"
proof -
  obtain h where h: "xrp_public_key_hash160 sdk (replicate XRP_PUBKEY_SIZE 0x02) = Some h" "length h = 20"
    using hash160 [OF assms(1)] .
  have some: "0 < length (address_of sdk a)" for a using address_nonempty [of sdk a] by simp
  have neither: "xrp_public_key_to_encoded_base58 sdk None None (Some out) 0 = Some (0, Some out)"
    and both: "xrp_public_key_to_encoded_base58 sdk (Some p) (Some a) (Some out) 0 = Some (0, Some out)" for p a
    by (simp_all add: xrp_public_key_to_encoded_base58_def)
  have key: "xrp_public_key_to_encoded_base58 sdk (Some (replicate XRP_PUBKEY_SIZE 0x02)) None (Some out) 0 =
      Some (length (address_of sdk h), Some (address_of sdk h @ drop (length (address_of sdk h)) out))"
    using encoded_version0 [OF assms(1) h(2) assms(2), where key = "Some (replicate XRP_PUBKEY_SIZE 0x02)" and acc = None]
      h(1) by simp
  have acc: "xrp_public_key_to_encoded_base58 sdk None (Some (replicate 20 0x03)) (Some out) 0 =
      Some (length (address_of sdk (replicate 20 0x03)),
        Some (address_of sdk (replicate 20 0x03) @ drop (length (address_of sdk (replicate 20 0x03))) out))"
    using encoded_account [OF assms(1) _ assms(2), of "replicate 20 0x03"] by simp
  show ?thesis
    unfolding test_public_key_to_base58_requires_exactly_one_source_def Let_def neither both key acc
    using some by simp
qed

section \<open>The hash functions\<close>

definition test_cx_hash_no_throw_rejects_undersized_buffer :: "openssl \<Rightarrow> u8 list \<Rightarrow> bool" where
  "test_cx_hash_no_throw_rejects_undersized_buffer ossl exact \<longleftrightarrow>
     (let sha256 = Some (header (snd cx_sha256_init)); ripemd160 = Some (header (snd cx_ripemd160_init));
          data = map of_char ''some data'' @ [0]; canary_guard = replicate 36 0xAA;
          oversized = replicate 40 0xAA in
      cx_hash_no_throw ossl sha256 CX_LAST data 10 (Some canary_guard) 31 =
        Some (CX_INVALID_PARAMETER_SIZE, Some canary_guard) \<and>
      (\<exists>exact'. cx_hash_no_throw ossl sha256 CX_LAST data 10 (Some exact) 32 = Some (CX_OK, Some exact') \<and>
        (\<exists>oversized'. cx_hash_no_throw ossl sha256 CX_LAST data 10 (Some oversized) 40 =
            Some (CX_OK, Some oversized') \<and> take 32 oversized' = exact')) \<and>
      cx_hash_no_throw ossl ripemd160 CX_LAST data 10 (Some canary_guard) 19 =
        Some (CX_INVALID_PARAMETER_SIZE, Some canary_guard))"

lemma undersized_buffer_passes:
  assumes "openssl_works ossl" and "length exact = 32"
  shows "test_cx_hash_no_throw_rejects_undersized_buffer ossl exact"
proof -
  let ?sha = "header (snd cx_sha256_init)" and ?rip = "header (snd cx_ripemd160_init)"
  let ?data = "map of_char ''some data'' @ [0] :: u8 list"
  note short = cx_hash_refuses_short_buffer [OF assms(1)]
  have sha: "cx_hash_no_throw ossl (Some ?sha) CX_LAST ?data 10 (Some buf) 31 = Some (CX_INVALID_PARAMETER_SIZE, Some buf)"
    and rip: "cx_hash_no_throw ossl (Some ?rip) CX_LAST ?data 10 (Some buf) 19 = Some (CX_INVALID_PARAMETER_SIZE, Some buf)" for buf
    using short [of ?sha EVP_sha256 31] short [of ?rip EVP_ripemd160 19] by (simp_all add: init_algo digest_size_def)
  note full = cx_hash_writes_digest [OF assms(1), of ?sha EVP_sha256]
  obtain d where d: "EVP_DigestFinal ossl EVP_sha256 (take 10 ?data) = Some d" "length d = 32"
    "cx_hash_no_throw ossl (Some ?sha) CX_LAST ?data 10 (Some exact) 32 = Some (CX_OK, Some (d @ drop 32 exact))"
    using full [of 32 exact 10 ?data] assms(2) by (auto simp: init_algo digest_size_def)
  have over: "cx_hash_no_throw ossl (Some ?sha) CX_LAST ?data 10 (Some (replicate 40 0xAA)) 40 =
      Some (CX_OK, Some (d @ drop 32 (replicate 40 0xAA)))"
    using full [of 40 "replicate 40 0xAA" 10 ?data] d(1) by (auto simp: init_algo digest_size_def)
  show ?thesis
    unfolding test_cx_hash_no_throw_rejects_undersized_buffer_def Let_def sha rip d(3) over
    using d(2) assms(2) by simp
qed

end
