(* ===== verification/Spec2Isabelle.thy ===== *)
theory Spec2Isabelle
  imports Parser_Limits Parser_Reads Seen_And_Signed Fuzz_Harness Unit_Tests
begin

text \<open>
  The XRP application of the Ledger hardware wallets, \<open>src/src/\<close>: it receives a serialized
  transaction in packets over APDU commands, parses it, shows its fields to the user and, after
  approval, signs its bytes. Started by the exchange app it signs without a review, if the
  transaction is the payment that was announced.

  The parts and the theories that model them, from the inside out:

  \<^item> \<open>Prelude\<close>, \<open>C_Strings\<close>, \<open>Decimal\<close>: machine words, buffers as lists with \<open>peek\<close> and \<open>poke\<close> that are
    \<open>None\<close> outside them, the error-state computations \<open>comp\<close> of the stateful code with their
    weakest preconditions \<open>wp\<close>, the routines of the C library, decimal text and its reading back.
  \<^item> \<open>Field_Types\<close> (\<open>fields.h\<close>, \<open>array.h\<close>, \<open>transaction_types.h\<close>, \<open>limitations.h\<close>): the
    data of a parsed transaction. The union of \<open>field_t\<close> is a datatype, so reading a member that
    was not written is visible; a pointer into the transaction is an index.
  \<^item> \<open>Field_Names\<close> (\<open>fields.c\<close>), \<open>Field_Sort\<close> (\<open>field_sort.c\<close>), \<open>Flags\<close> (\<open>flags.c\<close>), \<open>Readers\<close>
    (\<open>readers.c\<close>, \<open>number_helpers.c\<close>, \<open>ascii_strings.c\<close>), \<open>Currency\<close> (the codes of \<open>amount.c\<close>).
  \<^item> \<open>Parser\<close> (\<open>xrp_parse.c\<close>), with \<open>Wire\<close>, the grammar of tokens it is specified by,
    \<open>Parser_Safety\<close> (bounds, termination, typing), \<open>Parser_Correct\<close> (it computes what the grammar
    says), \<open>Parser_Reads\<close> (which of the fields it reads it leaves out), \<open>Blind_Causes\<close> (the recorded
    type, and why it asks for blind signing) and \<open>Parser_Limits\<close> (two kinds of transaction its
    checks let through).
  \<^item> \<open>Base58\<close>, \<open>Keys\<close> (\<open>xrp_helpers.c\<close>, \<open>xrp_pub_key.c\<close>): addresses, compressed keys, derivation
    paths. The cryptography of the device is the record \<open>sdk\<close>, an argument; \<open>sdk_contract\<close> states
    the sizes it promises, and \<open>demo_sdk\<close> is an instance.
  \<^item> \<open>Print_Amount\<close> (\<open>adjust_decimals\<close> and \<open>xrp_print_amount\<close>), \<open>Amount\<close> (\<open>amount.c\<close>), \<open>Percentage\<close>,
    \<open>Time_Format\<close>, \<open>General\<close> with \<open>Byte_Fields\<close> (\<open>general.c\<close>), \<open>Format_Field\<close> (\<open>fmt.c\<close>): the
    formatters. Each definition writes into a buffer; the lemmas give the text it leaves, and
    what reading that text back yields.
  \<^item> \<open>Review\<close> (\<open>review_menu_nbgl.c\<close>): titles and the eight buffers of a page.
  \<^item> \<open>Session\<close>, \<open>Review_Gate\<close>, \<open>Commands\<close> (\<open>apdu/\<close>, \<open>transaction/\<close>, \<open>ui/\<close>, \<open>app_main.c\<close>): the
    globals as the record \<open>app\<close>, every handler, the screens that call back, and the step relation
    of commands and user actions. What the app sends, signs and reports is the \<open>trace\<close>.
  \<^item> \<open>Session_Safety\<close>, \<open>Session_Steps\<close>, \<open>Session_Runs\<close>: the invariant, its preservation by every
    handler and what follows for runs. \<open>Packets\<close>, \<open>Swap_Check\<close>, \<open>Swap_Dialogue\<close>, \<open>Pubkey_Stuck\<close>: the
    dialogues of a host, of the exchange app, and an address review that was replaced.
    \<open>Session_Properties\<close> states what a host and a user can rely on, and \<open>Seen_And_Signed\<close> joins the
    session with the pages of \<open>Review\<close>.
  \<^item> \<open>Swap_Entry\<close> (\<open>swap/\<close>): the entry points of the exchange app, and the way from its parameters
    to the payment that is signed.
  \<^item> \<open>Test_Crypto\<close> (\<open>src/unit-tests/src/cx.c\<close>): the hash functions of the test builds, over the record
    \<open>openssl\<close>; they keep the part of \<open>sdk_contract\<close> about hashes. \<open>Fuzz_Harness\<close>
    (\<open>src/fuzzing/src/fuzz_tx.c\<close>): the fuzzer's entry point. \<open>Unit_Tests\<close>: the unit tests that need
    no real hash, each proved to pass, and the transactions they want rejected.

  How they interact: \<open>handle_sign\<close> collects the packets, \<open>parse_tx\<close> turns the bytes into fields,
  \<open>review_transaction\<close> opens a review or, for a swap, compares the fields with the announcement;
  the screen library asks \<open>getPair\<close> for the pairs of each page, which uses \<open>resolve_field_name\<close> and
  \<open>format_field\<close>; the user's choice comes back through \<open>reviewChoice\<close> to \<open>sign_transaction\<close>.

  What is shown. Nothing is signed that the user has not approved on the screen, or that is not
  the payment the exchange app announced (\<open>signature_needs_approval\<close>, \<open>swap_signs_only_agreed\<close>,
  \<open>swap_pays_what_was_announced\<close>), and no swap signs what would need blind signing; what is signed is what was parsed, and the review holds all
  its fields (\<open>what_is_signed_was_seen\<close>, \<open>approved_transaction_is_signed\<close>, \<open>parse_tx_correct\<close>); each field is shown in full as
  what it is, and the page holds together (\<open>parsed_fields_are_shown\<close>, \<open>review_page_intact\<close>,
  \<open>review_tells_values_apart\<close>), where only the kinds of field in \<open>never_shown\<close> are left out
  (\<open>parse_tx_clear_signable\<close>), and each bit of a flags field is accounted for, for the types that have
  a flag table (\<open>format_flags_accounts_for_bits\<close>); no command, transaction or parameter makes the code leave a
  buffer or loop (\<open>session_safe\<close>, \<open>parse_tx_safe\<close>, \<open>decimal_printing_returns\<close>, \<open>fuzzing_finds_nothing\<close>).

  Interfaces. \<open>neighbour_order\<close> (what the sort needs of its comparison), \<open>flag_table\<close> (what the
  flags formatter needs of its tables), \<open>handler_contract\<close> (what a run needs of its steps),
  \<open>pubkey_frame\<close> (what a state predicate needs to survive every handler), \<open>readable_text\<close> (what a
  text needs to determine its value) and \<open>page_cells\<close> (what a page needs of the calls that fill it)
  are locales, each interpreted on the definitions of the code.

  Bounds and loops. Buffers have the sizes of the code; \<open>MAX_FIELD_LEN\<close> and the layout of addresses
  depend on the target, an argument. Loops are structural recursions or have a measure. Two are
  partial functions, whose value \<open>None\<close> also stands for not returning: the parser's main loop,
  which is shown to return on all bytes, and the digit count of \<open>print_uint64_t\<close>, which does not
  return for the largest number and is shown to return whenever it is called. No fuel is used.

  Not modelled: the SDK (USB, NBGL layout, cryptography, the loop that receives bytes), of which the
  documented behaviour used is in \<open>sdk_contract\<close>, \<open>sdk_works\<close>, \<open>accepts_commands\<close> and
  \<open>str_to_u64_contract\<close>; \<open>PRINTF\<close> and page layout, which are output; the screens of devices without
  a touch screen, which are not in these sources, and the part of \<open>blind_signing.c\<close> for them (the
  model has the branch of \<open>SCREEN_SIZE_WALLET\<close>); which hash \<open>get_public_key\<close> passes to the key
  derivation, part of the parameter \<open>sdk_pubkey\<close>; the constants of \<open>fields.h\<close> that only name table
  entries; the Quit button of the home screen, which ends the app; the unit tests that compare
  addresses, which need the digests themselves, and the functional tests, which drive an emulator.

  The definitions are executable. Run by the code generator on the transactions of
  \<open>src/unit-tests/src/test_tx.c\<close>, with SHA-256 for the hash, they give the titles and texts of
  every expected result there, and refuse every transaction of its \<open>negative_testcases\<close>; the latter
  is also a theorem, \<open>invalid_transactions_pass\<close>.
\<close>

end
